(* ===== verification/GoPrelude.thy ===== *)
theory GoPrelude
  imports Main "HOL-Library.Word"
begin

text \<open>
  Shared vocabulary of the development: the range and the wrap-around of Go's \<open>int64\<close>, the
  ways in which a call to an external service (MySQL, Redis, Kafka) can end, and the generic
  lemmas on lists, maps and sums that the component theories rewrite with.
\<close>

named_theorems go_defs "definitions of the model that proofs unfold"
named_theorems go_inv "invariants preserved by the operations"

section \<open>Machine integers\<close>

text \<open>
  Identifiers and sequence numbers are \<open>int64\<close> in Go and \<open>BIGINT\<close> in MySQL. They are modelled
  as \<open>int\<close>; the functions whose result can leave the range write the wrap-around out with
  \<open>wrap64\<close>.
\<close>

definition int64_min :: int where "int64_min = - (2 ^ 63)"
definition int64_max :: int where "int64_max = 2 ^ 63 - 1"

definition in_int64 :: "int \<Rightarrow> bool" where
  "in_int64 x \<longleftrightarrow> int64_min \<le> x \<and> x \<le> int64_max"

definition wrap64 :: "int \<Rightarrow> int" where
  "wrap64 x = (x + 2 ^ 63) mod 2 ^ 64 - 2 ^ 63"

lemma wrap64_in_range [simp]: "in_int64 (wrap64 x)"
proof -
  define y where "y = (x + 9223372036854775808) mod (18446744073709551616 :: int)"
  have "0 \<le> y" and "y < 18446744073709551616"
    by (simp_all add: y_def)
  then show ?thesis
    by (simp add: in_int64_def int64_min_def int64_max_def wrap64_def y_def [symmetric])
qed

lemma wrap64_id: "in_int64 x \<Longrightarrow> wrap64 x = x"
  by (simp add: in_int64_def int64_min_def int64_max_def wrap64_def)

section \<open>Outcomes of external calls\<close>

text \<open>
  A call to MySQL, Redis or Kafka either takes effect and answers (\<open>Reply\<close>), fails without an
  effect (\<open>Lost e\<close>), or takes effect while the answer is lost, so that the caller sees the
  error \<open>e\<close> although the change was made (\<open>AckLost e\<close>: a commit whose acknowledgement timed
  out).
\<close>

datatype 'e fault = Reply | Lost 'e | AckLost 'e

fun fault_error :: "'e fault \<Rightarrow> 'e option" where
  "fault_error Reply = None"
| "fault_error (Lost e) = Some e"
| "fault_error (AckLost e) = Some e"

fun fault_applied :: "'e fault \<Rightarrow> bool" where
  "fault_applied Reply = True"
| "fault_applied (Lost e) = False"
| "fault_applied (AckLost e) = True"

lemma fault_error_None [simp]: "fault_error f = None \<longleftrightarrow> f = Reply"
  by (cases f) auto

lemma fault_error_Some_iff:
  "fault_error f = Some e \<longleftrightarrow> f = Lost e \<or> f = AckLost e"
  by (cases f) auto

text \<open>
  A world that carries the list of the faults still to come: each external call takes the first
  one; when the list is used up every call succeeds.
\<close>

fun pop_fault :: "'e fault list \<Rightarrow> 'e fault \<times> 'e fault list" where
  "pop_fault [] = (Reply, [])"
| "pop_fault (f # fs) = (f, fs)"

section \<open>Results\<close>

text \<open>\<open>Inl\<close> is the error return of a Go function, \<open>Inr\<close> its value.\<close>

definition is_ok :: "'e + 'a \<Rightarrow> bool" where
  "is_ok r \<longleftrightarrow> (case r of Inl _ \<Rightarrow> False | Inr _ \<Rightarrow> True)"

lemma is_ok_simps [simp]: "\<not> is_ok (Inl e)" "is_ok (Inr a)"
  by (simp_all add: is_ok_def)

section \<open>Lists and maps\<close>

lemma sorted_wrt_filter_map:
  "sorted_wrt P (map f xs) \<Longrightarrow> sorted_wrt P (map f (filter Q xs))"
  by (induction xs) auto

lemma map_upd_dom_iff: "k \<in> dom (m(k' \<mapsto> v)) \<longleftrightarrow> k = k' \<or> k \<in> dom m"
  by auto

lemma list_all2_right: "list_all2 P xs ys \<Longrightarrow> y \<in> set ys \<Longrightarrow> \<exists>x \<in> set xs. P x y"
  by (induction rule: list_all2_induct) auto

lemma list_all2_left: "list_all2 P xs ys \<Longrightarrow> x \<in> set xs \<Longrightarrow> \<exists>y \<in> set ys. P x y"
  by (induction rule: list_all2_induct) auto

text \<open>Lookups in a filtered association list.\<close>

lemma map_of_filter_key: "map_of (filter (\<lambda>p. fst p \<noteq> i) d) j = (if j = i then None else map_of d j)"
  by (induction d) auto

lemma map_of_filter_time:
  "distinct (map fst d) \<Longrightarrow> map_of (filter (\<lambda>p. P (snd p)) d) j = (case map_of d j of None \<Rightarrow> None | Some t \<Rightarrow> if P t then Some t else None)"
  by (induction d) (auto split: option.splits simp: map_of_eq_None_iff image_iff)

section \<open>Refinement\<close>

text \<open>
  A system that starts in \<open>c0\<close> and changes by \<open>cstep\<close> implements a specification with the start \<open>a0\<close> and the
  changes \<open>astep\<close>: each change shows as one change of the specification or not at all.
\<close>

locale refinement =
  fixes c0 :: 'c and cstep :: "'c \<Rightarrow> 'c \<Rightarrow> bool" and sound :: "'c \<Rightarrow> bool"
    and abs :: "'c \<Rightarrow> 'a" and a0 :: 'a and astep :: "'a \<Rightarrow> 'a \<Rightarrow> bool"
  assumes start: "sound c0 \<and> abs c0 = a0"
    and sound_step: "sound c \<Longrightarrow> cstep c c' \<Longrightarrow> sound c'"
    and abs_step: "sound c \<Longrightarrow> cstep c c' \<Longrightarrow> abs c' = abs c \<or> astep (abs c) (abs c')"
begin

lemma run_sound: "cstep\<^sup>*\<^sup>* c0 c \<Longrightarrow> sound c"
  by (induction rule: rtranclp_induct) (use start sound_step in auto)

lemma simulates: "cstep\<^sup>*\<^sup>* c0 c \<Longrightarrow> astep\<^sup>*\<^sup>* a0 (abs c)"
proof (induction rule: rtranclp_induct)
  case base
  show ?case using start by simp
next
  case (step c c')
  from abs_step [OF run_sound [OF step(1)] step(2)] step(3) show ?case
    by (auto intro: rtranclp.rtrancl_into_rtrancl)
qed

text \<open>What every change of the specification keeps holds of the system.\<close>

lemma abstract_invariant:
  assumes "cstep\<^sup>*\<^sup>* c0 c" and "P a0" and "\<And>a a'. P a \<Longrightarrow> astep a a' \<Longrightarrow> P a'"
  shows "P (abs c)"
  using simulates [OF assms(1)] by (induction rule: rtranclp_induct) (use assms(2,3) in auto)

end

end
