(* ===== verification/Errs.thy ===== *)
theory Errs
  imports GoPrelude
begin

text \<open>
  \<open>internal/errs\<close>: the error codes, the business error \<open>*errs.Error\<close> with its cause chain, and
  the classification of errors that the circuit breakers and the workers consult. User-visible
  messages are rendered by an English gloss of the Chinese text; no theorem depends on them.
\<close>

section \<open>Codes\<close>

datatype code =
    InvalidArgument | AuthRequired | TokenExpired | UserNotFound | UsernameConflict
  | ConversationNotFound | ConversationForbidden | MessageNotFound | MessageDuplicate
  | MessageRateLimited | MessageTooLarge | KafkaUnavailable | IDGeneratorUnavailable
  | InternalError | RateLimited | SystemBusy | HistoryUnavailable | ConnectionSlow
  | ConnectionRateLimited | RedisUnavailable | InvalidTicket
  | UnlistedCode string

fun code_string :: "code \<Rightarrow> string" where
  "code_string InvalidArgument = ''INVALID_ARGUMENT''"
| "code_string AuthRequired = ''AUTH_REQUIRED''"
| "code_string TokenExpired = ''TOKEN_EXPIRED''"
| "code_string UserNotFound = ''USER_NOT_FOUND''"
| "code_string UsernameConflict = ''USERNAME_CONFLICT''"
| "code_string ConversationNotFound = ''CONVERSATION_NOT_FOUND''"
| "code_string ConversationForbidden = ''CONVERSATION_FORBIDDEN''"
| "code_string MessageNotFound = ''MESSAGE_NOT_FOUND''"
| "code_string MessageDuplicate = ''MESSAGE_DUPLICATE''"
| "code_string MessageRateLimited = ''MESSAGE_RATE_LIMITED''"
| "code_string MessageTooLarge = ''MESSAGE_TOO_LARGE''"
| "code_string KafkaUnavailable = ''KAFKA_UNAVAILABLE''"
| "code_string IDGeneratorUnavailable = ''ID_GENERATOR_UNAVAILABLE''"
| "code_string InternalError = ''INTERNAL_ERROR''"
| "code_string RateLimited = ''RATE_LIMITED''"
| "code_string SystemBusy = ''SYSTEM_BUSY''"
| "code_string HistoryUnavailable = ''HISTORY_UNAVAILABLE''"
| "code_string ConnectionSlow = ''CONNECTION_SLOW''"
| "code_string ConnectionRateLimited = ''CONNECTION_RATE_LIMITED''"
| "code_string RedisUnavailable = ''REDIS_UNAVAILABLE''"
| "code_string InvalidTicket = ''INVALID_TICKET''"
| "code_string (UnlistedCode s) = s"

text \<open>The map \<open>httpStatus\<close>; a code that is not a key has no entry.\<close>

fun httpStatus :: "code \<Rightarrow> int option" where
  "httpStatus InvalidArgument = Some 400"
| "httpStatus AuthRequired = Some 401"
| "httpStatus TokenExpired = Some 401"
| "httpStatus UserNotFound = Some 404"
| "httpStatus UsernameConflict = Some 409"
| "httpStatus ConversationNotFound = Some 404"
| "httpStatus ConversationForbidden = Some 403"
| "httpStatus MessageNotFound = Some 404"
| "httpStatus MessageDuplicate = Some 409"
| "httpStatus MessageRateLimited = Some 429"
| "httpStatus MessageTooLarge = Some 422"
| "httpStatus KafkaUnavailable = Some 503"
| "httpStatus IDGeneratorUnavailable = Some 503"
| "httpStatus InternalError = Some 500"
| "httpStatus RateLimited = Some 429"
| "httpStatus SystemBusy = Some 503"
| "httpStatus HistoryUnavailable = Some 503"
| "httpStatus ConnectionSlow = Some 503"
| "httpStatus ConnectionRateLimited = Some 429"
| "httpStatus RedisUnavailable = Some 503"
| "httpStatus InvalidTicket = Some 401"
| "httpStatus (UnlistedCode s) = None"

section \<open>Errors\<close>

text \<open>
  The sentinel errors the program compares with, and the error values: a business error with
  its optional cause, a sentinel, a MySQL error with its number, an error wrapped by
  \<open>fmt.Errorf("...: %w")\<close>, and any other error with its text.
\<close>

datatype sentinel =
    ContextCanceled | ContextDeadlineExceeded
  | ErrSegmentConflict | ErrRecordNotFound | ErrPersistDuplicate | ErrDupConversation
  | ErrOpenState | ErrTooManyRequests | ErrNoWorkerSlot
  | ErrConnectionNotFound | ErrQueueFull | ErrClosed
  | RedisNil | JwtTokenExpired | ErrInvalidHash

datatype gerr =
    Biz code string bool int "gerr option"
  | Sentinel sentinel
  | MySQLError nat
  | Wrapped string gerr
  | OtherError string

fun biz_code :: "gerr \<Rightarrow> code option" where
  "biz_code (Biz c _ _ _ _) = Some c"
| "biz_code _ = None"

text \<open>\<open>errors.As\<close> with a \<open>*errs.Error\<close> target: the first business error of the chain.\<close>

fun As :: "gerr \<Rightarrow> gerr option" where
  "As (Biz c m r a k) = Some (Biz c m r a k)"
| "As (Wrapped m e) = As e"
| "As _ = None"

text \<open>\<open>errors.Is\<close>: the chain contains the sentinel.\<close>

fun errors_Is :: "gerr \<Rightarrow> sentinel \<Rightarrow> bool" where
  "errors_Is (Sentinel s) t \<longleftrightarrow> s = t"
| "errors_Is (Biz _ _ _ _ (Some e)) t \<longleftrightarrow> errors_Is e t"
| "errors_Is (Wrapped _ e) t \<longleftrightarrow> errors_Is e t"
| "errors_Is _ _ \<longleftrightarrow> False"

definition New :: "code \<Rightarrow> string \<Rightarrow> gerr" where
  "New c msg = Biz c msg False 0 None"

definition Wrap :: "code \<Rightarrow> string \<Rightarrow> gerr option \<Rightarrow> gerr" where
  "Wrap c msg cause = Biz c msg False 0 cause"

definition Retryable :: "code \<Rightarrow> string \<Rightarrow> int \<Rightarrow> gerr" where
  "Retryable c msg retryAfterMS = Biz c msg True retryAfterMS None"

definition Internal :: "gerr option \<Rightarrow> gerr" where
  "Internal cause = Wrap InternalError ''internal server error'' cause"

definition IsCode :: "gerr \<Rightarrow> code \<Rightarrow> bool" where
  "IsCode err c \<longleftrightarrow> (case As err of Some e \<Rightarrow> biz_code e = Some c | None \<Rightarrow> False)"

fun HTTPStatus :: "gerr \<Rightarrow> int" where
  "HTTPStatus (Biz c _ _ _ _) = (case httpStatus c of Some s \<Rightarrow> s | None \<Rightarrow> 500)"
| "HTTPStatus _ = 500"

text \<open>The text of an error, as \<open>Error()\<close> builds it.\<close>

fun sentinel_string :: "sentinel \<Rightarrow> string" where
  "sentinel_string ContextCanceled = ''context canceled''"
| "sentinel_string ContextDeadlineExceeded = ''context deadline exceeded''"
| "sentinel_string ErrSegmentConflict = ''segment allocation conflict''"
| "sentinel_string ErrRecordNotFound = ''record not found''"
| "sentinel_string ErrPersistDuplicate = ''persist duplicate message''"
| "sentinel_string ErrDupConversation = ''duplicate direct conversation''"
| "sentinel_string ErrOpenState = ''circuit breaker is open''"
| "sentinel_string ErrTooManyRequests = ''too many requests''"
| "sentinel_string ErrNoWorkerSlot = ''no outbox worker slot available''"
| "sentinel_string ErrConnectionNotFound = ''connection not found''"
| "sentinel_string ErrQueueFull = ''write queue full''"
| "sentinel_string ErrClosed = ''connection closed''"
| "sentinel_string RedisNil = ''redis: nil''"
| "sentinel_string JwtTokenExpired = ''token is expired''"
| "sentinel_string ErrInvalidHash = ''invalid password hash format''"

fun Error :: "gerr \<Rightarrow> string" where
  "Error (Biz c m _ _ (Some k)) = code_string c @ '': '' @ m @ '': '' @ Error k"
| "Error (Biz c m _ _ None) = code_string c @ '': '' @ m"
| "Error (Sentinel s) = sentinel_string s"
| "Error (MySQLError n) = ''mysql error''"
| "Error (Wrapped m e) = m @ '': '' @ Error e"
| "Error (OtherError s) = s"

text \<open>The codes that \<open>IsTechnical\<close> lists as business outcomes.\<close>

definition business_codes :: "code list" where
  "business_codes =
     [InvalidArgument, AuthRequired, TokenExpired, UserNotFound, UsernameConflict,
      ConversationNotFound, ConversationForbidden, MessageNotFound, MessageDuplicate,
      MessageRateLimited, MessageTooLarge, RateLimited, ConnectionRateLimited]"

definition IsTechnical :: "gerr option \<Rightarrow> bool" where
  "IsTechnical err =
     (case err of
        None \<Rightarrow> False
      | Some e \<Rightarrow>
          if errors_Is e ContextCanceled \<or> errors_Is e ContextDeadlineExceeded then False
          else (case As e of
                  Some (Biz c _ _ _ _) \<Rightarrow> \<not> List.member business_codes c
                | _ \<Rightarrow> True))"

section \<open>Lemmas\<close>

lemma As_Biz: "As e = Some x \<Longrightarrow> \<exists>c m r a k. x = Biz c m r a k"
  by (induction e rule: As.induct) auto

lemma As_constructors [simp]:
  "As (New c m) = Some (New c m)"
  "As (Wrap c m k) = Some (Wrap c m k)"
  "As (Retryable c m n) = Some (Retryable c m n)"
  "As (Internal k) = Some (Internal k)"
  by (simp_all add: New_def Wrap_def Retryable_def Internal_def)

lemma biz_code_constructors [simp]:
  "biz_code (New c m) = Some c"
  "biz_code (Wrap c m k) = Some c"
  "biz_code (Retryable c m n) = Some c"
  "biz_code (Internal k) = Some InternalError"
  by (simp_all add: New_def Wrap_def Retryable_def Internal_def)

lemma errors_Is_constructors [simp]:
  "\<not> errors_Is (New c m) s"
  "\<not> errors_Is (Retryable c m n) s"
  "errors_Is (Wrap c m (Some e)) s = errors_Is e s"
  "\<not> errors_Is (Wrap c m None) s"
  "errors_Is (Internal (Some e)) s = errors_Is e s"
  "\<not> errors_Is (Internal None) s"
  by (simp_all add: New_def Wrap_def Retryable_def Internal_def)

lemma IsTechnical_None [simp]: "\<not> IsTechnical None"
  by (simp add: IsTechnical_def)

lemma IsTechnical_Internal:
  "IsTechnical (Some (Internal (Some e))) \<longleftrightarrow>
     \<not> errors_Is e ContextCanceled \<and> \<not> errors_Is e ContextDeadlineExceeded"
  by (simp add: IsTechnical_def Internal_def Wrap_def business_codes_def)

lemma IsTechnical_Biz:
  "IsTechnical (Some (Biz c m r a None)) \<longleftrightarrow> c \<notin> set business_codes"
  by (simp add: IsTechnical_def)

end
