(* ===== verification/Resilience.thy ===== *)
theory Resilience
  imports Errs Complex_Main
begin

text \<open>
  \<open>internal/resilience\<close>: the bulkhead (a bounded pool of slots, a buffered channel used as a
  semaphore, with a separate atomic counter for the metrics) and the circuit breaker, a thin
  layer over the third-party \<open>sony/gobreaker\<close>, whose \<open>Execute\<close> is a parameter of the model.
\<close>

section \<open>Circuit breaker\<close>

record breaker_config =
  bc_name :: string
  bc_interval :: int
  bc_min_requests :: nat
  bc_failure_ratio :: rat
  bc_open_timeout :: int
  bc_half_open_max :: nat

text \<open>
  The trip rule handed to gobreaker. The quotient of the two counters is a Go \<open>float64\<close>; with
  no request at all it is \<open>NaN\<close>, which is not \<open>\<ge>\<close> any ratio.
\<close>

definition ready_to_trip :: "breaker_config \<Rightarrow> nat \<Rightarrow> nat \<Rightarrow> bool" where
  "ready_to_trip c requests total_failures =
     (if requests < bc_min_requests c then False
      else if requests = 0 then False
      else bc_failure_ratio c \<le> rat_of_nat total_failures / rat_of_nat requests)"

text \<open>
  A protected call works on the state \<open>'w\<close> of the dependency and answers an error or nothing.
  gobreaker runs a call on its own state \<open>'s\<close> together with it.
\<close>

type_synonym 'w call = "'w \<Rightarrow> gerr option \<times> 'w"
type_synonym ('s, 'w) cb_execute = "'w call \<Rightarrow> 's \<times> 'w \<Rightarrow> gerr option \<times> ('s \<times> 'w)"

text \<open>
  What gobreaker documents: a call is either rejected at once, without running it, or it is run
  once and its result is returned.
\<close>

definition cb_contract :: "('s, 'w) cb_execute \<Rightarrow> bool" where
  "cb_contract cb \<longleftrightarrow>
     (\<forall>f s w. (\<exists>s'. cb f (s, w) = (fst (f w), (s', snd (f w))))
            \<or> (\<exists>s' x. x \<in> {ErrOpenState, ErrTooManyRequests}
                     \<and> cb f (s, w) = (Some (Sentinel x), (s', w))))"

text \<open>The closure that \<open>Execute\<close> hands to gobreaker: it hides non-technical errors.\<close>

definition breaker_closure :: "'w call \<Rightarrow> 'w call" where
  "breaker_closure fn w =
     (case fn w of (err, w') \<Rightarrow>
        if err \<noteq> None \<and> \<not> IsTechnical err then (None, w') else (err, w'))"

definition breaker_Execute ::
  "('s, 'w) cb_execute \<Rightarrow> 'w call \<Rightarrow> 's \<times> 'w \<Rightarrow> gerr option \<times> ('s \<times> 'w)" where
  "breaker_Execute cb fn sw =
     (case cb (breaker_closure fn) sw of
        (None, sw') \<Rightarrow> (None, sw')
      | (Some err, sw') \<Rightarrow>
          if err = Sentinel ErrOpenState
          then (Some (Retryable SystemBusy ''dependency unavailable (breaker open)'' 100), sw')
          else (Some err, sw'))"

text \<open>The registry of breakers by name; an unregistered name runs unprotected.\<close>

definition ExecuteByName ::
  "('s, 'w) cb_execute \<Rightarrow> string \<Rightarrow> 'w call \<Rightarrow> (string \<rightharpoonup> 's) \<times> 'w
     \<Rightarrow> gerr option \<times> ((string \<rightharpoonup> 's) \<times> 'w)" where
  "ExecuteByName cb name fn mw =
     (case mw of (m, w) \<Rightarrow>
        (case m name of
           None \<Rightarrow> (case fn w of (err, w') \<Rightarrow> (err, (m, w')))
         | Some s \<Rightarrow>
             (case breaker_Execute cb fn (s, w) of
                (err, (s', w')) \<Rightarrow> (err, (m(name \<mapsto> s'), w')))))"

lemma cb_contract_cases:
  assumes "cb_contract cb"
  obtains (ran) s' where "cb f (s, w) = (fst (f w), (s', snd (f w)))"
    | (rejected) s' x where "x \<in> {ErrOpenState, ErrTooManyRequests}"
        "cb f (s, w) = (Some (Sentinel x), (s', w))"
  using assms unfolding cb_contract_def by meson

text \<open>
  A concrete breaker that satisfies the contract: closed, it counts requests and failures and
  opens when the trip rule of the source says so; open, it rejects.
\<close>

record counting_breaker =
  cnt_open :: bool
  cnt_requests :: nat
  cnt_failures :: nat

definition counting_execute :: "breaker_config \<Rightarrow> (counting_breaker, 'w) cb_execute" where
  "counting_execute c f sw =
     (case sw of (s, w) \<Rightarrow>
        if cnt_open s then (Some (Sentinel ErrOpenState), (s, w))
        else (case f w of (err, w') \<Rightarrow>
                let r = Suc (cnt_requests s);
                    n = (if err = None then cnt_failures s else Suc (cnt_failures s))
                in (err, (\<lparr>cnt_open = ready_to_trip c r n, cnt_requests = r, cnt_failures = n\<rparr>,
                          w'))))"

lemma counting_execute_contract: "cb_contract (counting_execute c)"
  by (auto simp: cb_contract_def counting_execute_def Let_def split: prod.splits)

text \<open>
  The result of a protected call. \<open>run\<close> distinguishes a call that reached the dependency.
\<close>

lemma breaker_Execute_cases:
  assumes "cb_contract cb"
  shows "(\<exists>s'. breaker_Execute cb fn (s, w) =
            ((if IsTechnical (fst (fn w))
              then (if fst (fn w) = Some (Sentinel ErrOpenState)
                    then Some (Retryable SystemBusy ''dependency unavailable (breaker open)'' 100)
                    else fst (fn w))
              else None), (s', snd (fn w))))
       \<or> (\<exists>e s'. breaker_Execute cb fn (s, w) = (Some e, (s', w)))"
proof (rule cb_contract_cases [OF assms, of "breaker_closure fn" s w])
  fix s'
  assume ran: "cb (breaker_closure fn) (s, w)
    = (fst (breaker_closure fn w), (s', snd (breaker_closure fn w)))"
  obtain err w' where fn: "fn w = (err, w')" by (cases "fn w")
  show ?thesis
    by (cases err) (simp_all add: breaker_Execute_def ran breaker_closure_def fn)
next
  fix s' x
  assume x: "x \<in> {ErrOpenState, ErrTooManyRequests}"
    and rej: "cb (breaker_closure fn) (s, w) = (Some (Sentinel x), (s', w))"
  show ?thesis
    using x by (auto simp: breaker_Execute_def rej)
qed

section \<open>Bulkhead\<close>

record bulkhead =
  bh_limit :: nat
  bh_sem :: nat
  bh_active :: int
  bh_pending_add :: nat
  bh_pending_sub :: nat
  bh_waiting :: nat
  bh_holders :: nat
  bh_rejected :: nat

text \<open>
  \<open>bh_sem\<close> is the number of tokens in the channel. A slot is taken by the channel send and the
  counter is bumped afterwards by a separate atomic add, so an interleaving can see the two
  apart; \<open>bh_pending_add\<close> and \<open>bh_pending_sub\<close> are the goroutines between the two.
  \<open>bh_holders\<close> is the ghost count of callers that hold a slot (acquired, not yet released).
\<close>

definition NewBulkhead :: "int \<Rightarrow> bulkhead" where
  "NewBulkhead limit =
     \<lparr>bh_limit = (if limit \<le> 0 then 2 ^ 30 else nat limit), bh_sem = 0, bh_active = 0,
      bh_pending_add = 0, bh_pending_sub = 0, bh_waiting = 0, bh_holders = 0,
      bh_rejected = 0\<rparr>"

definition bulkhead_busy :: gerr where
  "bulkhead_busy = Retryable SystemBusy ''system busy, retry later'' 200"

text \<open>
  The steps of any number of goroutines in \<open>Acquire\<close> and \<open>Release\<close>: a send that succeeds at the
  first \<open>select\<close>; finding the channel full and entering the second \<open>select\<close>
  (\<open>bh_waiting\<close>); a send that succeeds there; a rejection there, when the context ended or the
  timer fired; the counter add after a send; a receive in \<open>Release\<close> by a caller that holds a
  slot; its counter update; and a \<open>Release\<close> on an empty channel, which does nothing.
\<close>

inductive bh_step :: "bulkhead \<Rightarrow> gerr option \<Rightarrow> bulkhead \<Rightarrow> bool" where
  acquire: "bh_sem b < bh_limit b \<Longrightarrow>
     bh_step b None (b\<lparr>bh_sem := Suc (bh_sem b), bh_pending_add := Suc (bh_pending_add b),
                       bh_holders := Suc (bh_holders b)\<rparr>)"
| full: "bh_sem b = bh_limit b \<Longrightarrow> bh_step b None (b\<lparr>bh_waiting := Suc (bh_waiting b)\<rparr>)"
| acquire_late: "bh_waiting b = Suc n \<Longrightarrow> bh_sem b < bh_limit b \<Longrightarrow>
     bh_step b None (b\<lparr>bh_sem := Suc (bh_sem b), bh_pending_add := Suc (bh_pending_add b),
                       bh_holders := Suc (bh_holders b), bh_waiting := n\<rparr>)"
| reject: "bh_waiting b = Suc n \<Longrightarrow>
     bh_step b (Some bulkhead_busy) (b\<lparr>bh_rejected := Suc (bh_rejected b), bh_waiting := n\<rparr>)"
| count_up: "bh_pending_add b = Suc n \<Longrightarrow>
     bh_step b None (b\<lparr>bh_active := bh_active b + 1, bh_pending_add := n\<rparr>)"
| release: "bh_sem b = Suc n \<Longrightarrow> bh_holders b = Suc h \<Longrightarrow>
     bh_step b None (b\<lparr>bh_sem := n, bh_pending_sub := Suc (bh_pending_sub b),
                       bh_holders := h\<rparr>)"
| count_down: "bh_pending_sub b = Suc n \<Longrightarrow>
     bh_step b None (b\<lparr>bh_active := bh_active b - 1, bh_pending_sub := n\<rparr>)"
| release_empty: "bh_sem b = 0 \<Longrightarrow> bh_step b None b"

inductive bh_reachable :: "int \<Rightarrow> bulkhead \<Rightarrow> bool" for limit :: int where
  start: "bh_reachable limit (NewBulkhead limit)"
| step: "bh_reachable limit b \<Longrightarrow> bh_step b r b' \<Longrightarrow> bh_reachable limit b'"

definition bh_inv :: "bulkhead \<Rightarrow> bool" where
  "bh_inv b \<longleftrightarrow> bh_sem b \<le> bh_limit b \<and> bh_holders b = bh_sem b
     \<and> bh_active b = int (bh_sem b) - int (bh_pending_add b) + int (bh_pending_sub b)"

lemma bh_step_inv: "bh_step b r b' \<Longrightarrow> bh_inv b \<Longrightarrow> bh_inv b'"
  by (induction rule: bh_step.induct) (auto simp: bh_inv_def)

lemma bh_step_limit: "bh_step b r b' \<Longrightarrow> bh_limit b' = bh_limit b"
  by (induction rule: bh_step.induct) auto

lemma bh_reachable_inv:
  "bh_reachable limit b \<Longrightarrow> bh_inv b \<and> bh_limit b = (if limit \<le> 0 then 2 ^ 30 else nat limit)"
proof (induction rule: bh_reachable.induct)
  case start
  then show ?case by (simp add: NewBulkhead_def bh_inv_def)
next
  case (step b r b')
  then show ?case using bh_step_inv bh_step_limit by metis
qed

text \<open>
  One caller alone with the bulkhead: no other goroutine can free a slot during its second
  \<open>select\<close>, so a full bulkhead ends in a rejection.
\<close>

definition bh_Acquire :: "bulkhead \<Rightarrow> gerr option \<times> bulkhead" where
  "bh_Acquire b =
     (if bh_sem b < bh_limit b
      then (None, b\<lparr>bh_sem := Suc (bh_sem b), bh_active := bh_active b + 1,
                    bh_holders := Suc (bh_holders b)\<rparr>)
      else (Some bulkhead_busy, b\<lparr>bh_rejected := Suc (bh_rejected b)\<rparr>))"

definition bh_Release :: "bulkhead \<Rightarrow> bulkhead" where
  "bh_Release b =
     (if 0 < bh_sem b
      then b\<lparr>bh_sem := bh_sem b - 1, bh_active := bh_active b - 1,
             bh_holders := bh_holders b - 1\<rparr>
      else b)"

section \<open>Properties\<close>

text \<open>
  C40: In every interleaving of any number of goroutines, the number of callers that hold a slot of
  a bulkhead never exceeds its limit, and when no goroutine is between a channel operation and
  its counter update the \<open>active\<close> gauge is exactly the number of holders.
\<close>

theorem bulkhead_bounds_holders:
  assumes "bh_reachable limit b" and "0 < limit"
  shows "int (bh_holders b) \<le> limit
    \<and> (bh_pending_add b = 0 \<and> bh_pending_sub b = 0 \<longrightarrow> bh_active b = int (bh_holders b))"
  using bh_reachable_inv [OF assms(1)] assms(2) by (auto simp: bh_inv_def)

lemma bulkhead_bounds_holders_witness:
  "\<exists>b. bh_reachable 1 b \<and> bh_holders b = 1 \<and> bh_waiting b = 1 \<and> int (bh_holders b) \<le> 1"
proof -
  have s1: "bh_reachable 1 ((NewBulkhead 1)\<lparr>bh_sem := 1, bh_pending_add := 1, bh_holders := 1\<rparr>)"
    using bh_reachable.step [OF bh_reachable.start bh_step.acquire, of 1] by (simp add: NewBulkhead_def)
  have s2: "bh_reachable 1 ((NewBulkhead 1)\<lparr>bh_sem := 1, bh_pending_add := 1, bh_holders := 1, bh_waiting := 1\<rparr>)"
    using bh_reachable.step [OF s1 bh_step.full] by (simp add: NewBulkhead_def)
  from bulkhead_bounds_holders [OF this] s2 show ?thesis by (auto intro!: exI)
qed

text \<open>
  A call protected by a breaker that fails with an error \<open>IsTechnical\<close> does not count - a
  business error, and also a context that was cancelled or whose deadline passed - is reported to
  the caller as a success, unless the breaker rejected the call without running it. The effect
  of the call on the dependency is kept either way.
\<close>

theorem breaker_hides_non_technical_errors:
  assumes "cb_contract cb" and "fn w = (Some e, w')" and "\<not> IsTechnical (Some e)"
  shows "(\<exists>s'. breaker_Execute cb fn (s, w) = (None, (s', w')))
       \<or> (\<exists>r s'. breaker_Execute cb fn (s, w) = (Some r, (s', w)))"
  using breaker_Execute_cases [OF assms(1), of fn s w] assms(2,3) by auto

lemma breaker_hides_non_technical_errors_witness:
  "\<exists>c. breaker_Execute (counting_execute c) (\<lambda>w. (Some (Sentinel ContextDeadlineExceeded), w + 1))
     (\<lparr>cnt_open = False, cnt_requests = 0, cnt_failures = 0\<rparr>, 5 :: nat)
     = (None, (\<lparr>cnt_open = False, cnt_requests = 1, cnt_failures = 0\<rparr>, 6))"
proof -
  let ?c = "\<lparr>bc_name = ''kafka:inbox_publish'', bc_interval = 60, bc_min_requests = 10,
             bc_failure_ratio = 1 / 2, bc_open_timeout = 30, bc_half_open_max = 3\<rparr>"
  let ?fn = "\<lambda>w :: nat. (Some (Sentinel ContextDeadlineExceeded), w + 1)"
  let ?s = "\<lparr>cnt_open = False, cnt_requests = 0, cnt_failures = 0\<rparr>"
  have "\<not> IsTechnical (Some (Sentinel ContextDeadlineExceeded))" by (simp add: IsTechnical_def)
  from breaker_hides_non_technical_errors [OF counting_execute_contract, where fn = ?fn and w = 5, OF _ this]
  have "(\<exists>s'. breaker_Execute (counting_execute ?c) ?fn (?s, 5) = (None, (s', 6)))
      \<or> (\<exists>r s'. breaker_Execute (counting_execute ?c) ?fn (?s, 5) = (Some r, (s', 5)))"
    by simp
  then show ?thesis
    by (intro exI [of _ ?c])
      (auto simp: breaker_Execute_def counting_execute_def breaker_closure_def IsTechnical_def
        ready_to_trip_def)
qed

end
