(* ===== verification/Idgen.thy ===== *)
theory Idgen
  imports Errs Complex_Main
begin

text \<open>
  \<open>internal/infrastructure/idgen/segment\<close> and the segment repository: identifiers are handed out
  from segments of consecutive numbers that are claimed in MySQL by a compare-and-swap on the
  row of a business tag. First the repository (one call, and any number of instances racing),
  then the double-buffered generator as the code of one goroutine, then its atomic steps under
  concurrency.
\<close>

section \<open>The segment table\<close>

record segment =
  seg_min :: int
  seg_max :: int
  seg_step :: int

record id_row =
  row_max_id :: int
  row_step :: int
  row_version :: int

type_synonym id_table = "string \<rightharpoonup> id_row"

text \<open>
  The two statements of \<open>Allocate\<close>: the read of the row, and the conditional update, which
  answers the number of affected rows.
\<close>

definition alloc_read :: "string \<Rightarrow> id_table \<Rightarrow> gerr + id_row" where
  "alloc_read tag t =
     (case t tag of
        None \<Rightarrow> Inl (New InternalError (''biz_tag not initialised: '' @ tag))
      | Some m \<Rightarrow> Inr m)"

definition alloc_update :: "string \<Rightarrow> int \<Rightarrow> int \<Rightarrow> int \<Rightarrow> id_table \<Rightarrow> nat \<times> id_table" where
  "alloc_update tag new_max old_max old_version t =
     (case t tag of
        Some m \<Rightarrow>
          if row_max_id m = old_max \<and> row_version m = old_version
          then (1, t(tag \<mapsto> m\<lparr>row_max_id := new_max, row_version := row_version m + 1\<rparr>))
          else (0, t)
      | None \<Rightarrow> (0, t))"

definition alloc_finish :: "string \<Rightarrow> id_row \<Rightarrow> id_table \<Rightarrow> (gerr + segment) \<times> id_table" where
  "alloc_finish tag m t =
     (let new_max = row_max_id m + row_step m in
      case alloc_update tag new_max (row_max_id m) (row_version m) t of
        (n, t') \<Rightarrow>
          if n = 0 then (Inl (Sentinel ErrSegmentConflict), t')
          else (Inr \<lparr>seg_min = row_max_id m + 1, seg_max = new_max, seg_step = row_step m\<rparr>, t'))"

text \<open>
  One \<open>Allocate\<close> that no other instance interrupts, against a database whose next faults are
  listed: the read and the update can each fail, and the update can be made although its answer
  is lost. A lost read has no effect either way.
\<close>

type_synonym id_db = "id_table \<times> gerr fault list"

definition Allocate :: "string \<Rightarrow> id_db \<Rightarrow> (gerr + segment) \<times> id_db" where
  "Allocate tag db =
     (case db of (t, fs) \<Rightarrow>
        (case pop_fault fs of (f1, fs1) \<Rightarrow>
           (case fault_error f1 of
              Some e \<Rightarrow> (Inl (Internal (Some e)), (t, fs1))
            | None \<Rightarrow>
                (case alloc_read tag t of
                   Inl e \<Rightarrow> (Inl e, (t, fs1))
                 | Inr m \<Rightarrow>
                     (case pop_fault fs1 of (f2, fs2) \<Rightarrow>
                        (case alloc_finish tag m t of (r, t') \<Rightarrow>
                           (case f2 of
                              Reply \<Rightarrow> (r, (t', fs2))
                            | Lost e \<Rightarrow> (Inl (Internal (Some e)), (t, fs2))
                            | AckLost e \<Rightarrow> (Inl (Internal (Some e)), (t', fs2))))))))) "

text \<open>The table constraint \<open>CHECK (step > 0)\<close> of migration 000005.\<close>

definition row_ok :: "id_row \<Rightarrow> bool" where
  "row_ok m \<longleftrightarrow> 0 < row_step m"

text \<open>The two properties of a row that the generators rely on, and the highest claimed number.\<close>

definition tag_ok :: "string \<Rightarrow> id_db \<Rightarrow> bool" where
  "tag_ok tag db \<longleftrightarrow> (case fst db tag of Some m \<Rightarrow> row_ok m | None \<Rightarrow> False)"

definition tag_high :: "string \<Rightarrow> id_db \<Rightarrow> int" where
  "tag_high tag db = (case fst db tag of Some m \<Rightarrow> row_max_id m | None \<Rightarrow> 0)"

lemma alloc_finish_same:
  "t tag = Some m \<Longrightarrow> alloc_finish tag m t =
    (Inr \<lparr>seg_min = row_max_id m + 1, seg_max = row_max_id m + row_step m, seg_step = row_step m\<rparr>,
     t(tag \<mapsto> m\<lparr>row_max_id := row_max_id m + row_step m, row_version := row_version m + 1\<rparr>))"
  by (simp add: alloc_finish_def alloc_update_def Let_def)

lemma Allocate_ok:
  assumes "t tag = Some m"
  shows "Allocate tag (t, []) =
    (Inr \<lparr>seg_min = row_max_id m + 1, seg_max = row_max_id m + row_step m, seg_step = row_step m\<rparr>,
     (t(tag \<mapsto> m\<lparr>row_max_id := row_max_id m + row_step m, row_version := row_version m + 1\<rparr>), []))"
  using assms by (simp add: Allocate_def alloc_read_def alloc_finish_same)

lemma Allocate_cases:
  assumes "Allocate tag (t, fs) = (r, (t', fs'))" and "t tag = Some m"
  shows "(t' = t \<and> (\<exists>e. r = Inl e))
    \<or> (t' = t(tag \<mapsto> m\<lparr>row_max_id := row_max_id m + row_step m, row_version := row_version m + 1\<rparr>)
       \<and> ((\<exists>e. r = Inl e)
          \<or> r = Inr \<lparr>seg_min = row_max_id m + 1, seg_max = row_max_id m + row_step m,
                      seg_step = row_step m\<rparr>))"
  using assms
  by (auto simp: Allocate_def alloc_read_def alloc_finish_same
      split: prod.splits option.splits fault.splits)

section \<open>Instances racing for segments\<close>

text \<open>
  Any number of instances (numbered by \<open>nat\<close>) run \<open>Allocate\<close> for one tag: an instance has read
  the row (\<open>al_read\<close>) and not yet updated it, and the segments obtained so far are listed with
  their owners, the latest first.
\<close>

record alloc_sys =
  al_table :: id_table
  al_read :: "nat \<rightharpoonup> id_row"
  al_got :: "(nat \<times> segment) list"

inductive alloc_step :: "string \<Rightarrow> alloc_sys \<Rightarrow> alloc_sys \<Rightarrow> bool" for tag :: string where
  read: "alloc_read tag (al_table s) = Inr m \<Longrightarrow>
     alloc_step tag s (s\<lparr>al_read := (al_read s)(i \<mapsto> m)\<rparr>)"
| claim: "al_read s i = Some m \<Longrightarrow> alloc_finish tag m (al_table s) = (Inr g, t') \<Longrightarrow>
     alloc_step tag s (s\<lparr>al_table := t', al_read := (al_read s)(i := None),
                        al_got := (i, g) # al_got s\<rparr>)"
| conflict: "al_read s i = Some m \<Longrightarrow> alloc_finish tag m (al_table s) = (Inl e, t') \<Longrightarrow>
     alloc_step tag s (s\<lparr>al_table := t', al_read := (al_read s)(i := None)\<rparr>)"
| lose_claim: "al_read s i = Some m \<Longrightarrow> alloc_finish tag m (al_table s) = (Inr g, t') \<Longrightarrow>
     alloc_step tag s (s\<lparr>al_table := t', al_read := (al_read s)(i := None)\<rparr>)"

text \<open>
  \<open>lose_claim\<close> is an update that MySQL made and whose answer the instance never saw: the segment
  becomes a gap.
\<close>

inductive alloc_reachable :: "string \<Rightarrow> id_row \<Rightarrow> alloc_sys \<Rightarrow> bool"
  for tag :: string and m0 :: id_row where
  start: "alloc_reachable tag m0
            \<lparr>al_table = Map.empty(tag \<mapsto> m0), al_read = Map.empty, al_got = []\<rparr>"
| step: "alloc_reachable tag m0 s \<Longrightarrow> alloc_step tag s s' \<Longrightarrow> alloc_reachable tag m0 s'"

definition segs_below :: "int \<Rightarrow> (nat \<times> segment) list \<Rightarrow> bool" where
  "segs_below b gs \<longleftrightarrow>
     (\<forall>p \<in> set gs. seg_min (snd p) \<le> seg_max (snd p) \<and> seg_max (snd p) \<le> b)
     \<and> sorted_wrt (\<lambda>p q. seg_max (snd q) < seg_min (snd p)) gs"

definition alloc_inv :: "string \<Rightarrow> int \<Rightarrow> alloc_sys \<Rightarrow> bool" where
  "alloc_inv tag st s \<longleftrightarrow>
     (\<exists>m. al_table s tag = Some m \<and> row_step m = st \<and> segs_below (row_max_id m) (al_got s))
     \<and> (\<forall>i m. al_read s i = Some m \<longrightarrow> row_step m = st)"

lemma segs_below_mono: "segs_below b gs \<Longrightarrow> b \<le> b' \<Longrightarrow> segs_below b' gs"
  by (force simp: segs_below_def)

lemma segs_below_Cons:
  "segs_below b gs \<Longrightarrow> b < seg_min g \<Longrightarrow> seg_min g \<le> seg_max g \<Longrightarrow> seg_max g \<le> b' \<Longrightarrow>
   segs_below b' ((i, g) # gs)"
  by (force simp: segs_below_def)

lemma alloc_finish_cases:
  assumes "alloc_finish tag m t = (r, t')" and "t tag = Some c" and "row_step m = row_step c"
  shows "r = Inr \<lparr>seg_min = row_max_id c + 1, seg_max = row_max_id c + row_step c,
                   seg_step = row_step c\<rparr>
          \<and> t' = t(tag \<mapsto> c\<lparr>row_max_id := row_max_id c + row_step c,
                            row_version := row_version c + 1\<rparr>)
       \<or> r = Inl (Sentinel ErrSegmentConflict) \<and> t' = t"
  using assms
  by (auto simp: alloc_finish_def alloc_update_def Let_def split: if_splits)

lemma alloc_step_inv:
  assumes "alloc_step tag s s'" and "alloc_inv tag st s" and "0 < st"
  shows "alloc_inv tag st s'"
proof -
  from assms(2) obtain c where c: "al_table s tag = Some c" "row_step c = st"
    and below: "segs_below (row_max_id c) (al_got s)"
    and rd: "\<And>i m. al_read s i = Some m \<Longrightarrow> row_step m = st"
    by (auto simp: alloc_inv_def)
  with assms(3) have pos: "0 < row_step c" by simp
  from assms(1) show ?thesis
  proof cases
    case (read m i)
    with c below rd show ?thesis by (auto simp: alloc_inv_def alloc_read_def)
  next
    case (claim i m g t')
    from alloc_finish_cases [OF claim(3) c(1)] rd [OF claim(2)] c(2)
    have g: "g = \<lparr>seg_min = row_max_id c + 1, seg_max = row_max_id c + row_step c,
                   seg_step = row_step c\<rparr>"
      and t': "t' = (al_table s)(tag \<mapsto> c\<lparr>row_max_id := row_max_id c + row_step c,
                            row_version := row_version c + 1\<rparr>)"
      by auto
    have "segs_below (row_max_id c + row_step c) ((i, g) # al_got s)"
      by (rule segs_below_Cons [OF below]) (use pos in \<open>simp_all add: g\<close>)
    with c rd show ?thesis by (auto simp: alloc_inv_def claim(1) t')
  next
    case (conflict i m e t')
    from alloc_finish_cases [OF conflict(3) c(1)] rd [OF conflict(2)] c(2)
    have "t' = al_table s" by auto
    with c below rd show ?thesis by (auto simp: alloc_inv_def conflict(1))
  next
    case (lose_claim i m g t')
    from alloc_finish_cases [OF lose_claim(3) c(1)] rd [OF lose_claim(2)] c(2)
    have t': "t' = (al_table s)(tag \<mapsto> c\<lparr>row_max_id := row_max_id c + row_step c,
                            row_version := row_version c + 1\<rparr>)"
      by auto
    have "segs_below (row_max_id c + row_step c) (al_got s)"
      by (rule segs_below_mono [OF below]) (use pos in simp)
    with c rd show ?thesis by (auto simp: alloc_inv_def lose_claim(1) t')
  qed
qed

lemma alloc_reachable_inv:
  "alloc_reachable tag m0 s \<Longrightarrow> row_ok m0 \<Longrightarrow> alloc_inv tag (row_step m0) s"
proof (induction rule: alloc_reachable.induct)
  case start
  then show ?case by (simp add: alloc_inv_def segs_below_def)
next
  case (step s s')
  then show ?case using alloc_step_inv by (auto simp: row_ok_def)
qed

lemma segs_below_disjoint:
  assumes "segs_below b gs" and "j < length gs" and "i < j"
  shows "seg_max (snd (gs ! j)) < seg_min (snd (gs ! i))"
  using assms by (auto simp: segs_below_def sorted_wrt_iff_nth_less)

section \<open>The double buffer\<close>

record gen_opts =
  prefetch_ratio :: rat
  wait_polls :: nat
  max_retries :: int

text \<open>
  \<open>wait_polls\<close> is the number of 2 ms polls that fit into \<open>nextWaitTimeout\<close>. The defaults of
  \<open>NewGenerator\<close>: ratio 0.70, 50 ms, 10 retries.
\<close>

definition default_gen_opts :: gen_opts where
  "default_gen_opts = \<lparr>prefetch_ratio = 7 / 10, wait_polls = 25, max_retries = 10\<rparr>"

record buffer =
  buf_min :: int
  buf_max :: int
  buf_cursor :: int
  buf_loading :: bool
  buf_next_ready :: bool
  buf_next_min :: int
  buf_next_max :: int

definition empty_buffer :: buffer where
  "empty_buffer = \<lparr>buf_min = 0, buf_max = 0, buf_cursor = 0, buf_loading = False,
     buf_next_ready = False, buf_next_min = 0, buf_next_max = 0\<rparr>"

definition swapToNext :: "buffer \<Rightarrow> buffer" where
  "swapToNext b = b\<lparr>buf_min := buf_next_min b, buf_max := buf_next_max b,
                     buf_cursor := buf_next_min b, buf_next_ready := False\<rparr>"

text \<open>
  \<open>loadNext\<close>: at most \<open>maxRetries + 1\<close> attempts, a retry only after a conflict and only while
  the context lives (\<open>ctx attempt\<close> is the error of a context that ended during the backoff of
  that attempt). The repository \<open>alloc\<close> works on a state \<open>'r\<close>.
\<close>

type_synonym 'r seg_repo = "'r \<Rightarrow> (gerr + segment) \<times> 'r"

primrec load_attempts ::
  "nat \<Rightarrow> nat \<Rightarrow> gerr option \<Rightarrow> 'r seg_repo \<Rightarrow> (nat \<Rightarrow> gerr option) \<Rightarrow> buffer \<times> 'r
     \<Rightarrow> (gerr + segment) \<times> (buffer \<times> 'r)" where
  "load_attempts 0 attempt lastErr alloc ctx st =
     (Inl (Wrap IDGeneratorUnavailable ''too many segment conflicts'' lastErr), st)"
| "load_attempts (Suc n) attempt lastErr alloc ctx st =
     (case alloc (snd st) of
        (Inr seg, r') \<Rightarrow>
          (Inr seg, ((fst st)\<lparr>buf_next_min := seg_min seg, buf_next_max := seg_max seg,
                              buf_next_ready := True\<rparr>, r'))
      | (Inl err, r') \<Rightarrow>
          if \<not> errors_Is err ErrSegmentConflict
          then (Inl (Wrap IDGeneratorUnavailable ''segment allocation failed'' (Some err)),
                (fst st, r'))
          else (case ctx attempt of
                  Some c \<Rightarrow> (Inl (Wrap IDGeneratorUnavailable ''segment allocation timed out''
                                   (Some c)), (fst st, r'))
                | None \<Rightarrow> load_attempts n (Suc attempt) (Some err) alloc ctx (fst st, r')))"

definition loadNext ::
  "gen_opts \<Rightarrow> 'r seg_repo \<Rightarrow> (nat \<Rightarrow> gerr option) \<Rightarrow> buffer \<times> 'r
     \<Rightarrow> (gerr + segment) \<times> (buffer \<times> 'r)" where
  "loadNext opts alloc ctx st = load_attempts (nat (max_retries opts + 1)) 0 None alloc ctx st"

definition NewGenerator ::
  "gen_opts \<Rightarrow> 'r seg_repo \<Rightarrow> (nat \<Rightarrow> gerr option) \<Rightarrow> 'r \<Rightarrow> (gerr + buffer) \<times> 'r" where
  "NewGenerator opts alloc ctx r =
     (case loadNext opts alloc ctx (empty_buffer, r) of
        (Inl e, (b, r')) \<Rightarrow> (Inl e, r')
      | (Inr seg, (b, r')) \<Rightarrow> (Inr (swapToNext b), r'))"

text \<open>
  The background loader, here in the schedule in which the goroutine runs as soon as it is
  started: \<open>loading\<close> is set, the segment is loaded, \<open>loading\<close> is reset whatever the outcome. Its
  context is its own (\<open>context.Background\<close> with a timeout).
\<close>

definition loadNextBackground ::
  "gen_opts \<Rightarrow> 'r seg_repo \<Rightarrow> (nat \<Rightarrow> gerr option) \<Rightarrow> buffer \<times> 'r \<Rightarrow> buffer \<times> 'r" where
  "loadNextBackground opts alloc bg st =
     (case loadNext opts alloc bg ((fst st)\<lparr>buf_loading := True\<rparr>, snd st) of
        (_, (b, r')) \<Rightarrow> (b\<lparr>buf_loading := False\<rparr>, r'))"

definition wants_prefetch :: "gen_opts \<Rightarrow> buffer \<Rightarrow> bool" where
  "wants_prefetch opts b =
     (if buf_loading b \<or> buf_next_ready b then False
      else let total = buf_max b - buf_min b + 1; used = buf_cursor b - buf_min b in
           if total \<le> 0 then False
           else prefetch_ratio opts \<le> rat_of_int used / rat_of_int total)"

definition tryNext ::
  "gen_opts \<Rightarrow> 'r seg_repo \<Rightarrow> (nat \<Rightarrow> gerr option) \<Rightarrow> buffer \<times> 'r \<Rightarrow> int option \<times> (buffer \<times> 'r)"
where
  "tryNext opts alloc bg st =
     (case st of (b, r) \<Rightarrow>
        if buf_cursor b \<le> buf_max b
        then let b' = b\<lparr>buf_cursor := buf_cursor b + 1\<rparr> in
             (Some (buf_cursor b),
              if wants_prefetch opts b' then loadNextBackground opts alloc bg (b', r) else (b', r))
        else (None, (b, r)))"

text \<open>
  \<open>switchSegment\<close> with the number of polls left before the deadline; \<open>ctx\<close> as above, indexed by
  the poll.
\<close>

primrec switchSegment ::
  "nat \<Rightarrow> gen_opts \<Rightarrow> 'r seg_repo \<Rightarrow> (nat \<Rightarrow> gerr option) \<Rightarrow> (nat \<Rightarrow> gerr option) \<Rightarrow> buffer \<times> 'r
     \<Rightarrow> (gerr + unit) \<times> (buffer \<times> 'r)" where
  "switchSegment 0 opts alloc bg ctx st =
     (if buf_cursor (fst st) \<le> buf_max (fst st) then (Inr (), st)
      else if buf_next_ready (fst st) then (Inr (), (swapToNext (fst st), snd st))
      else (Inl (Retryable IDGeneratorUnavailable ''no stock and no new segment'' 100),
            if \<not> buf_loading (fst st) then loadNextBackground opts alloc bg st else st))"
| "switchSegment (Suc n) opts alloc bg ctx st =
     (if buf_cursor (fst st) \<le> buf_max (fst st) then (Inr (), st)
      else if buf_next_ready (fst st) then (Inr (), (swapToNext (fst st), snd st))
      else (let st' = (if \<not> buf_loading (fst st) then loadNextBackground opts alloc bg st else st)
            in case ctx n of
                 Some c \<Rightarrow> (Inl (Wrap IDGeneratorUnavailable ''segment wait cancelled'' (Some c)), st')
               | None \<Rightarrow> switchSegment n opts alloc bg ctx st'))"

text \<open>\<open>Next\<close> loops until it has an identifier or an error; \<open>None\<close> would be a loop without end.\<close>

partial_function (option) gen_Next ::
  "gen_opts \<Rightarrow> 'r seg_repo \<Rightarrow> (nat \<Rightarrow> gerr option) \<Rightarrow> (nat \<Rightarrow> gerr option) \<Rightarrow> buffer \<times> 'r
     \<Rightarrow> ((gerr + int) \<times> (buffer \<times> 'r)) option" where
  "gen_Next opts alloc bg ctx st =
     (case tryNext opts alloc bg st of
        (Some i, st') \<Rightarrow> Some (Inr i, st')
      | (None, st') \<Rightarrow>
          (case switchSegment (wait_polls opts) opts alloc bg ctx st' of
             (Inl e, st'') \<Rightarrow> Some (Inl e, st'')
           | (Inr u, st'') \<Rightarrow> gen_Next opts alloc bg ctx st''))"

declare gen_Next.simps [code]

record gen_state =
  st_min :: int
  st_max :: int
  st_remaining :: int
  st_next_ready :: bool
  st_loading :: bool

definition gen_State :: "buffer \<Rightarrow> gen_state" where
  "gen_State b =
     \<lparr>st_min = buf_min b, st_max = buf_max b,
      st_remaining = max 0 (buf_max b - buf_cursor b + 1),
      st_next_ready = buf_next_ready b, st_loading = buf_loading b\<rparr>"

section \<open>What the generator needs of its source of segments\<close>

text \<open>
  \<open>stock b\<close>: the identifiers a buffer may still issue without asking the source. \<open>buf_inv h b\<close>:
  the buffer is consistent with a source that has claimed numbers up to \<open>h\<close>. \<open>evolves\<close> is the
  change that every operation of the generator makes: the source only grows, what is gained in
  stock is freshly claimed, the cursor never goes back.
\<close>

definition stock :: "buffer \<Rightarrow> int set" where
  "stock b = {buf_cursor b..buf_max b}
     \<union> (if buf_next_ready b then {buf_next_min b..buf_next_max b} else {})"

definition buf_inv :: "int \<Rightarrow> buffer \<Rightarrow> bool" where
  "buf_inv h b \<longleftrightarrow> buf_cursor b \<le> h + 1 \<and> buf_max b \<le> h
     \<and> (buf_next_ready b \<longrightarrow> buf_next_min b \<le> buf_next_max b \<and> buf_next_max b \<le> h
          \<and> buf_max b < buf_next_min b \<and> buf_cursor b \<le> buf_next_min b)"

definition evolves :: "int \<Rightarrow> buffer \<Rightarrow> int \<Rightarrow> buffer \<Rightarrow> bool" where
  "evolves h b h' b' \<longleftrightarrow> h \<le> h' \<and> buf_inv h' b' \<and> stock b' \<subseteq> stock b \<union> {h<..h'}
     \<and> buf_cursor b \<le> buf_cursor b'"

lemma evolves_refl: "buf_inv h b \<Longrightarrow> evolves h b h b"
  by (simp add: evolves_def)

lemma evolves_trans: "evolves h b h' b' \<Longrightarrow> evolves h' b' h'' b'' \<Longrightarrow> evolves h b h'' b''"
  by (force simp: evolves_def)

lemma evolves_loading [simp]:
  "evolves h b h' (b'\<lparr>buf_loading := l\<rparr>) = evolves h b h' b'"
  "evolves h (b\<lparr>buf_loading := l\<rparr>) h' b' = evolves h b h' b'"
  "buf_inv h (b\<lparr>buf_loading := l\<rparr>) = buf_inv h b"
  by (simp_all add: evolves_def buf_inv_def stock_def)

lemma buf_inv_mono: "buf_inv h b \<Longrightarrow> h \<le> h' \<Longrightarrow> buf_inv h' b"
  by (auto simp: buf_inv_def)

lemma evolves_source: "buf_inv h b \<Longrightarrow> h \<le> h' \<Longrightarrow> evolves h b h' b"
  by (auto simp: evolves_def dest: buf_inv_mono)

lemma evolves_load:
  assumes "buf_inv h b" and "\<not> buf_next_ready b" and "h < lo" and "lo \<le> up" and "up \<le> h'"
  shows "evolves h b h' (b\<lparr>buf_next_min := lo, buf_next_max := up, buf_next_ready := True\<rparr>)"
  using assms by (auto simp: evolves_def buf_inv_def stock_def)

lemma evolves_swap:
  assumes "buf_inv h b" and "buf_next_ready b"
  shows "evolves h b h (swapToNext b)" and "buf_cursor (swapToNext b) \<le> buf_max (swapToNext b)"
  using assms by (auto simp: evolves_def buf_inv_def stock_def swapToNext_def)

locale segment_source =
  fixes alloc :: "'r seg_repo" and high :: "'r \<Rightarrow> int" and okay :: "'r \<Rightarrow> bool"
  assumes alloc_okay: "okay r \<Longrightarrow> alloc r = (x, r') \<Longrightarrow> okay r' \<and> high r \<le> high r'"
    and alloc_fresh: "okay r \<Longrightarrow> alloc r = (Inr g, r') \<Longrightarrow>
      high r < seg_min g \<and> seg_min g \<le> seg_max g \<and> seg_max g \<le> high r'"
begin

lemma load_attempts_evolves:
  "load_attempts n k le alloc ctx (b, r) = (x, (b', r')) \<Longrightarrow> okay r \<Longrightarrow> buf_inv (high r) b \<Longrightarrow>
   \<not> buf_next_ready b \<Longrightarrow>
   okay r' \<and> evolves (high r) b (high r') b' \<and> buf_cursor b' = buf_cursor b
     \<and> buf_max b' = buf_max b \<and> (is_ok x \<longleftrightarrow> buf_next_ready b')"
proof (induction n arbitrary: k le r)
  case 0
  then show ?case by (auto simp: evolves_refl)
next
  case (Suc n)
  obtain y r1 where a: "alloc r = (y, r1)" by (cases "alloc r")
  with Suc.prems(2) have r1: "okay r1" "high r \<le> high r1" using alloc_okay by auto
  show ?case
  proof (cases y)
    case (Inr g)
    with Suc.prems a alloc_fresh [of r g r1] r1 show ?thesis
      by (auto intro!: evolves_load)
  next
    case (Inl e)
    note y = this
    have inv1: "buf_inv (high r1) b" using Suc.prems(3) r1(2) by (rule buf_inv_mono)
    have ev1: "evolves (high r) b (high r1) b" using Suc.prems(3) r1(2) by (rule evolves_source)
    show ?thesis
    proof (cases "errors_Is e ErrSegmentConflict \<and> ctx k = None")
      case True
      with Suc.prems(1) a y have "load_attempts n (Suc k) (Some e) alloc ctx (b, r1) = (x, (b', r'))"
        by simp
      from Suc.IH [OF this r1(1) inv1 Suc.prems(4)] show ?thesis
        using ev1 evolves_trans by blast
    next
      case False
      with Suc.prems(1) a y have "b' = b" "r' = r1" "\<not> is_ok x"
        by (auto split: if_splits option.splits)
      with r1 ev1 Suc.prems(4) show ?thesis by simp
    qed
  qed
qed

lemma loadNextBackground_evolves:
  assumes "loadNextBackground opts alloc bg (b, r) = (b', r')" and "okay r"
    and "buf_inv (high r) b" and "\<not> buf_next_ready b"
  shows "okay r' \<and> evolves (high r) b (high r') b' \<and> buf_cursor b' = buf_cursor b
           \<and> buf_max b' = buf_max b"
proof -
  obtain x b1 r1 where l: "loadNext opts alloc bg (b\<lparr>buf_loading := True\<rparr>, r) = (x, (b1, r1))"
    by (metis prod.collapse)
  from load_attempts_evolves [OF l [unfolded loadNext_def]] assms(2-4)
  have "okay r1 \<and> evolves (high r) b (high r1) b1 \<and> buf_cursor b1 = buf_cursor b
           \<and> buf_max b1 = buf_max b"
    by simp
  moreover from assms(1) l have "b' = b1\<lparr>buf_loading := False\<rparr>" "r' = r1"
    by (auto simp: loadNextBackground_def)
  ultimately show ?thesis by simp
qed

lemma reload_evolves:
  assumes "(if l then loadNextBackground opts alloc bg (b, r) else (b, r)) = (b', r')"
    and "okay r" and "buf_inv (high r) b" and "\<not> buf_next_ready b"
  shows "okay r' \<and> evolves (high r) b (high r') b' \<and> buf_cursor b' = buf_cursor b
           \<and> buf_max b' = buf_max b"
  using assms loadNextBackground_evolves [of opts bg b r b' r']
  by (cases l) (auto simp: evolves_refl)

lemma tryNext_evolves:
  assumes "tryNext opts alloc bg (b, r) = (i, (b', r'))" and "okay r" and "buf_inv (high r) b"
  shows "okay r' \<and> evolves (high r) b (high r') b'
           \<and> (case i of
                Some n \<Rightarrow> n = buf_cursor b \<and> n \<in> stock b \<and> n < buf_cursor b' \<and> n \<notin> stock b'
              | None \<Rightarrow> buf_max b < buf_cursor b \<and> b' = b \<and> r' = r)"
proof (cases "buf_cursor b \<le> buf_max b")
  case False
  with assms show ?thesis by (auto simp: tryNext_def evolves_refl)
next
  case True
  define b1 where "b1 = b\<lparr>buf_cursor := buf_cursor b + 1\<rparr>"
  have ev: "evolves (high r) b (high r) b1"
    using assms(3) True by (auto simp: evolves_def buf_inv_def stock_def b1_def)
  then have inv1: "buf_inv (high r) b1" by (simp add: evolves_def)
  have notin: "buf_cursor b \<notin> stock b1" "buf_cursor b \<le> high r"
    using assms(3) True by (auto simp: stock_def b1_def buf_inv_def)
  from assms(1) True have i: "i = Some (buf_cursor b)"
    and st: "(b', r') = (if wants_prefetch opts b1 then loadNextBackground opts alloc bg (b1, r)
                         else (b1, r))"
    by (auto simp: tryNext_def b1_def Let_def)
  have "okay r' \<and> evolves (high r) b1 (high r') b' \<and> buf_cursor b' = buf_cursor b1"
  proof (cases "wants_prefetch opts b1")
    case True
    then have "\<not> buf_next_ready b1" by (auto simp: wants_prefetch_def split: if_splits)
    with reload_evolves [OF st [symmetric] assms(2) inv1] show ?thesis by blast
  next
    case False
    with st assms(2) inv1 show ?thesis by (simp add: evolves_refl)
  qed
  moreover have "buf_cursor b \<in> stock b" using True by (simp add: stock_def)
  ultimately show ?thesis
    using i ev notin evolves_trans [OF ev]
    by (auto simp: evolves_def b1_def)
qed

lemma switchSegment_evolves:
  "switchSegment n opts alloc bg ctx (b, r) = (x, (b', r')) \<Longrightarrow> okay r \<Longrightarrow> buf_inv (high r) b \<Longrightarrow>
   okay r' \<and> evolves (high r) b (high r') b' \<and> (is_ok x \<longrightarrow> buf_cursor b' \<le> buf_max b')"
proof (induction n arbitrary: b r)
  case 0
  show ?case
  proof (cases "buf_cursor b \<le> buf_max b \<or> buf_next_ready b")
    case True
    with 0 evolves_swap [OF 0(3)] show ?thesis by (auto simp: evolves_refl split: if_splits)
  next
    case False
    with 0(1) have x: "\<not> is_ok x"
      and st: "(b', r') = (if \<not> buf_loading b then loadNextBackground opts alloc bg (b, r) else (b, r))"
      by (auto split: if_splits)
    show ?thesis
      using x False reload_evolves [OF st [symmetric] 0(2,3)] by auto
  qed
next
  case (Suc n)
  show ?case
  proof (cases "buf_cursor b \<le> buf_max b \<or> buf_next_ready b")
    case True
    with Suc.prems evolves_swap [OF Suc.prems(3)] show ?thesis
      by (auto simp: evolves_refl split: if_splits)
  next
    case False
    obtain b1 r1 where st: "(if \<not> buf_loading b then loadNextBackground opts alloc bg (b, r) else (b, r))
        = (b1, r1)" by (metis prod.collapse)
    have ev: "okay r1 \<and> evolves (high r) b (high r1) b1"
      using False reload_evolves [OF st Suc.prems(2,3)] by auto
    show ?thesis
    proof (cases "ctx n")
      case None
      with Suc.prems(1) st False have "switchSegment n opts alloc bg ctx (b1, r1) = (x, (b', r'))"
        by (simp add: Let_def)
      moreover from ev have "okay r1" "buf_inv (high r1) b1" by (simp_all add: evolves_def)
      ultimately have "okay r' \<and> evolves (high r1) b1 (high r') b'
          \<and> (is_ok x \<longrightarrow> buf_cursor b' \<le> buf_max b')"
        by (rule Suc.IH)
      with ev evolves_trans show ?thesis by blast
    next
      case (Some c)
      with Suc.prems(1) st False have "b' = b1" "r' = r1" "\<not> is_ok x"
        by (auto simp: Let_def)
      with ev show ?thesis by simp
    qed
  qed
qed

lemma gen_Next_stocked:
  assumes "buf_cursor b \<le> buf_max b"
  shows "\<exists>st. gen_Next opts alloc bg ctx (b, r) = Some (Inr (buf_cursor b), st)
           \<and> tryNext opts alloc bg (b, r) = (Some (buf_cursor b), st)"
  using assms by (subst gen_Next.simps) (simp add: tryNext_def Let_def)

lemma gen_Next_total:
  assumes "okay r" and "buf_inv (high r) b"
  shows "\<exists>x st. gen_Next opts alloc bg ctx (b, r) = Some (x, st)"
proof (cases "buf_cursor b \<le> buf_max b")
  case True
  then show ?thesis using gen_Next_stocked by meson
next
  case False
  obtain x b' r' where sw: "switchSegment (wait_polls opts) opts alloc bg ctx (b, r) = (x, (b', r'))"
    by (metis prod.collapse)
  from switchSegment_evolves [OF this assms]
  show ?thesis using gen_Next_stocked [of b' opts bg ctx r'] False sw
    by (subst gen_Next.simps) (auto simp: tryNext_def split: sum.splits)
qed

lemma gen_Next_evolves:
  assumes "gen_Next opts alloc bg ctx (b, r) = Some (x, (b', r'))"
    and "okay r" and "buf_inv (high r) b"
  shows "okay r' \<and> evolves (high r) b (high r') b'
           \<and> (case x of
                Inr n \<Rightarrow> buf_cursor b \<le> n \<and> n < buf_cursor b' \<and> n \<in> stock b \<union> {high r<..high r'}
                          \<and> n \<notin> stock b'
              | Inl e \<Rightarrow> True)"
proof (cases "buf_cursor b \<le> buf_max b")
  case True
  with assms(1) gen_Next_stocked [OF True, of opts bg ctx r]
  have x: "x = Inr (buf_cursor b)" and t: "tryNext opts alloc bg (b, r) = (Some (buf_cursor b), (b', r'))"
    by auto
  from tryNext_evolves [OF t assms(2,3)] show ?thesis by (simp add: x)
next
  case False
  obtain y b1 r1 where sw: "switchSegment (wait_polls opts) opts alloc bg ctx (b, r) = (y, (b1, r1))"
    by (metis prod.collapse)
  from switchSegment_evolves [OF this assms(2,3)]
  have ev: "okay r1" "evolves (high r) b (high r1) b1" "is_ok y \<longrightarrow> buf_cursor b1 \<le> buf_max b1"
    by auto
  then have inv1: "buf_inv (high r1) b1" by (simp add: evolves_def)
  show ?thesis
  proof (cases y)
    case (Inl e)
    with assms(1) sw False ev show ?thesis
      by (subst (asm) gen_Next.simps) (auto simp: tryNext_def)
  next
    case (Inr u)
    with ev(3) have le: "buf_cursor b1 \<le> buf_max b1" by simp
    from assms(1) sw False Inr have "gen_Next opts alloc bg ctx (b1, r1) = Some (x, (b', r'))"
      by (subst (asm) gen_Next.simps) (simp add: tryNext_def)
    with gen_Next_stocked [OF le, of opts bg ctx r1]
    have x: "x = Inr (buf_cursor b1)"
      and t: "tryNext opts alloc bg (b1, r1) = (Some (buf_cursor b1), (b', r'))"
      by auto
    from tryNext_evolves [OF t ev(1) inv1] ev(2) evolves_trans [OF ev(2)] show ?thesis
      by (auto simp: x evolves_def)
  qed
qed

lemma NewGenerator_evolves:
  assumes "NewGenerator opts alloc ctx r = (Inr b, r')" and "okay r"
  shows "okay r' \<and> high r \<le> high r' \<and> buf_inv (high r') b \<and> stock b \<subseteq> {high r<..high r'}"
proof -
  define b0 where "b0 = empty_buffer\<lparr>buf_cursor := high r + 1, buf_max := high r\<rparr>"
  have key: "load_attempts n k le alloc ctx (b0, r) = (x, (b1, r1)) \<Longrightarrow>
      load_attempts n k le alloc ctx (empty_buffer, r) =
        (x, (b1\<lparr>buf_cursor := 0, buf_max := 0\<rparr>, r1))" for n k le x b1 r1 r
    by (induction n arbitrary: k le r)
      (auto simp: b0_def empty_buffer_def split: prod.splits sum.splits if_splits option.splits)
  obtain x b1 r1 where l: "load_attempts (nat (max_retries opts + 1)) 0 None alloc ctx (b0, r)
      = (x, (b1, r1))" by (metis prod.collapse)
  from key [OF l] assms(1) have x: "is_ok x" and b: "b = swapToNext b1" and r': "r' = r1"
    by (auto simp: NewGenerator_def loadNext_def swapToNext_def split: sum.splits)
  have inv0: "buf_inv (high r) b0" "\<not> buf_next_ready b0" "stock b0 = {}"
    by (simp_all add: b0_def buf_inv_def empty_buffer_def stock_def)
  from load_attempts_evolves [OF l assms(2) inv0(1,2)] x
  have *: "okay r1" "evolves (high r) b0 (high r1) b1" "buf_next_ready b1" by auto
  then have "evolves (high r) b0 (high r1) (swapToNext b1)"
    using evolves_swap(1) evolves_trans by (metis evolves_def)
  with * inv0(3) show ?thesis by (auto simp: b r' evolves_def)
qed

lemma load_attempts_source:
  "load_attempts n k le alloc ctx (b, r) = (x, (b', r')) \<Longrightarrow> okay r \<Longrightarrow> okay r' \<and> high r \<le> high r'"
proof (induction n arbitrary: k le r)
  case (Suc n)
  obtain y r1 where a: "alloc r = (y, r1)" by (cases "alloc r")
  with Suc.prems(2) have r1: "okay r1" "high r \<le> high r1" using alloc_okay by auto
  from Suc.prems(1) a have "r' = r1 \<or> (\<exists>e. load_attempts n (Suc k) (Some e) alloc ctx (b, r1) = (x, (b', r')))"
    by (auto split: sum.splits if_splits option.splits)
  with Suc.IH [OF _ r1(1)] r1 show ?case by force
qed simp

lemma NewGenerator_fails:
  "NewGenerator opts alloc ctx r = (Inl e, r') \<Longrightarrow> okay r \<Longrightarrow> okay r' \<and> high r \<le> high r'"
  by (auto simp: NewGenerator_def loadNext_def split: prod.splits sum.splits
      dest!: load_attempts_source)

end

text \<open>The MySQL repository is a segment source: the contract holds under every fault.\<close>

interpretation id_repo: segment_source "Allocate tag" "tag_high tag" "tag_ok tag"
  for tag
proof (unfold_locales, goal_cases)
  case (1 r x r')
  obtain t fs t' fs' where [simp]: "r = (t, fs)" "r' = (t', fs')" by (metis prod.collapse)
  from 1(1) obtain m where m: "t tag = Some m" "row_ok m"
    by (auto simp: tag_ok_def split: option.splits)
  from Allocate_cases [OF 1(2) [simplified] m(1)] m show ?case
    by (auto simp: tag_ok_def tag_high_def row_ok_def)
next
  case (2 r g r')
  obtain t fs t' fs' where [simp]: "r = (t, fs)" "r' = (t', fs')" by (metis prod.collapse)
  from 2(1) obtain m where m: "t tag = Some m" "row_ok m"
    by (auto simp: tag_ok_def split: option.splits)
  from Allocate_cases [OF 2(2) [simplified] m(1)] m show ?case
    by (auto simp: tag_ok_def tag_high_def row_ok_def)
qed

text \<open>Booting against a healthy database: the first segment of the row is current.\<close>

lemma NewGenerator_fresh:
  assumes "t tag = Some m" and "0 \<le> max_retries opts"
  shows "NewGenerator opts (Allocate tag) ctx (t, []) =
    (Inr (empty_buffer\<lparr>buf_min := row_max_id m + 1, buf_max := row_max_id m + row_step m,
            buf_cursor := row_max_id m + 1, buf_next_min := row_max_id m + 1,
            buf_next_max := row_max_id m + row_step m\<rparr>),
     (t(tag \<mapsto> m\<lparr>row_max_id := row_max_id m + row_step m, row_version := row_version m + 1\<rparr>), []))"
proof -
  obtain n where "nat (max_retries opts + 1) = Suc n" using assms(2) by (cases "nat (max_retries opts + 1)") auto
  then show ?thesis
    using Allocate_ok [of t tag m] assms(1)
    by (simp add: NewGenerator_def loadNext_def swapToNext_def empty_buffer_def)
qed

section \<open>Properties\<close>



text \<open>
  \<open>Next\<close> of the double-buffered generator always returns, whatever MySQL answers (an error
  is a return): with an identifier, it is one that the buffer owned or that was claimed during the
  call, it is not below the cursor, the buffer no longer owns it, and the cursor has passed it,
  so successive identifiers strictly increase.
\<close>

theorem gen_Next_returns_fresh:
  assumes "tag_ok tag db" and "buf_inv (tag_high tag db) b"
  shows "\<exists>x b' db'. gen_Next opts (Allocate tag) bg ctx (b, db) = Some (x, (b', db'))
    \<and> tag_ok tag db' \<and> buf_inv (tag_high tag db') b'
    \<and> stock b' \<subseteq> stock b \<union> {tag_high tag db<..tag_high tag db'}
    \<and> (case x of
         Inl e \<Rightarrow> buf_cursor b \<le> buf_cursor b'
       | Inr n \<Rightarrow> buf_cursor b \<le> n \<and> n < buf_cursor b'
           \<and> n \<in> stock b \<union> {tag_high tag db<..tag_high tag db'} \<and> n \<notin> stock b')"
proof -
  obtain x b' db' where g: "gen_Next opts (Allocate tag) bg ctx (b, db) = Some (x, (b', db'))"
    using id_repo.gen_Next_total [OF assms, of opts bg ctx] by auto
  from id_repo.gen_Next_evolves [OF this assms] g show ?thesis
    by (auto simp: evolves_def split: sum.splits)
qed

lemma gen_Next_switch_example:
  "map_option fst (gen_Next default_gen_opts (Allocate ''message'') (\<lambda>_. None) (\<lambda>_. None)
     (empty_buffer\<lparr>buf_min := 1, buf_max := 1, buf_cursor := 2\<rparr>,
      (Map.empty(''message'' \<mapsto> \<lparr>row_max_id = 1, row_step = 10, row_version = 1\<rparr>), [])))
   = Some (Inr 2)"
  by code_simp

lemma gen_Next_returns_fresh_witness:
  "let b = empty_buffer\<lparr>buf_min := 1, buf_max := 1, buf_cursor := 2\<rparr>;
       db = (Map.empty(''message'' \<mapsto> \<lparr>row_max_id = 1, row_step = 10, row_version = 1\<rparr>), []) in
   (\<exists>x b' db'. gen_Next default_gen_opts (Allocate ''message'') (\<lambda>_. None) (\<lambda>_. None) (b, db)
      = Some (x, (b', db')) \<and> tag_ok ''message'' db')
   \<and> map_option fst (gen_Next default_gen_opts (Allocate ''message'') (\<lambda>_. None) (\<lambda>_. None) (b, db))
      = Some (Inr 2)"
proof -
  let ?b = "empty_buffer\<lparr>buf_min := 1, buf_max := 1, buf_cursor := 2\<rparr>"
  let ?db = "(Map.empty(''message'' \<mapsto> \<lparr>row_max_id = 1, row_step = 10, row_version = 1\<rparr>), []) :: id_db"
  have "tag_ok ''message'' ?db" "buf_inv (tag_high ''message'' ?db) ?b"
    by (simp_all add: tag_ok_def row_ok_def tag_high_def buf_inv_def empty_buffer_def)
  from gen_Next_returns_fresh [OF this, of default_gen_opts "\<lambda>_. None" "\<lambda>_. None"]
  have "\<exists>x b' db'. gen_Next default_gen_opts (Allocate ''message'') (\<lambda>_. None) (\<lambda>_. None) (?b, ?db)
      = Some (x, (b', db')) \<and> tag_ok ''message'' db'" by blast
  with gen_Next_switch_example show ?thesis unfolding Let_def by blast
qed

end
