(* ===== verification/IdgenSystem.thy ===== *)
theory IdgenSystem
  imports Idgen
begin

text \<open>
  A deployment of the identifier generator: any number of instances, each with its own double
  buffer, over one row of \<open>id_generator\<close>. First the instances whose \<open>Next\<close> calls do not
  overlap inside one process (identifiers are then unique and increase per instance, whatever
  MySQL does), then the atomic steps of the goroutines of one process.
\<close>

section \<open>Instances over one table\<close>

text \<open>
  \<open>boot\<close> is the start, or the restart, of instance \<open>i\<close>: \<open>NewGenerator\<close> claims a first segment
  and the old stock of \<open>i\<close>, if any, is forgotten. \<open>is_issued\<close> lists every identifier answered so
  far, the latest first, with its instance.
\<close>

record idgen_sys =
  is_db :: id_db
  is_bufs :: "nat \<rightharpoonup> buffer"
  is_issued :: "(nat \<times> int) list"

inductive idgen_step :: "string \<Rightarrow> gen_opts \<Rightarrow> idgen_sys \<Rightarrow> idgen_sys \<Rightarrow> bool"
  for tag :: string and opts :: gen_opts where
  boot: "NewGenerator opts (Allocate tag) ctx (is_db s) = (Inr b, db') \<Longrightarrow>
     idgen_step tag opts s (s\<lparr>is_db := db', is_bufs := (is_bufs s)(i \<mapsto> b)\<rparr>)"
| boot_fails: "NewGenerator opts (Allocate tag) ctx (is_db s) = (Inl e, db') \<Longrightarrow>
     idgen_step tag opts s (s\<lparr>is_db := db', is_bufs := (is_bufs s)(i := None)\<rparr>)"
| issue: "is_bufs s i = Some b \<Longrightarrow>
     gen_Next opts (Allocate tag) bg ctx (b, is_db s) = Some (Inr n, (b', db')) \<Longrightarrow>
     idgen_step tag opts s (s\<lparr>is_db := db', is_bufs := (is_bufs s)(i \<mapsto> b'),
                              is_issued := (i, n) # is_issued s\<rparr>)"
| refuse: "is_bufs s i = Some b \<Longrightarrow>
     gen_Next opts (Allocate tag) bg ctx (b, is_db s) = Some (Inl e, (b', db')) \<Longrightarrow>
     idgen_step tag opts s (s\<lparr>is_db := db', is_bufs := (is_bufs s)(i \<mapsto> b')\<rparr>)"

inductive idgen_reachable :: "string \<Rightarrow> gen_opts \<Rightarrow> id_db \<Rightarrow> idgen_sys \<Rightarrow> bool"
  for tag :: string and opts :: gen_opts and db0 :: id_db where
  start: "idgen_reachable tag opts db0 \<lparr>is_db = db0, is_bufs = Map.empty, is_issued = []\<rparr>"
| step: "idgen_reachable tag opts db0 s \<Longrightarrow> idgen_step tag opts s s' \<Longrightarrow>
     idgen_reachable tag opts db0 s'"

text \<open>
  Ownership of numbers, abstractly: each party \<open>i\<close> holds a set \<open>S i\<close>, all of them lie in
  \<open>lo<..h\<close>, are pairwise disjoint, and are disjoint from the numbers already used.
\<close>

definition owned_inv :: "int \<Rightarrow> int \<Rightarrow> (nat \<Rightarrow> int set) \<Rightarrow> int list \<Rightarrow> bool" where
  "owned_inv lo h S used \<longleftrightarrow> lo \<le> h
     \<and> (\<forall>i. \<forall>n \<in> S i. lo < n \<and> n \<le> h \<and> n \<notin> set used)
     \<and> (\<forall>i j n. n \<in> S i \<and> n \<in> S j \<longrightarrow> i = j)
     \<and> (\<forall>n \<in> set used. lo < n \<and> n \<le> h) \<and> distinct used"

lemma owned_invD:
  assumes "owned_inv lo h S used"
  shows "n \<in> S i \<Longrightarrow> lo < n" "n \<in> S i \<Longrightarrow> n \<le> h" "n \<in> S i \<Longrightarrow> n \<notin> set used"
    "n \<in> S i \<Longrightarrow> n \<in> S j \<Longrightarrow> i = j" "n \<in> set used \<Longrightarrow> lo < n" "n \<in> set used \<Longrightarrow> n \<le> h"
    "distinct used" "lo \<le> h"
  using assms unfolding owned_inv_def by blast+

lemma owned_inv_change:
  assumes own: "owned_inv lo h S used" and h: "h \<le> h'" and T: "T \<subseteq> S i \<union> {h<..h'}"
  shows "owned_inv lo h' (S(i := T)) used"
proof -
  note D = owned_invD [OF own]
  have T': "n \<in> S i \<or> h < n \<and> n \<le> h'" if "n \<in> T" for n using T that by auto
  have "lo < n \<and> n \<le> h' \<and> n \<notin> set used" if "n \<in> T" for n
    using T' [OF that] D(1-3) [of n i] D(6) [of n] D(8) h by fastforce
  moreover have "lo < n \<and> n \<le> h' \<and> n \<notin> set used" if "n \<in> S j" for n j
    using D(1-3) [OF that] h by simp
  moreover have "n \<notin> T" if "n \<in> S j" "j \<noteq> i" for n j
    using T' [of n] D(2,4) [OF that(1)] that(2) by force
  moreover have "lo < n \<and> n \<le> h'" if "n \<in> set used" for n
    using D(5,6) [OF that] h by simp
  ultimately show ?thesis
    using D(4,7,8) h unfolding owned_inv_def by (auto split: if_splits)
qed

lemma owned_inv_use:
  assumes own: "owned_inv lo h S used" and n: "n \<in> S i"
  shows "owned_inv lo h (S(i := S i - {n})) (n # used)"
proof -
  note D = owned_invD [OF own]
  have "n \<notin> S j" if "j \<noteq> i" for j using D(4) [OF n] that by blast
  with D n show ?thesis unfolding owned_inv_def by (auto 0 3)
qed

definition stock_of :: "(nat \<rightharpoonup> buffer) \<Rightarrow> nat \<Rightarrow> int set" where
  "stock_of bufs i = (case bufs i of Some b \<Rightarrow> stock b | None \<Rightarrow> {})"

lemma stock_of_upd:
  "stock_of (bufs(i \<mapsto> b)) = (stock_of bufs)(i := stock b)"
  "stock_of (bufs(i := None)) = (stock_of bufs)(i := {})"
  by (simp_all add: stock_of_def fun_eq_iff)

definition idgen_inv :: "string \<Rightarrow> id_db \<Rightarrow> idgen_sys \<Rightarrow> bool" where
  "idgen_inv tag db0 s \<longleftrightarrow>
     tag_ok tag (is_db s)
     \<and> (\<forall>i b. is_bufs s i = Some b \<longrightarrow> buf_inv (tag_high tag (is_db s)) b)
     \<and> owned_inv (tag_high tag db0) (tag_high tag (is_db s)) (stock_of (is_bufs s))
         (map snd (is_issued s))"

lemma idgen_inv_bufs:
  "idgen_inv tag db0 s \<Longrightarrow> tag_high tag (is_db s) \<le> h' \<Longrightarrow>
   (\<And>b'. ob = Some b' \<Longrightarrow> buf_inv h' b') \<Longrightarrow>
   \<forall>j b. ((is_bufs s)(i := ob)) j = Some b \<longrightarrow> buf_inv h' b"
  by (auto simp: idgen_inv_def intro: buf_inv_mono)

lemma idgen_step_inv:
  assumes "idgen_step tag opts s s'" and inv: "idgen_inv tag db0 s"
  shows "idgen_inv tag db0 s'"
proof -
  let ?h = "tag_high tag (is_db s)"
  have ok: "tag_ok tag (is_db s)"
    and own: "owned_inv (tag_high tag db0) ?h (stock_of (is_bufs s)) (map snd (is_issued s))"
    and bi: "\<And>i b. is_bufs s i = Some b \<Longrightarrow> buf_inv ?h b"
    using inv by (auto simp: idgen_inv_def)
  have next_case: "idgen_inv tag db0 (s\<lparr>is_db := db', is_bufs := (is_bufs s)(i \<mapsto> b'),
      is_issued := (case x of Inl e \<Rightarrow> is_issued s | Inr n \<Rightarrow> (i, n) # is_issued s)\<rparr>)"
    if b: "is_bufs s i = Some b"
      and g: "gen_Next opts (Allocate tag) bg ctx (b, is_db s) = Some (x, (b', db'))"
    for i b bg ctx x b' db'
  proof -
    note * = id_repo.gen_Next_evolves [OF g ok bi [OF b]]
    then have h: "?h \<le> tag_high tag db'" "tag_ok tag db'" "buf_inv (tag_high tag db') b'"
      and sub: "stock b' \<subseteq> stock_of (is_bufs s) i \<union> {?h<..tag_high tag db'}"
      using b by (auto simp: evolves_def stock_of_def)
    note bufs = idgen_inv_bufs [OF inv h(1), of "Some b'" i]
    show ?thesis
    proof (cases x)
      case (Inl e)
      with owned_inv_change [OF own h(1) sub] h bufs show ?thesis
        by (simp add: idgen_inv_def stock_of_upd)
    next
      case (Inr n)
      with * sub b have ins: "insert n (stock b') \<subseteq> stock_of (is_bufs s) i \<union> {?h<..tag_high tag db'}"
        and n: "insert n (stock b') - {n} = stock b'"
        by (auto simp: stock_of_def)
      from owned_inv_use [OF owned_inv_change [OF own h(1) ins], of n i] n h bufs Inr
      show ?thesis by (simp add: idgen_inv_def stock_of_upd)
    qed
  qed
  from assms(1) show ?thesis
  proof cases
    case (boot ctx b db' i)
    note * = id_repo.NewGenerator_evolves [OF boot(2) ok]
    then have "stock b \<subseteq> stock_of (is_bufs s) i \<union> {?h<..tag_high tag db'}" by blast
    with * owned_inv_change [OF own] idgen_inv_bufs [OF inv, of _ "Some b" i] show ?thesis
      by (simp add: idgen_inv_def stock_of_upd boot(1))
  next
    case (boot_fails ctx e db' i)
    have "tag_ok tag db' \<and> ?h \<le> tag_high tag db'"
      using id_repo.NewGenerator_fails [OF boot_fails(2) ok] .
    with owned_inv_change [OF own, of "tag_high tag db'" "{}" i]
      idgen_inv_bufs [OF inv, of _ None i] show ?thesis
      by (simp add: idgen_inv_def stock_of_upd boot_fails(1))
  next
    case (issue i b bg ctx n b' db')
    from next_case [OF issue(2,3)] show ?thesis by (simp add: issue(1))
  next
    case (refuse i b bg ctx e b' db')
    from next_case [OF refuse(2,3)] show ?thesis by (simp add: refuse(1))
  qed
qed

lemma idgen_reachable_inv:
  "idgen_reachable tag opts db0 s \<Longrightarrow> tag_ok tag db0 \<Longrightarrow> idgen_inv tag db0 s"
proof (induction rule: idgen_reachable.induct)
  case start
  then show ?case by (simp add: idgen_inv_def owned_inv_def stock_of_def)
next
  case (step s s')
  then show ?case using idgen_step_inv by blast
qed

section \<open>The goroutines of one process\<close>

text \<open>
  The same generator at the grain of its atomic operations. Clients take the mutex; the
  background loader writes \<open>nextMin\<close>, \<open>nextMax\<close>, \<open>nextReady\<close> and \<open>loading\<close> without it. The program
  counter of a client names the next atomic operation: \<open>Idle\<close> is before the lock of \<open>tryNext\<close>,
  \<open>PfLoading\<close>..\<open>PfCas\<close> are the loads and the compare-and-swap of \<open>maybePrefetchLocked\<close> (under the
  lock), \<open>SwCheck\<close> is before the lock of \<open>switchSegment\<close>, \<open>SwReady\<close> its load of \<open>nextReady\<close>,
  \<open>SwMin\<close>, \<open>SwMax\<close>, \<open>SwClear\<close> the loads and the store of \<open>swapToNext\<close> (under the lock),
  \<open>CkLoading\<close>..\<open>CkCas\<close> the unlocked check before it starts the loader, \<open>SwWait\<close> the pause. At most
  one loader exists, because it is started by a successful compare-and-swap of \<open>loading\<close>, which
  its last operation resets.
\<close>

datatype cpc = Idle | PfLoading | PfReady | PfCas | SwCheck | SwReady | SwMin | SwMax | SwClear
  | CkLoading | CkReady | CkCas | SwWait

datatype lpc = LNone | LAlloc | LMin int int | LMax int int | LReady | LDone

record race =
  rc_buf :: buffer
  rc_lock :: "nat option"
  rc_pc :: "nat \<Rightarrow> cpc"
  rc_loader :: lpc
  rc_high :: int
  rc_ids :: "int list"

text \<open>
  The events: client \<open>i\<close> does its next operation, client \<open>i\<close> gives up waiting, the loader does
  its next operation, its allocation fails, another instance claims a segment.
\<close>

datatype race_event = Client nat | GiveUp nat | Loader | LoaderFails | OtherInstance

definition goto :: "nat \<Rightarrow> cpc \<Rightarrow> race \<Rightarrow> race" where
  "goto i p s = s\<lparr>rc_pc := (rc_pc s)(i := p)\<rparr>"

definition lock_goto :: "nat \<Rightarrow> cpc \<Rightarrow> race \<Rightarrow> race" where
  "lock_goto i p s = s\<lparr>rc_lock := Some i, rc_pc := (rc_pc s)(i := p)\<rparr>"

definition unlock_goto :: "nat \<Rightarrow> cpc \<Rightarrow> race \<Rightarrow> race" where
  "unlock_goto i p s = s\<lparr>rc_lock := None, rc_pc := (rc_pc s)(i := p)\<rparr>"

definition cas_loading :: "race \<Rightarrow> race" where
  "cas_loading s =
     (if buf_loading (rc_buf s) then s
      else s\<lparr>rc_buf := (rc_buf s)\<lparr>buf_loading := True\<rparr>, rc_loader := LAlloc\<rparr>)"

definition over_ratio :: "gen_opts \<Rightarrow> buffer \<Rightarrow> bool" where
  "over_ratio opts b =
     (let total = buf_max b - buf_min b + 1; used = buf_cursor b - buf_min b in
      if total \<le> 0 then False else prefetch_ratio opts \<le> rat_of_int used / rat_of_int total)"

fun client_op :: "gen_opts \<Rightarrow> nat \<Rightarrow> cpc \<Rightarrow> race \<Rightarrow> race option" where
  "client_op opts i Idle s =
     (if rc_lock s \<noteq> None then None
      else if buf_cursor (rc_buf s) \<le> buf_max (rc_buf s)
      then Some (lock_goto i PfLoading
             (s\<lparr>rc_buf := (rc_buf s)\<lparr>buf_cursor := buf_cursor (rc_buf s) + 1\<rparr>,
                rc_ids := buf_cursor (rc_buf s) # rc_ids s\<rparr>))
      else Some (goto i SwCheck s))"
| "client_op opts i PfLoading s =
     Some (if buf_loading (rc_buf s) then unlock_goto i Idle s else goto i PfReady s)"
| "client_op opts i PfReady s =
     Some (if buf_next_ready (rc_buf s) \<or> \<not> over_ratio opts (rc_buf s) then unlock_goto i Idle s
           else goto i PfCas s)"
| "client_op opts i PfCas s = Some (unlock_goto i Idle (cas_loading s))"
| "client_op opts i SwCheck s =
     (if rc_lock s \<noteq> None then None
      else if buf_cursor (rc_buf s) \<le> buf_max (rc_buf s) then Some (goto i Idle s)
      else Some (lock_goto i SwReady s))"
| "client_op opts i SwReady s =
     Some (if buf_next_ready (rc_buf s) then goto i SwMin s else unlock_goto i CkLoading s)"
| "client_op opts i SwMin s =
     Some (goto i SwMax (s\<lparr>rc_buf := (rc_buf s)\<lparr>buf_min := buf_next_min (rc_buf s)\<rparr>\<rparr>))"
| "client_op opts i SwMax s =
     Some (goto i SwClear (s\<lparr>rc_buf := (rc_buf s)\<lparr>buf_max := buf_next_max (rc_buf s)\<rparr>\<rparr>))"
| "client_op opts i SwClear s =
     Some (unlock_goto i Idle (s\<lparr>rc_buf := (rc_buf s)\<lparr>buf_cursor := buf_min (rc_buf s),
                                                     buf_next_ready := False\<rparr>\<rparr>))"
| "client_op opts i CkLoading s =
     Some (goto i (if buf_loading (rc_buf s) then SwWait else CkReady) s)"
| "client_op opts i CkReady s =
     Some (goto i (if buf_next_ready (rc_buf s) then SwWait else CkCas) s)"
| "client_op opts i CkCas s = Some (goto i SwWait (cas_loading s))"
| "client_op opts i SwWait s = Some (goto i SwCheck s)"

fun loader_op :: "int \<Rightarrow> lpc \<Rightarrow> race \<Rightarrow> race option" where
  "loader_op step LNone s = None"
| "loader_op step LAlloc s =
     Some (s\<lparr>rc_loader := LMin (rc_high s + 1) (rc_high s + step), rc_high := rc_high s + step\<rparr>)"
| "loader_op step (LMin lo up) s =
     Some (s\<lparr>rc_loader := LMax lo up, rc_buf := (rc_buf s)\<lparr>buf_next_min := lo\<rparr>\<rparr>)"
| "loader_op step (LMax lo up) s =
     Some (s\<lparr>rc_loader := LReady, rc_buf := (rc_buf s)\<lparr>buf_next_max := up\<rparr>\<rparr>)"
| "loader_op step LReady s =
     Some (s\<lparr>rc_loader := LDone, rc_buf := (rc_buf s)\<lparr>buf_next_ready := True\<rparr>\<rparr>)"
| "loader_op step LDone s =
     Some (s\<lparr>rc_loader := LNone, rc_buf := (rc_buf s)\<lparr>buf_loading := False\<rparr>\<rparr>)"

fun race_op :: "gen_opts \<Rightarrow> int \<Rightarrow> race_event \<Rightarrow> race \<Rightarrow> race option" where
  "race_op opts step (Client i) s = client_op opts i (rc_pc s i) s"
| "race_op opts step (GiveUp i) s =
     (if rc_pc s i = SwWait then Some (goto i Idle s) else None)"
| "race_op opts step Loader s = loader_op step (rc_loader s) s"
| "race_op opts step LoaderFails s =
     (if rc_loader s = LAlloc then Some (s\<lparr>rc_loader := LDone\<rparr>) else None)"
| "race_op opts step OtherInstance s = Some (s\<lparr>rc_high := rc_high s + step\<rparr>)"

fun race_run :: "gen_opts \<Rightarrow> int \<Rightarrow> race_event list \<Rightarrow> race \<Rightarrow> race option" where
  "race_run opts step [] s = Some s"
| "race_run opts step (e # es) s =
     (case race_op opts step e s of None \<Rightarrow> None | Some s' \<Rightarrow> race_run opts step es s')"

text \<open>The state \<open>NewGenerator\<close> leaves: the first segment is current, nothing is loading.\<close>

definition race_init :: "int \<Rightarrow> race" where
  "race_init step =
     \<lparr>rc_buf = empty_buffer\<lparr>buf_min := 1, buf_max := step, buf_cursor := 1,
                             buf_next_min := 1, buf_next_max := step\<rparr>,
      rc_lock = None, rc_pc = (\<lambda>_. Idle), rc_loader = LNone, rc_high = step, rc_ids = []\<rparr>"

text \<open>Schedules in which a single goroutine calls \<open>Next\<close>.\<close>

fun one_client :: "race_event list \<Rightarrow> bool" where
  "one_client [] = True"
| "one_client (Client i # es) = (i = 0 \<and> one_client es)"
| "one_client (GiveUp i # es) = (i = 0 \<and> one_client es)"
| "one_client (_ # es) = one_client es"

text \<open>What holds at each program counter of the loader and of the one client.\<close>

fun loader_at :: "lpc \<Rightarrow> int \<Rightarrow> buffer \<Rightarrow> bool" where
  "loader_at (LMin lo up) h b \<longleftrightarrow> buf_max b < lo \<and> lo \<le> up \<and> up \<le> h"
| "loader_at (LMax lo up) h b \<longleftrightarrow> buf_max b < lo \<and> lo \<le> up \<and> up \<le> h \<and> buf_next_min b = lo"
| "loader_at LReady h b \<longleftrightarrow>
     buf_max b < buf_next_min b \<and> buf_next_min b \<le> buf_next_max b \<and> buf_next_max b \<le> h"
| "loader_at _ h b \<longleftrightarrow> True"

definition current_ok :: "buffer \<Rightarrow> bool" where
  "current_ok b \<longleftrightarrow> buf_cursor b \<le> buf_max b + 1
     \<and> (buf_next_ready b \<longrightarrow> buf_max b < buf_next_min b)"

fun client_at :: "cpc \<Rightarrow> buffer \<Rightarrow> bool" where
  "client_at PfReady b \<longleftrightarrow> current_ok b \<and> \<not> buf_loading b"
| "client_at CkReady b \<longleftrightarrow> current_ok b \<and> \<not> buf_loading b"
| "client_at PfCas b \<longleftrightarrow> current_ok b \<and> \<not> buf_loading b \<and> \<not> buf_next_ready b"
| "client_at CkCas b \<longleftrightarrow> current_ok b \<and> \<not> buf_loading b \<and> \<not> buf_next_ready b"
| "client_at SwMin b \<longleftrightarrow> current_ok b \<and> buf_next_ready b"
| "client_at SwMax b \<longleftrightarrow> current_ok b \<and> buf_next_ready b \<and> buf_min b = buf_next_min b"
| "client_at SwClear b \<longleftrightarrow>
     buf_next_ready b \<and> buf_min b = buf_next_min b \<and> buf_max b = buf_next_max b"
| "client_at _ b \<longleftrightarrow> current_ok b"

definition next_ok :: "int \<Rightarrow> lpc \<Rightarrow> buffer \<Rightarrow> bool" where
  "next_ok h l b \<longleftrightarrow> (buf_loading b \<longleftrightarrow> l \<noteq> LNone) \<and> buf_cursor b \<le> h + 1 \<and> buf_max b \<le> h
     \<and> (buf_next_ready b \<longrightarrow> (l = LNone \<or> l = LDone) \<and> buf_cursor b \<le> buf_next_min b
          \<and> buf_next_min b \<le> buf_next_max b \<and> buf_next_max b \<le> h)"

definition ids_ok :: "int \<Rightarrow> int list \<Rightarrow> bool" where
  "ids_ok c ids \<longleftrightarrow> (\<forall>n \<in> set ids. n < c) \<and> sorted_wrt (>) ids"

definition race_inv :: "race \<Rightarrow> bool" where
  "race_inv s \<longleftrightarrow> loader_at (rc_loader s) (rc_high s) (rc_buf s)
     \<and> client_at (rc_pc s 0) (rc_buf s) \<and> next_ok (rc_high s) (rc_loader s) (rc_buf s)
     \<and> ids_ok (buf_cursor (rc_buf s)) (rc_ids s)"

lemma ids_ok_Cons: "ids_ok c ids \<Longrightarrow> ids_ok (c + 1) (c # ids)"
  by (force simp: ids_ok_def)

lemma ids_ok_mono: "ids_ok c ids \<Longrightarrow> c \<le> c' \<Longrightarrow> ids_ok c' ids"
  by (force simp: ids_ok_def)

lemma loader_at_buffer:
  "loader_at l h (b\<lparr>buf_cursor := c\<rparr>) = loader_at l h b"
  "loader_at l h (b\<lparr>buf_min := c\<rparr>) = loader_at l h b"
  "loader_at l h (b\<lparr>buf_loading := g\<rparr>) = loader_at l h b"
  "loader_at l h (b\<lparr>buf_next_ready := g\<rparr>) = loader_at l h b"
  by (cases l; simp)+

lemmas race_op_defs = goto_def lock_goto_def unlock_goto_def cas_loading_def
lemmas race_inv_defs = race_inv_def current_ok_def next_ok_def loader_at_buffer

lemma client_op_inv:
  assumes "client_op opts 0 (rc_pc s 0) s = Some s'" and "race_inv s"
  shows "race_inv s'"
proof (cases "rc_pc s 0")
  case Idle
  with assms show ?thesis
    by (auto simp: race_inv_defs race_op_defs intro: ids_ok_Cons split: if_splits)
next
  case SwClear
  with assms show ?thesis
    by (auto simp: race_inv_defs race_op_defs elim!: ids_ok_mono)
next
  case SwMax
  with assms show ?thesis by (auto simp: race_inv_defs race_op_defs)
qed ((use assms in \<open>clarsimp simp: race_inv_defs race_op_defs split: if_split_asm\<close>)+)

lemma client_at_loader:
  "client_at p b \<Longrightarrow> \<not> buf_next_ready b \<Longrightarrow> client_at p (b\<lparr>buf_next_min := x\<rparr>)"
  "client_at p b \<Longrightarrow> \<not> buf_next_ready b \<Longrightarrow> client_at p (b\<lparr>buf_next_max := x\<rparr>)"
  "client_at p b \<Longrightarrow> client_at p (b\<lparr>buf_loading := False\<rparr>)"
  "client_at p b \<Longrightarrow> \<not> buf_next_ready b \<Longrightarrow> buf_loading b \<Longrightarrow> buf_max b < buf_next_min b \<Longrightarrow>
     client_at p (b\<lparr>buf_next_ready := True\<rparr>)"
  by (cases p; simp add: current_ok_def)+

lemma client_at_cursor: "client_at p b \<Longrightarrow> \<not> buf_next_ready b \<Longrightarrow> buf_cursor b \<le> buf_max b + 1"
  by (cases p) (simp_all add: current_ok_def)

lemma loader_op_inv:
  assumes "loader_op step p s = Some s'" and "rc_loader s = p" and "0 < step" and "race_inv s"
  shows "race_inv s'"
proof (cases p)
  case LReady
  with assms client_at_cursor [of "rc_pc s 0" "rc_buf s"] show ?thesis
    by (auto simp: race_inv_def next_ok_def intro!: client_at_loader)
qed (use assms in \<open>auto simp: race_inv_def next_ok_def loader_at_buffer intro!: client_at_loader\<close>)

lemma race_inv_high: "race_inv s \<Longrightarrow> 0 < step \<Longrightarrow> race_inv (s\<lparr>rc_high := rc_high s + step\<rparr>)"
  by (cases "rc_loader s") (auto simp: race_inv_def next_ok_def)

lemma race_op_inv:
  assumes "race_op opts step e s = Some s'" and "one_client [e]" and "0 < step" and "race_inv s"
  shows "race_inv s'"
proof (cases e)
  case (Client i)
  with assms client_op_inv [of opts s s'] show ?thesis by simp
next
  case (GiveUp i)
  with assms show ?thesis by (auto simp: race_inv_def race_op_defs split: if_splits)
next
  case Loader
  with assms loader_op_inv show ?thesis by auto
next
  case LoaderFails
  with assms show ?thesis by (auto simp: race_inv_def next_ok_def split: if_splits)
next
  case OtherInstance
  with assms race_inv_high show ?thesis by auto
qed

lemma race_run_inv:
  "race_run opts step es s = Some s' \<Longrightarrow> one_client es \<Longrightarrow> 0 < step \<Longrightarrow> race_inv s \<Longrightarrow> race_inv s'"
proof (induction es arbitrary: s)
  case Nil
  then show ?case by simp
next
  case (Cons e es)
  from Cons.prems(1) obtain s1 where s1: "race_op opts step e s = Some s1"
    "race_run opts step es s1 = Some s'" by (auto split: option.splits)
  from Cons.prems(2) have oc: "one_client [e]" "one_client es" by (cases e; simp)+
  from race_op_inv [OF s1(1) oc(1) Cons.prems(3,4)] show ?case
    using Cons.IH [OF s1(2) oc(2) Cons.prems(3)] by blast
qed

lemma race_init_inv: "0 \<le> step \<Longrightarrow> race_inv (race_init step)"
  by (simp add: race_init_def race_inv_defs ids_ok_def empty_buffer_def)

text \<open>
  Two goroutines. Client 0 finds no next segment and is delayed after its check, before its
  compare-and-swap; meanwhile client 1 starts a loader that completes. Client 0's
  compare-and-swap then succeeds and starts a second loader although a next segment is ready;
  client 1 swaps that loader's segment in between its store of \<open>nextMax\<close> and its store of
  \<open>nextReady\<close>, after which the same segment is ready a second time.
\<close>

definition double_issue_schedule :: "race_event list" where
  "double_issue_schedule =
     [Client 0, Client 0, Client 0, Client 0, LoaderFails, Loader] \<comment> \<open>takes 1; the prefetch fails\<close>
     @ [Client 0, Client 0, Client 0, Client 0, Client 0] \<comment> \<open>exhausted; up to before CkCas\<close>
     @ [Client 1, Client 1, Client 1, Client 1, Client 1, Client 1] \<comment> \<open>starts a loader\<close>
     @ [Loader, Loader, Loader, Loader, Loader]
     @ [Client 0, Loader, Loader, Loader] \<comment> \<open>second loader, up to before its nextReady\<close>
     @ [Client 1, Client 1, Client 1, Client 1, Client 1, Client 1] \<comment> \<open>swaps\<close>
     @ [Loader, Loader]
     @ [Client 1, Client 1, Client 1] \<comment> \<open>takes an identifier of the new segment\<close>
     @ [Client 1, Client 1, Client 1, Client 1, Client 1, Client 1]
     @ [Client 1]"

section \<open>Properties\<close>



text \<open>
  C33: At the grain of the atomic operations, with the background loader running at any speed and
  its allocations failing at any time, a process in which one goroutine calls \<open>Next\<close> never
  issues an identifier twice; the identifiers strictly increase.
\<close>

theorem single_caller_ids_increase:
  assumes "race_run opts step es (race_init step) = Some s" and "one_client es" and "0 < step"
  shows "sorted_wrt (>) (rc_ids s)"
  using race_run_inv [OF assms] race_init_inv [of step] assms(3)
  by (simp add: race_inv_def ids_ok_def)

lemma single_caller_ids_increase_witness:
  "\<exists>s. race_run default_gen_opts 1
       [Client 0, Client 0, Client 0, Client 0, Loader, Loader, Client 0, Client 0, Loader, Loader,
        Client 0, Client 0, Client 0, Loader, Client 0, Client 0, Client 0, Client 0, Client 0]
       (race_init 1) = Some s
     \<and> rc_ids s = [2, 1] \<and> sorted_wrt (>) (rc_ids s)"
proof -
  let ?es = "[Client 0, Client 0, Client 0, Client 0, Loader, Loader, Client 0, Client 0, Loader, Loader,
        Client 0, Client 0, Client 0, Loader, Client 0, Client 0, Client 0, Client 0, Client 0]"
  have "map_option rc_ids (race_run default_gen_opts 1 ?es (race_init 1)) = Some [2, 1]"
    by code_simp
  then obtain s where s: "race_run default_gen_opts 1 ?es (race_init 1) = Some s" "rc_ids s = [2, 1]"
    by blast
  from single_caller_ids_increase [OF s(1)] s show ?thesis by simp
qed

text \<open>
  With two goroutines the same process can issue one identifier twice: the unlocked check of
  \<open>loading\<close> and \<open>nextReady\<close> in \<open>switchSegment\<close> is not atomic with the compare-and-swap that starts
  the loader, so a loader can be started while a next segment is ready, and \<open>swapToNext\<close> can take
  its segment before it stores \<open>nextReady\<close>. The schedule issues 1, 3 and 3 again.
\<close>

theorem concurrent_callers_can_duplicate:
  "map_option rc_ids (race_run default_gen_opts 1 double_issue_schedule (race_init 1))
     = Some [3, 3, 1]"
  by code_simp

end
