(* ===== verification/Codec.thy ===== *)
theory Codec
  imports GoPrelude
begin

text \<open>
  Text codecs that the program uses at its borders: decimal integers (\<open>strconv\<close>), the
  unpadded URL alphabet of base64, \<open>strings.TrimSpace\<close> and \<open>strings.SplitN\<close>, the opaque cursors
  of \<open>user/cursor.go\<close> and \<open>conversation/service.go\<close>, the id parsers of the HTTP handlers and of
  the workers, and the CRC-32 sharding of \<open>message/outbox_shard.go\<close>. Go strings are byte
  strings, here lists of 8-bit characters.
\<close>

unbundle bit_operations_syntax

section \<open>Decimal integers\<close>

definition digit :: "nat \<Rightarrow> char" where
  "digit d = char_of (48 + d)"

fun decimal :: "nat \<Rightarrow> string" where
  "decimal n = (if n < 10 then [digit n] else decimal (n div 10) @ [digit (n mod 10)])"

declare decimal.simps [simp del]

definition FormatInt :: "int \<Rightarrow> string" where
  "FormatInt i = (if i < 0 then CHR ''-'' # decimal (nat (- i)) else decimal (nat i))"

definition is_digit :: "char \<Rightarrow> bool" where
  "is_digit c \<longleftrightarrow> 48 \<le> (of_char c :: nat) \<and> (of_char c :: nat) \<le> 57"

definition digit_value :: "char \<Rightarrow> nat" where
  "digit_value c = of_char c - 48"

definition digits_value :: "string \<Rightarrow> nat" where
  "digits_value s = foldl (\<lambda>v c. v * 10 + digit_value c) 0 s"

text \<open>\<open>ParseInt(s, 10, 64)\<close>: an optional sign, at least one digit, a value of 64 bits.\<close>

definition ParseInt :: "string \<Rightarrow> int option" where
  "ParseInt s =
     (case s of
        [] \<Rightarrow> None
      | c # cs \<Rightarrow>
          let neg = (c = CHR ''-''); ds = (if c = CHR ''-'' \<or> c = CHR ''+'' then cs else s) in
          if ds = [] \<or> \<not> list_all is_digit ds then None
          else let v = int (digits_value ds); i = (if neg then - v else v) in
               if in_int64 i then Some i else None)"

lemma of_char_digit [simp]: "d < 10 \<Longrightarrow> (of_char (digit d) :: nat) = 48 + d"
  by (simp add: digit_def)

lemma is_digit_digit [simp]: "d < 10 \<Longrightarrow> is_digit (digit d)"
  by (simp add: is_digit_def)

lemma digit_value_digit [simp]: "d < 10 \<Longrightarrow> digit_value (digit d) = d"
  by (simp add: digit_value_def)

lemma digits_value_snoc [simp]: "digits_value (s @ [c]) = digits_value s * 10 + digit_value c"
  by (simp add: digits_value_def)

lemma decimal_ne: "decimal n \<noteq> []"
  by (subst decimal.simps) simp

lemma decimal_digits: "list_all is_digit (decimal n)"
proof (induction n rule: decimal.induct)
  case (1 n)
  then show ?case by (subst decimal.simps) simp
qed

lemma digits_value_decimal: "digits_value (decimal n) = n"
proof (induction n rule: decimal.induct)
  case (1 n)
  show ?case
  proof (cases "n < 10")
    case True
    then show ?thesis by (subst decimal.simps) (simp add: digits_value_def)
  next
    case False
    with 1 show ?thesis by (subst decimal.simps) simp
  qed
qed

lemma not_digit_sign: "\<not> is_digit (CHR ''-'')" "\<not> is_digit (CHR ''+'')" "\<not> is_digit (CHR ''|'')"
  by (simp_all add: is_digit_def)

lemma ParseInt_FormatInt:
  assumes "in_int64 i"
  shows "ParseInt (FormatInt i) = Some i"
proof (cases "i < 0")
  case True
  then have "ParseInt (FormatInt i) = ParseInt (CHR ''-'' # decimal (nat (- i)))"
    by (simp add: FormatInt_def)
  also have "\<dots> = Some i"
    using assms True
    by (simp add: ParseInt_def decimal_ne decimal_digits digits_value_decimal)
  finally show ?thesis .
next
  case False
  obtain c cs where d: "decimal (nat i) = c # cs" using decimal_ne by (cases "decimal (nat i)") auto
  with decimal_digits [of "nat i"] have "is_digit c" by simp
  then have "c \<noteq> CHR ''-''" "c \<noteq> CHR ''+''" using not_digit_sign by auto
  with False assms d decimal_digits [of "nat i"] digits_value_decimal [of "nat i"] show ?thesis
    by (simp add: ParseInt_def FormatInt_def)
qed

lemma FormatInt_ne [simp]: "FormatInt i \<noteq> []"
  by (simp add: FormatInt_def decimal_ne)

lemma FormatInt_chars: "c \<in> set (FormatInt i) \<Longrightarrow> is_digit c \<or> c = CHR ''-''"
  using decimal_digits by (auto simp: FormatInt_def list_all_iff split: if_splits)

lemma FormatInt_inj: "in_int64 i \<Longrightarrow> in_int64 j \<Longrightarrow> FormatInt i = FormatInt j \<Longrightarrow> i = j"
  using ParseInt_FormatInt by (metis option.inject)

section \<open>Ids in requests and events\<close>

text \<open>
  \<open>parseConvID\<close> of the persist worker: a loop over the runes that gives 0 at the first one that
  is not a digit, with \<open>int64\<close> arithmetic. A byte outside ASCII is never part of a digit rune.
\<close>

fun parseConvID_loop :: "int \<Rightarrow> string \<Rightarrow> int" where
  "parseConvID_loop v [] = v"
| "parseConvID_loop v (c # cs) =
     (if \<not> is_digit c then 0 else parseConvID_loop (wrap64 (v * 10 + int (digit_value c))) cs)"

definition parseConvID :: "string \<Rightarrow> int" where
  "parseConvID s = parseConvID_loop 0 s"

lemma parseConvID_loop_snoc:
  "list_all is_digit s \<Longrightarrow> is_digit c \<Longrightarrow>
   parseConvID_loop v (s @ [c]) = wrap64 (parseConvID_loop v s * 10 + int (digit_value c))"
  by (induction s arbitrary: v) auto

lemma parseConvID_digits:
  "list_all is_digit s \<Longrightarrow> int (digits_value s) \<le> int64_max \<Longrightarrow> parseConvID_loop 0 s = int (digits_value s)"
proof (induction s rule: rev_induct)
  case Nil
  then show ?case by (simp add: digits_value_def)
next
  case (snoc c s)
  then have "parseConvID_loop 0 s = int (digits_value s)" by simp
  moreover have "in_int64 (int (digits_value (s @ [c])))"
    using snoc.prems(2) by (simp add: in_int64_def int64_min_def)
  ultimately show ?case using snoc.prems(1) by (simp add: parseConvID_loop_snoc wrap64_id mult.commute)
qed

lemma parseConvID_FormatInt: "0 \<le> c \<Longrightarrow> c \<le> int64_max \<Longrightarrow> parseConvID (FormatInt c) = c"
  using parseConvID_digits [OF decimal_digits, of "nat c"]
  by (simp add: parseConvID_def FormatInt_def digits_value_decimal)

section \<open>Base64, URL alphabet, no padding\<close>

definition b64_alphabet :: string where
  "b64_alphabet = ''ABCDEFGHIJKLMNOPQRSTUVWXYZabcdefghijklmnopqrstuvwxyz0123456789-_''"

definition b64_char :: "nat \<Rightarrow> char" where
  "b64_char i = b64_alphabet ! i"

fun index_of :: "char \<Rightarrow> string \<Rightarrow> nat \<Rightarrow> nat option" where
  "index_of c [] i = None"
| "index_of c (x # xs) i = (if c = x then Some i else index_of c xs (Suc i))"

definition b64_value :: "char \<Rightarrow> nat option" where
  "b64_value c = index_of c b64_alphabet 0"

fun b64_encode_bytes :: "nat list \<Rightarrow> string" where
  "b64_encode_bytes (a # b # c # bs) =
     [b64_char (a div 4), b64_char (a mod 4 * 16 + b div 16),
      b64_char (b mod 16 * 4 + c div 64), b64_char (c mod 64)] @ b64_encode_bytes bs"
| "b64_encode_bytes [a, b] =
     [b64_char (a div 4), b64_char (a mod 4 * 16 + b div 16), b64_char (b mod 16 * 4)]"
| "b64_encode_bytes [a] = [b64_char (a div 4), b64_char (a mod 4 * 16)]"
| "b64_encode_bytes [] = []"

definition EncodeToString :: "string \<Rightarrow> string" where
  "EncodeToString s = b64_encode_bytes (map of_char s)"

text \<open>
  Decoding skips carriage returns and line feeds, fails at any other character outside the
  alphabet and at a group of one character, and ignores the unused low bits of a short group.
\<close>

fun b64_decode_values :: "nat list \<Rightarrow> nat list option" where
  "b64_decode_values (a # b # c # d # vs) =
     map_option (\<lambda>bs. [a * 4 + b div 16, b mod 16 * 16 + c div 4, c mod 4 * 64 + d] @ bs)
       (b64_decode_values vs)"
| "b64_decode_values [a, b, c] = Some [a * 4 + b div 16, b mod 16 * 16 + c div 4]"
| "b64_decode_values [a, b] = Some [a * 4 + b div 16]"
| "b64_decode_values [a] = None"
| "b64_decode_values [] = Some []"

fun all_some :: "'a option list \<Rightarrow> 'a list option" where
  "all_some [] = Some []"
| "all_some (None # xs) = None"
| "all_some (Some x # xs) = map_option ((#) x) (all_some xs)"

definition is_newline :: "char \<Rightarrow> bool" where
  "is_newline c \<longleftrightarrow> (of_char c :: nat) \<in> {10, 13}"

definition DecodeString :: "string \<Rightarrow> string option" where
  "DecodeString s =
     (case all_some (map b64_value (filter (\<lambda>c. \<not> is_newline c) s)) of
        None \<Rightarrow> None
      | Some vs \<Rightarrow> map_option (map char_of) (b64_decode_values vs))"

lemma index_of_nth:
  "distinct xs \<Longrightarrow> i < length xs \<Longrightarrow> index_of (xs ! i) xs k = Some (k + i)"
proof (induction xs arbitrary: i k)
  case (Cons x xs)
  then show ?case by (cases i) (auto simp: nth_mem)
qed simp

lemma b64_alphabet_facts:
  "length b64_alphabet = 64" "distinct b64_alphabet" "list_all (\<lambda>c. \<not> is_newline c) b64_alphabet"
  by (simp_all add: b64_alphabet_def is_newline_def)

lemma b64_value_char: "i < 64 \<Longrightarrow> b64_value (b64_char i) = Some i"
  using index_of_nth [OF b64_alphabet_facts(2), of i 0]
  by (simp add: b64_value_def b64_char_def b64_alphabet_facts(1))

lemma b64_char_not_newline: "i < 64 \<Longrightarrow> \<not> is_newline (b64_char i)"
  using b64_alphabet_facts(1,3) by (simp add: b64_char_def list_all_length)

fun b64_values :: "nat list \<Rightarrow> nat list" where
  "b64_values (a # b # c # bs) =
     [a div 4, a mod 4 * 16 + b div 16, b mod 16 * 4 + c div 64, c mod 64] @ b64_values bs"
| "b64_values [a, b] = [a div 4, a mod 4 * 16 + b div 16, b mod 16 * 4]"
| "b64_values [a] = [a div 4, a mod 4 * 16]"
| "b64_values [] = []"

lemma b64_encode_values: "b64_encode_bytes bs = map b64_char (b64_values bs)"
  by (induction bs rule: b64_values.induct) auto

lemma div_mod_small: "b < 256 \<Longrightarrow> b div 16 mod 16 = b div (16 :: nat)"
  "c < 256 \<Longrightarrow> c div 64 mod 4 = c div (64 :: nat)" "c < 256 \<Longrightarrow> c div 64 div 4 = (0 :: nat)"
  by simp_all

lemma b64_octets:
  fixes a b c :: nat
  shows "a < 256 \<Longrightarrow> a div 4 < 64" and "b < 256 \<Longrightarrow> a mod 4 * 16 + b div 16 < 64"
    and "c < 256 \<Longrightarrow> b mod 16 * 4 + c div 64 < 64"
    and "b < 256 \<Longrightarrow> b div 16 div 16 = 0" and "b < 256 \<Longrightarrow> b div 16 mod 16 * 16 + b mod 16 = b"
    and "b < 256 \<Longrightarrow> c < 256 \<Longrightarrow> b div 16 mod 16 * 16 + (b mod 16 + c div 64 div 4) = b"
    and "c < 256 \<Longrightarrow> c div 64 mod 4 * 64 + c mod 64 = c"
  by (simp_all only: div_mod_small div_mult_mod_eq add_0_right)

lemma b64_values_bound: "list_all (\<lambda>b. b < 256) bs \<Longrightarrow> list_all (\<lambda>v. v < 64) (b64_values bs)"
  by (induction bs rule: b64_values.induct) (simp_all add: b64_octets)

lemma b64_decode_values: "list_all (\<lambda>b. b < 256) bs \<Longrightarrow> b64_decode_values (b64_values bs) = Some bs"
  by (induction bs rule: b64_values.induct) (simp_all add: b64_octets)

lemma all_some_chars:
  "list_all (\<lambda>v. v < 64) vs \<Longrightarrow>
   all_some (map b64_value (filter (\<lambda>c. \<not> is_newline c) (map b64_char vs))) = Some vs"
  by (induction vs) (auto simp: b64_value_char b64_char_not_newline)

lemma of_char_bound: "list_all (\<lambda>b. b < 256) (map of_char (s :: string) :: nat list)"
  by (auto simp: list_all_iff)

lemma DecodeString_EncodeToString: "DecodeString (EncodeToString s) = Some s"
proof -
  note bnd = of_char_bound [of s]
  show ?thesis
    by (simp add: DecodeString_def EncodeToString_def b64_encode_values
        all_some_chars [OF b64_values_bound [OF bnd]] b64_decode_values [OF bnd] comp_def)
qed

section \<open>TrimSpace\<close>

text \<open>The UTF-8 encodings of the runes that \<open>unicode.IsSpace\<close> accepts.\<close>

definition space_bytes :: "nat list list" where
  "space_bytes =
     [[9], [10], [11], [12], [13], [32], [194, 133], [194, 160], [225, 154, 128]]
     @ map (\<lambda>i. [226, 128, i]) [128, 129, 130, 131, 132, 133, 134, 135, 136, 137, 138, 168, 169, 175]
     @ [[226, 129, 159], [227, 128, 128]]"

definition spaces :: "string list" where
  "spaces = map (map char_of) space_bytes"

definition strip_prefix :: "string \<Rightarrow> string \<Rightarrow> string option" where
  "strip_prefix p s = (if take (length p) s = p then Some (drop (length p) s) else None)"

fun strip_one :: "string list \<Rightarrow> string \<Rightarrow> string option" where
  "strip_one [] s = None"
| "strip_one (p # ps) s = (case strip_prefix p s of Some r \<Rightarrow> Some r | None \<Rightarrow> strip_one ps s)"

primrec strip_all :: "nat \<Rightarrow> string list \<Rightarrow> string \<Rightarrow> string" where
  "strip_all 0 ps s = s"
| "strip_all (Suc n) ps s = (case strip_one ps s of None \<Rightarrow> s | Some r \<Rightarrow> strip_all n ps r)"

definition TrimSpace :: "string \<Rightarrow> string" where
  "TrimSpace s =
     (let l = strip_all (length s) spaces s in
      rev (strip_all (length l) (map rev spaces) (rev l)))"

lemma strip_all_id: "strip_one ps s = None \<Longrightarrow> strip_all n ps s = s"
  by (cases n) simp_all

lemma strip_one_none:
  "s \<noteq> [] \<Longrightarrow> (\<And>p. p \<in> set ps \<Longrightarrow> p \<noteq> [] \<and> hd p \<noteq> hd s) \<Longrightarrow> strip_one ps s = None"
proof (induction ps)
  case (Cons p ps)
  then have "p \<noteq> []" "hd p \<noteq> hd s" by auto
  then have "take (length p) s \<noteq> p" using Cons.prems(1) by (cases p; cases s) auto
  with Cons show ?case by (simp add: strip_prefix_def)
qed simp

lemma space_heads:
  "p \<in> set spaces \<Longrightarrow> p \<noteq> [] \<and> b64_value (hd p) = None"
  "p \<in> set (map rev spaces) \<Longrightarrow> p \<noteq> [] \<and> b64_value (hd p) = None"
proof -
  have "\<forall>p \<in> set spaces. p \<noteq> [] \<and> b64_value (hd p) = None" by code_simp
  then show "p \<in> set spaces \<Longrightarrow> p \<noteq> [] \<and> b64_value (hd p) = None" by auto
  have "\<forall>p \<in> set (map rev spaces). p \<noteq> [] \<and> b64_value (hd p) = None" by code_simp
  then show "p \<in> set (map rev spaces) \<Longrightarrow> p \<noteq> [] \<and> b64_value (hd p) = None" by auto
qed

lemma TrimSpace_b64:
  assumes "\<And>c. c \<in> set s \<Longrightarrow> b64_value c \<noteq> None"
  shows "TrimSpace s = s"
proof (cases "s = []")
  case True
  then show ?thesis by (simp add: TrimSpace_def)
next
  case False
  have "strip_one spaces s = None"
    by (rule strip_one_none [OF False]) (use space_heads(1) assms hd_in_set [OF False] in metis)
  moreover have "strip_one (map rev spaces) (rev s) = None"
  proof (rule strip_one_none)
    fix p
    assume p: "p \<in> set (map rev spaces)"
    have "hd (rev s) \<in> set s" using False by (simp add: hd_rev)
    then show "p \<noteq> [] \<and> hd p \<noteq> hd (rev s)" using space_heads(2) [OF p] assms by metis
  qed (use False in simp)
  ultimately show ?thesis by (simp add: TrimSpace_def strip_all_id Let_def)
qed

lemma EncodeToString_chars: "c \<in> set (EncodeToString s) \<Longrightarrow> b64_value c \<noteq> None"
proof -
  assume "c \<in> set (EncodeToString s)"
  then obtain v where "v \<in> set (b64_values (map of_char s))" "c = b64_char v"
    by (auto simp: EncodeToString_def b64_encode_values)
  moreover from this have "v < 64" using b64_values_bound [OF of_char_bound] by (auto simp: list_all_iff)
  ultimately show ?thesis by (simp add: b64_value_char)
qed

lemma decode_trimmed: "DecodeString (TrimSpace (EncodeToString s)) = Some s"
  by (simp add: TrimSpace_b64 [OF EncodeToString_chars] DecodeString_EncodeToString)

section \<open>Opaque cursors\<close>

definition encodeOpaqueCursor :: "int \<Rightarrow> string" where
  "encodeOpaqueCursor i = EncodeToString (FormatInt i)"

definition parseOpaqueCursor :: "string \<Rightarrow> int option" where
  "parseOpaqueCursor cursor =
     (case DecodeString (TrimSpace cursor) of None \<Rightarrow> None | Some raw \<Rightarrow> ParseInt raw)"

text \<open>\<open>SplitN(s, sep, 2)\<close> at a one-byte separator.\<close>

fun split2 :: "char \<Rightarrow> string \<Rightarrow> string list" where
  "split2 sep [] = [[]]"
| "split2 sep (c # cs) =
     (if c = sep then [[], cs]
      else case split2 sep cs of (p # ps) \<Rightarrow> (c # p) # ps | [] \<Rightarrow> [[c]])"

definition encodeCursor :: "int \<Rightarrow> int \<Rightarrow> string" where
  "encodeCursor i ts = EncodeToString (FormatInt i @ ''|'' @ FormatInt ts)"

definition parseCursor :: "string \<Rightarrow> (int \<times> int) option" where
  "parseCursor cursor =
     (case DecodeString (TrimSpace cursor) of
        None \<Rightarrow> None
      | Some raw \<Rightarrow>
          (case split2 (CHR ''|'') raw of
             [p, q] \<Rightarrow>
               (case (ParseInt p, ParseInt q) of
                  (Some i, Some ts) \<Rightarrow> Some (i, ts)
                | _ \<Rightarrow> None)
           | _ \<Rightarrow> None))"

lemma split2_first: "sep \<notin> set p \<Longrightarrow> split2 sep (p @ sep # q) = [p, q]"
  by (induction p) auto

lemma cursor_sep: "CHR ''|'' \<notin> set (FormatInt i)"
  using FormatInt_chars [of "CHR ''|''" i] not_digit_sign by auto

section \<open>CRC-32 and the outbox shards\<close>

definition crc_bit :: "32 word \<Rightarrow> 32 word" where
  "crc_bit c = (if c AND 1 = 1 then drop_bit 1 c XOR 0xEDB88320 else drop_bit 1 c)"

definition crc_byte :: "32 word \<Rightarrow> char \<Rightarrow> 32 word" where
  "crc_byte c b = (crc_bit ^^ 8) (c XOR word_of_nat (of_char b))"

definition ChecksumIEEE :: "string \<Rightarrow> 32 word" where
  "ChecksumIEEE s = NOT (foldl crc_byte (NOT 0) s)"

definition OutboxShardCount :: nat where
  "OutboxShardCount = 1024"

definition OutboxShardID :: "int \<Rightarrow> nat" where
  "OutboxShardID conversationID =
     unat (ChecksumIEEE (FormatInt conversationID) mod word_of_nat OutboxShardCount)"

function shards_from :: "int \<Rightarrow> int \<Rightarrow> int list" where
  "shards_from shardID workerCount =
     (if 0 < workerCount \<and> shardID < int OutboxShardCount
      then shardID # shards_from (shardID + workerCount) workerCount else [])"
  by pat_completeness auto
termination
  by (relation "measure (\<lambda>(s, w). nat (int OutboxShardCount - s))") (auto simp: OutboxShardCount_def)

declare shards_from.simps [simp del]

definition OutboxShardsForWorker :: "int \<Rightarrow> int \<Rightarrow> int list" where
  "OutboxShardsForWorker workerID workerCount =
     (if workerCount \<le> 0 \<or> workerID < 0 \<or> workerCount \<le> workerID then []
      else shards_from workerID workerCount)"

lemma shards_from_set:
  "0 < n \<Longrightarrow> x \<in> set (shards_from s n) \<longleftrightarrow> s \<le> x \<and> x < int OutboxShardCount \<and> (x - s) mod n = 0"
proof (induction s n rule: shards_from.induct)
  case (1 s n)
  show ?case
  proof (cases "s < int OutboxShardCount")
    case False
    then show ?thesis by (subst shards_from.simps) auto
  next
    case True
    have "x \<in> set (shards_from s n) \<longleftrightarrow> x = s \<or> x \<in> set (shards_from (s + n) n)"
      using 1(2) True by (subst shards_from.simps) auto
    also have "\<dots> \<longleftrightarrow> x = s \<or> (s + n \<le> x \<and> x < int OutboxShardCount \<and> (x - (s + n)) mod n = 0)"
      using 1 True by simp
    also have "\<dots> \<longleftrightarrow> s \<le> x \<and> x < int OutboxShardCount \<and> (x - s) mod n = 0"
    proof -
      have "(x - (s + n)) mod n = (x - s) mod n"
        by (metis diff_diff_eq minus_mod_self2)
      moreover have "s + n \<le> x" if "s \<le> x" "x \<noteq> s" "(x - s) mod n = 0"
      proof -
        from that(3) have "n dvd x - s" by auto
        then have "n \<le> x - s" using that(1,2) by (intro zdvd_imp_le) auto
        then show ?thesis by simp
      qed
      ultimately show ?thesis using True 1(2) by auto
    qed
    finally show ?thesis .
  qed
qed

lemma shards_from_distinct: "0 < n \<Longrightarrow> distinct (shards_from s n)"
proof (induction s n rule: shards_from.induct)
  case (1 s n)
  then show ?case
    by (subst shards_from.simps) (auto simp: shards_from_set)
qed

lemma OutboxShardsForWorker_set:
  assumes "0 < n" and "0 \<le> w" and "w < n"
  shows "x \<in> set (OutboxShardsForWorker w n) \<longleftrightarrow> 0 \<le> x \<and> x < int OutboxShardCount \<and> x mod n = w"
proof -
  have "(x - w) mod n = 0 \<and> w \<le> x \<longleftrightarrow> 0 \<le> x \<and> x mod n = w"
  proof
    assume *: "(x - w) mod n = 0 \<and> w \<le> x"
    then have "x mod n = w mod n" by (metis mod_eq_dvd_iff mod_0_imp_dvd)
    with * assms show "0 \<le> x \<and> x mod n = w" by simp
  next
    assume *: "0 \<le> x \<and> x mod n = w"
    then have "w \<le> x" using assms by (metis zmod_le_nonneg_dividend)
    moreover have "(x - w) mod n = 0" using * by (metis mod_self diff_self mod_diff_right_eq mod_diff_left_eq mod_0)
    ultimately show "(x - w) mod n = 0 \<and> w \<le> x" by simp
  qed
  with assms show ?thesis by (auto simp: OutboxShardsForWorker_def shards_from_set)
qed

lemma OutboxShardID_bound: "OutboxShardID c < OutboxShardCount"
  by (simp add: OutboxShardID_def OutboxShardCount_def unat_mod)

text \<open>The vector that \<open>outbox_shard_test.go\<close> fixes.\<close>

lemma funpow_8: "(f ^^ 8) x = f (f (f (f (f (f (f (f x)))))))"
  by (simp add: numeral_eq_Suc)

lemma FormatInt_10: "FormatInt 10 = ''10''"
  by code_simp

lemma OutboxShardID_stable: "OutboxShardID 10 = 481"
  by (simp add: OutboxShardID_def OutboxShardCount_def FormatInt_10 ChecksumIEEE_def crc_byte_def
      funpow_8 crc_bit_def)

lemma parseCursor_encodeCursor:
  "in_int64 i \<Longrightarrow> in_int64 ts \<Longrightarrow> parseCursor (encodeCursor i ts) = Some (i, ts)"
  by (simp add: parseCursor_def encodeCursor_def decode_trimmed split2_first [OF cursor_sep] ParseInt_FormatInt)

lemma encodeCursor_ne: "encodeCursor i ts \<noteq> []"
proof
  assume "encodeCursor i ts = []"
  then have "DecodeString [] = Some (FormatInt i @ ''|'' @ FormatInt ts)"
    unfolding encodeCursor_def using DecodeString_EncodeToString by metis
  moreover have "DecodeString [] = Some []" by (simp add: DecodeString_def)
  ultimately show False by simp
qed
section \<open>Properties\<close>

text \<open>
  C37: The opaque cursors handed to clients are read back exactly: the conversation list cursor
  (id and timestamp) and the user search cursor, for every 64-bit value.
\<close>

theorem cursor_roundtrip:
  assumes "in_int64 i" and "in_int64 ts"
  shows "parseCursor (encodeCursor i ts) = Some (i, ts) \<and> parseOpaqueCursor (encodeOpaqueCursor i) = Some i"
  using assms
  by (simp add: parseCursor_def encodeCursor_def parseOpaqueCursor_def encodeOpaqueCursor_def
      decode_trimmed split2_first [OF cursor_sep] ParseInt_FormatInt)

lemma cursor_roundtrip_witness:
  "parseCursor (encodeCursor 42 (-7)) = Some (42, -7) \<and> parseOpaqueCursor (encodeOpaqueCursor 42) = Some 42
   \<and> encodeCursor 42 (-7) = ''NDJ8LTc''"
proof -
  have "encodeCursor 42 (-7) = ''NDJ8LTc''" by code_simp
  moreover have "in_int64 42" "in_int64 (-7)"
    by (simp_all add: in_int64_def int64_min_def int64_max_def)
  ultimately show ?thesis using cursor_roundtrip by blast
qed

text \<open>
  The outbox shards are partitioned among the publisher slots: every shard is owned by exactly
  one of the workers, no list repeats a shard, and the shard of every conversation is one of the
  1024, so every conversation is served by exactly one slot.
\<close>

theorem shards_partition:
  assumes "0 < n"
  shows "(\<exists>!w. 0 \<le> w \<and> w < n \<and> int (OutboxShardID c) \<in> set (OutboxShardsForWorker w n))
    \<and> (\<forall>w. distinct (OutboxShardsForWorker w n))"
proof
  have "int (OutboxShardID c) mod n \<ge> 0" "int (OutboxShardID c) mod n < n" using assms by simp_all
  then show "\<exists>!w. 0 \<le> w \<and> w < n \<and> int (OutboxShardID c) \<in> set (OutboxShardsForWorker w n)"
    using OutboxShardsForWorker_set [OF assms] OutboxShardID_bound [of c]
    by (intro ex1I [of _ "int (OutboxShardID c) mod n"]) auto
  show "\<forall>w. distinct (OutboxShardsForWorker w n)"
    using shards_from_distinct [OF assms] by (simp add: OutboxShardsForWorker_def)
qed

lemma shards_partition_witness:
  "(\<exists>!w. 0 \<le> w \<and> w < 7 \<and> int (OutboxShardID 10) \<in> set (OutboxShardsForWorker w 7))
   \<and> 481 \<in> set (OutboxShardsForWorker 5 7)"
  using shards_partition [of 7 10] OutboxShardsForWorker_set [of 7 5 481]
  by (simp add: OutboxShardCount_def OutboxShardID_stable)

end
