(* ===== verification/Content.thy ===== *)
theory Content
  imports Errs
begin

text \<open>
  \<open>internal/message/model.go\<close>: the message entity, the validation of the message body and the
  preview for the conversation list. Text is a list of code points (what \<open>[]rune(text)\<close> gives);
  raw JSON is kept as its parse tree, or as bytes that do not parse.
\<close>

type_synonym runes = "nat list"

section \<open>JSON\<close>

datatype json =
    JNull | JBool bool | JNum int | JStr runes | JArr "json list" | JObj "(string \<times> json) list"

text \<open>\<open>json.RawMessage\<close>: no bytes, bytes that are not JSON, or a JSON value.\<close>

datatype raw = Raw_none | Raw_bad string | Raw_json json

definition lower_ascii :: "string \<Rightarrow> string" where
  "lower_ascii s =
     map (\<lambda>c. let n = of_char c :: nat in if 65 \<le> n \<and> n \<le> 90 then char_of (n + 32) else c) s"

text \<open>
  \<open>json.Unmarshal\<close> into a structure with the one field \<open>text\<close>: object keys match without regard
  to case, the last one wins, \<open>null\<close> leaves the field alone, any other type is an error that is
  reported after the whole object was read.
\<close>

fun decode_text_fields :: "(string \<times> json) list \<Rightarrow> runes \<Rightarrow> bool \<Rightarrow> runes \<times> bool" where
  "decode_text_fields [] t bad = (t, bad)"
| "decode_text_fields ((k, v) # fs) t bad =
     (if lower_ascii k = ''text''
      then (case v of
              JStr s \<Rightarrow> decode_text_fields fs s bad
            | JNull \<Rightarrow> decode_text_fields fs t bad
            | _ \<Rightarrow> decode_text_fields fs t True)
      else decode_text_fields fs t bad)"

fun decode_text :: "raw \<Rightarrow> runes option" where
  "decode_text Raw_none = None"
| "decode_text (Raw_bad b) = None"
| "decode_text (Raw_json JNull) = Some []"
| "decode_text (Raw_json (JObj fs)) =
     (case decode_text_fields fs [] False of (t, bad) \<Rightarrow> if bad then None else Some t)"
| "decode_text (Raw_json _) = None"

section \<open>The message\<close>

definition TypeText :: int where "TypeText = 1"
definition TypeImage :: int where "TypeImage = 2"
definition TypeFile :: int where "TypeFile = 3"
definition StatusNormal :: int where "StatusNormal = 1"
definition MaxTextLen :: nat where "MaxTextLen = 4000"

record message =
  m_id :: int
  m_client_id :: string
  m_conv :: int
  m_seq :: int
  m_sender :: int
  m_type :: int
  m_content :: raw
  m_preview :: runes
  m_status :: int
  m_recalled_by :: "int option"
  m_recalled_at :: "int option"
  m_client_sent :: "int option"
  m_created :: int

definition ContentText :: "message \<Rightarrow> runes" where
  "ContentText m =
     (if m_type m \<noteq> TypeText then []
      else case decode_text (m_content m) of None \<Rightarrow> [] | Some t \<Rightarrow> t)"

definition ErrTypeNotSupported :: gerr where
  "ErrTypeNotSupported = New InvalidArgument ''only text messages are supported''"
definition ErrEmptyContent :: gerr where
  "ErrEmptyContent = New InvalidArgument ''empty message content''"
definition ErrBadContent :: gerr where
  "ErrBadContent = New InvalidArgument ''malformed message content''"
definition ErrTooLarge :: gerr where
  "ErrTooLarge = New MessageTooLarge ''message too large''"

definition ValidateContent :: "int \<Rightarrow> raw \<Rightarrow> gerr option" where
  "ValidateContent messageType content =
     (if messageType \<noteq> TypeText then Some ErrTypeNotSupported
      else if content = Raw_none \<or> content = Raw_json JNull then Some ErrEmptyContent
      else case decode_text content of
             None \<Rightarrow> Some ErrBadContent
           | Some t \<Rightarrow>
               if t = [] then Some ErrEmptyContent
               else if MaxTextLen < length t then Some ErrTooLarge
               else None)"

text \<open>The three dots are the code point 46.\<close>

definition TruncatePreview :: "runes \<Rightarrow> runes" where
  "TruncatePreview t = (if length t \<le> 100 then t else take 100 t @ [46, 46, 46])"

definition Preview :: "raw \<Rightarrow> int \<Rightarrow> runes" where
  "Preview content messageType =
     (if messageType = TypeText
      then (case decode_text content of Some t \<Rightarrow> TruncatePreview t | None \<Rightarrow> [])
      else [])"

lemma Preview_length: "length (Preview content t) \<le> 103"
  by (simp add: Preview_def TruncatePreview_def split: option.split)

lemma ValidateContent_ok:
  "ValidateContent t c = None \<longleftrightarrow>
     t = TypeText \<and> (\<exists>s. decode_text c = Some s \<and> s \<noteq> [] \<and> length s \<le> MaxTextLen)"
  by (auto simp: ValidateContent_def split: option.splits if_splits)

lemma ValidateContent_valid_json: "ValidateContent t c = None \<Longrightarrow> \<exists>fs. c = Raw_json (JObj fs)"
  by (auto simp: ValidateContent_ok elim!: decode_text.elims)

lemma ValidateContent_business:
  assumes "ValidateContent t c = Some e"
  shows "\<exists>k m. e = New k m \<and> k \<in> {InvalidArgument, MessageTooLarge}"
  using assms
  by (auto simp: ValidateContent_def ErrTypeNotSupported_def ErrEmptyContent_def ErrBadContent_def
      ErrTooLarge_def New_def split: option.splits if_splits)

section \<open>Properties\<close>

text \<open>
  The gateway and the persist worker accept exactly the bodies that \<open>ContentText\<close> can show:
  a text message passes validation if and only if it parses to an object with a non-empty text of
  at most 4000 characters; the conversation list then shows that text, cut to 100 characters and
  three dots, which always fits the 255 characters of the preview columns.
\<close>

theorem validated_content_has_preview:
  "(ValidateContent (m_type m) (m_content m) = None \<longleftrightarrow>
      m_type m = TypeText \<and> ContentText m \<noteq> [] \<and> length (ContentText m) \<le> 4000)
   \<and> Preview (m_content m) (m_type m)
       = (if m_type m = TypeText then TruncatePreview (ContentText m) else [])
   \<and> length (Preview (m_content m) (m_type m)) \<le> 255"
  by (auto simp: ValidateContent_ok ContentText_def MaxTextLen_def Preview_def TruncatePreview_def
      split: option.splits if_splits)

end
