(* ===== verification/Db.thy ===== *)
theory Db
  imports Content Codec
begin

text \<open>
  The MySQL database: the rows of \<open>internal/infrastructure/mysql/model\<close>, the tables, and the three
  ways in which the repositories use it - a query, a single statement, a transaction - against
  a list of faults still to come. Times are UTC milliseconds, the precision of \<open>DATETIME(3)\<close>.
  \<open>google/uuid\<close> is third-party code and a parameter: how a text is read as 16 bytes and how 16
  bytes are printed.
\<close>

record uuid_lib =
  uuid_parse :: "string \<Rightarrow> nat list option"
  uuid_format :: "nat list \<Rightarrow> string"

section \<open>Rows\<close>

record user_row =
  ur_id :: int
  ur_username :: runes
  ur_password_hash :: string
  ur_nickname :: runes
  ur_avatar :: string
  ur_status :: int
  ur_created :: int

record conv_row =
  cr_id :: int
  cr_type :: int
  cr_low :: "int option"
  cr_high :: "int option"
  cr_name :: runes
  cr_avatar :: string
  cr_owner :: int
  cr_status :: int
  cr_last_seq :: int
  cr_last_mid :: "int option"
  cr_last_type :: "int option"
  cr_last_preview :: runes
  cr_last_at :: "int option"
  cr_created :: int
  cr_updated :: int

record member_row =
  mb_conv :: int
  mb_user :: int
  mb_role :: int
  mb_status :: int
  mb_joined_seq :: int
  mb_received_seq :: int
  mb_read_seq :: int
  mb_clear_before_seq :: int
  mb_mute_until :: "int option"
  mb_created :: int

record msg_row =
  mr_id :: int
  mr_conv :: int
  mr_seq :: int
  mr_sender :: int
  mr_client :: "nat list"
  mr_type :: int
  mr_content :: raw
  mr_preview :: runes
  mr_status :: int
  mr_recalled_by :: "int option"
  mr_recalled_at :: "int option"
  mr_client_sent :: "int option"
  mr_created :: int

text \<open>
  \<open>MessagePersistedEvent\<close>, and the JSON column that holds it: an event, or a JSON document that
  does not unmarshal into one, of which MySQL can still extract the conversation and the seq
  (\<open>None\<close> is SQL's NULL).
\<close>

record persisted_event =
  pe_mid :: int
  pe_seq :: int
  pe_sender :: int
  pe_client_id :: string
  pe_conv :: int
  pe_type :: int
  pe_content :: raw
  pe_preview :: runes
  pe_created :: int
  pe_members :: "int list"

datatype payload = Event persisted_event | Corrupt "int option" "int option" string

fun payload_conv :: "payload \<Rightarrow> int option" where
  "payload_conv (Event e) = Some (pe_conv e)"
| "payload_conv (Corrupt c s b) = c"

fun payload_seq :: "payload \<Rightarrow> int option" where
  "payload_seq (Event e) = Some (pe_seq e)"
| "payload_seq (Corrupt c s b) = s"

datatype outbox_status = OutboxPending | OutboxPublished | OutboxRetrying | OutboxDead | OutboxDLQPending

record outbox_row =
  ob_mid :: int
  ob_event :: int
  ob_shard :: nat
  ob_payload :: payload
  ob_status :: outbox_status
  ob_retry_count :: int
  ob_next_retry :: int
  ob_locked_by :: "string option"
  ob_locked_at :: "int option"
  ob_published_at :: "int option"
  ob_last_error :: string
  ob_created :: int

definition OutboxEventPush :: int where "OutboxEventPush = 1"

record db =
  d_users :: "user_row list"
  d_convs :: "conv_row list"
  d_members :: "member_row list"
  d_msgs :: "msg_row list"
  d_outbox :: "outbox_row list"

definition empty_db :: db where
  "empty_db = \<lparr>d_users = [], d_convs = [], d_members = [], d_msgs = [], d_outbox = []\<rparr>"

text \<open>The zero value of \<open>time.Time\<close>, in Unix milliseconds.\<close>

definition zero_time :: int where "zero_time = - 62135596800000"

section \<open>Access\<close>

type_synonym mysql = "db \<times> gerr fault list"

definition db_query :: "(db \<Rightarrow> 'a) \<Rightarrow> mysql \<Rightarrow> (gerr + 'a) \<times> mysql" where
  "db_query q ms =
     (case pop_fault (snd ms) of (f, fs) \<Rightarrow>
        (case fault_error f of
           Some e \<Rightarrow> (Inl e, (fst ms, fs))
         | None \<Rightarrow> (Inr (q (fst ms)), (fst ms, fs))))"

text \<open>A statement that changes rows and answers, for instance, the number of rows affected.\<close>

definition db_exec :: "(db \<Rightarrow> 'a \<times> db) \<Rightarrow> mysql \<Rightarrow> (gerr + 'a) \<times> mysql" where
  "db_exec stmt ms =
     (case pop_fault (snd ms) of (f, fs) \<Rightarrow>
        (case stmt (fst ms) of (a, d') \<Rightarrow>
           (case f of
              Reply \<Rightarrow> (Inr a, (d', fs))
            | Lost e \<Rightarrow> (Inl e, (fst ms, fs))
            | AckLost e \<Rightarrow> (Inl e, (d', fs)))))"

text \<open>
  A transaction: its body answers an error (and is rolled back) or a value with the new tables; a
  statement or the commit can fail, and the commit can be done although its answer is lost.
\<close>

definition db_tx :: "(db \<Rightarrow> (gerr + 'a) \<times> db) \<Rightarrow> mysql \<Rightarrow> (gerr + 'a) \<times> mysql" where
  "db_tx body ms =
     (case pop_fault (snd ms) of (f, fs) \<Rightarrow>
        (case body (fst ms) of
           (Inl e, _) \<Rightarrow>
             (Inl (case fault_error f of Some e' \<Rightarrow> e' | None \<Rightarrow> e), (fst ms, fs))
         | (Inr a, d') \<Rightarrow>
             (case f of
                Reply \<Rightarrow> (Inr a, (d', fs))
              | Lost e \<Rightarrow> (Inl e, (fst ms, fs))
              | AckLost e \<Rightarrow> (Inl e, (d', fs)))))"

definition wrap_internal :: "gerr + 'a \<Rightarrow> gerr + 'a" where
  "wrap_internal r = (case r of Inl e \<Rightarrow> Inl (Internal (Some e)) | Inr a \<Rightarrow> Inr a)"

lemma wrap_internal_simps [simp]:
  "wrap_internal (Inl e) = Inl (Internal (Some e))" "wrap_internal (Inr a) = Inr a"
  by (simp_all add: wrap_internal_def)

lemma wrap_internal_Inr [simp]: "wrap_internal r = Inr a \<longleftrightarrow> r = Inr a"
  by (cases r) simp_all

lemma db_query_cases:
  "db_query q ms = (r, ms') \<Longrightarrow> fst ms' = fst ms \<and> (r = Inr (q (fst ms)) \<or> (\<exists>e. r = Inl e))"
  by (auto simp: db_query_def split: prod.splits option.splits)

lemma db_query_ok [simp]: "db_query q (d, []) = (Inr (q d), (d, []))"
  by (simp add: db_query_def)

lemma db_exec_cases:
  "db_exec stmt ms = (r, ms') \<Longrightarrow>
     (fst ms' = fst ms \<and> (\<exists>e. r = Inl e))
   \<or> (fst ms' = snd (stmt (fst ms)) \<and> (r = Inr (fst (stmt (fst ms))) \<or> (\<exists>e. r = Inl e)))"
  by (auto simp: db_exec_def split: prod.splits fault.splits)

lemma db_exec_ok [simp]: "db_exec stmt (d, []) = (Inr (fst (stmt d)), (snd (stmt d), []))"
  by (simp add: db_exec_def split: prod.split)

lemma db_tx_cases:
  "db_tx body ms = (r, ms') \<Longrightarrow>
     (fst ms' = fst ms \<and> (\<exists>e. r = Inl e))
   \<or> (\<exists>a. fst (body (fst ms)) = Inr a \<and> fst ms' = snd (body (fst ms)) \<and> (r = Inr a \<or> (\<exists>e. r = Inl e)))"
  by (auto simp: db_tx_def split: prod.splits sum.splits fault.splits option.splits)

lemma db_tx_ok:
  "db_tx body (d, []) =
     (case body d of (Inl e, _) \<Rightarrow> (Inl e, (d, [])) | (Inr a, d') \<Rightarrow> (Inr a, (d', [])))"
  by (simp add: db_tx_def split: prod.split sum.split)

text \<open>\<open>isDuplicateKey\<close>: a MySQL error 1062 in the chain.\<close>

fun isDuplicateKey :: "gerr \<Rightarrow> bool" where
  "isDuplicateKey (MySQLError n) \<longleftrightarrow> n = 1062"
| "isDuplicateKey (Biz _ _ _ _ (Some e)) \<longleftrightarrow> isDuplicateKey e"
| "isDuplicateKey (Wrapped _ e) \<longleftrightarrow> isDuplicateKey e"
| "isDuplicateKey _ \<longleftrightarrow> False"

definition duplicate_key :: gerr where "duplicate_key = MySQLError 1062"
definition invalid_json_text :: gerr where "invalid_json_text = MySQLError 3140"

text \<open>\<open>LIMIT n\<close>; gorm omits a negative limit.\<close>

definition sql_limit :: "int \<Rightarrow> 'a list \<Rightarrow> 'a list" where
  "sql_limit n xs = (if n < 0 then xs else take (nat n) xs)"

text \<open>\<open>UPDATE ... SET f WHERE P\<close>.\<close>

definition update_where :: "('a \<Rightarrow> bool) \<Rightarrow> ('a \<Rightarrow> 'a) \<Rightarrow> 'a list \<Rightarrow> 'a list" where
  "update_where P f rows = map (\<lambda>r. if P r then f r else r) rows"

definition affected :: "('a \<Rightarrow> bool) \<Rightarrow> 'a list \<Rightarrow> nat" where
  "affected P rows = length (filter P rows)"

lemma map_update_where:
  "(\<And>r. P r \<Longrightarrow> g (f r) = g r) \<Longrightarrow> map g (update_where P f rows) = map g rows"
  by (simp add: update_where_def)

lemma set_update_where: "x \<in> set (update_where P f rows) \<longleftrightarrow>
    (x \<in> set rows \<and> \<not> P x) \<or> (\<exists>r \<in> set rows. P r \<and> x = f r)"
  by (auto simp: update_where_def)

lemma update_where_mem: "r \<in> set rows \<Longrightarrow> (if P r then f r else r) \<in> set (update_where P f rows)"
  by (auto simp: update_where_def)

lemma length_update_where [simp]: "length (update_where P f rows) = length rows"
  by (simp add: update_where_def)

lemma filter_update_where:
  "(\<And>r. P r \<Longrightarrow> Q (f r) = Q r) \<Longrightarrow> filter Q (update_where P f rows) = update_where P f (filter Q rows)"
  by (induction rows) (auto simp: update_where_def)

lemma find_update_where:
  "(\<And>r. P r \<Longrightarrow> Q (f r) = Q r) \<Longrightarrow>
   find Q (update_where P f rows) = map_option (\<lambda>r. if P r then f r else r) (find Q rows)"
  by (induction rows) (auto simp: update_where_def)

lemma find_Some_set: "find P xs = Some x \<Longrightarrow> x \<in> set xs \<and> P x"
  by (induction xs) (auto split: if_splits)

lemma find_key:
  "distinct (map k xs) \<Longrightarrow> x \<in> set xs \<Longrightarrow> find (\<lambda>y. k y = k x) xs = Some x"
  by (induction xs) (auto simp: image_iff)

end
