(* ===== verification/MessageRepo.thy ===== *)
theory MessageRepo
  imports Db
begin

text \<open>
  \<open>mysql/repository/message_repository.go\<close>: queries of the history, the persistence transaction
  that allocates the sequence number, and the two cursors of a member.
\<close>

section \<open>Queries\<close>

definition toDomainMessage :: "uuid_lib \<Rightarrow> msg_row \<Rightarrow> message" where
  "toDomainMessage U r =
     \<lparr>m_id = mr_id r, m_client_id = uuid_format U (mr_client r), m_conv = mr_conv r,
      m_seq = mr_seq r, m_sender = mr_sender r, m_type = mr_type r, m_content = mr_content r,
      m_preview = mr_preview r, m_status = mr_status r, m_recalled_by = mr_recalled_by r,
      m_recalled_at = mr_recalled_at r, m_client_sent = mr_client_sent r,
      m_created = mr_created r\<rparr>"

definition msg_by_client :: "int \<Rightarrow> nat list \<Rightarrow> db \<Rightarrow> msg_row option" where
  "msg_by_client s raw d = find (\<lambda>r. mr_sender r = s \<and> mr_client r = raw) (d_msgs d)"

definition FindByID :: "uuid_lib \<Rightarrow> int \<Rightarrow> mysql \<Rightarrow> (gerr + message option) \<times> mysql" where
  "FindByID U mid ms =
     (case db_query (\<lambda>d. find (\<lambda>r. mr_id r = mid) (d_msgs d)) ms of
        (r, ms') \<Rightarrow> (map_sum id (map_option (toDomainMessage U)) (wrap_internal r), ms'))"

definition bad_client_id :: gerr where
  "bad_client_id = New InvalidArgument ''client_msg_id is malformed''"

definition FindByClientMessageID ::
  "uuid_lib \<Rightarrow> int \<Rightarrow> string \<Rightarrow> mysql \<Rightarrow> (gerr + message option) \<times> mysql" where
  "FindByClientMessageID U s cid ms =
     (case uuid_parse U cid of
        None \<Rightarrow> (Inl bad_client_id, ms)
      | Some raw \<Rightarrow>
          (case db_query (msg_by_client s raw) ms of
             (r, ms') \<Rightarrow> (map_sum id (map_option (toDomainMessage U)) (wrap_internal r), ms')))"

definition rows_before :: "int \<Rightarrow> int \<Rightarrow> int \<Rightarrow> db \<Rightarrow> msg_row list" where
  "rows_before c before limit d =
     sql_limit limit (sort_key (\<lambda>r. - mr_seq r)
       (filter (\<lambda>r. mr_conv r = c \<and> (0 < before \<longrightarrow> mr_seq r < before)) (d_msgs d)))"

definition rows_after :: "int \<Rightarrow> int \<Rightarrow> int \<Rightarrow> db \<Rightarrow> msg_row list" where
  "rows_after c after limit d =
     sql_limit limit (sort_key mr_seq
       (filter (\<lambda>r. mr_conv r = c \<and> after < mr_seq r) (d_msgs d)))"

definition ListBefore ::
  "uuid_lib \<Rightarrow> int \<Rightarrow> int \<Rightarrow> int \<Rightarrow> mysql \<Rightarrow> (gerr + message list) \<times> mysql" where
  "ListBefore U c before limit ms =
     (case db_query (rows_before c before limit) ms of
        (r, ms') \<Rightarrow> (map_sum id (map (toDomainMessage U)) (wrap_internal r), ms'))"

definition ListAfter ::
  "uuid_lib \<Rightarrow> int \<Rightarrow> int \<Rightarrow> int \<Rightarrow> mysql \<Rightarrow> (gerr + message list) \<times> mysql" where
  "ListAfter U c after limit ms =
     (case db_query (rows_after c after limit) ms of
        (r, ms') \<Rightarrow> (map_sum id (map (toDomainMessage U)) (wrap_internal r), ms'))"

section \<open>The persistence transaction\<close>

text \<open>
  An insert into \<open>messages\<close> is refused when the content is not JSON or when it violates the
  primary key (conversation, seq) or one of the unique keys (id) and (sender, client id).
\<close>

definition insert_message :: "msg_row \<Rightarrow> db \<Rightarrow> gerr + db" where
  "insert_message row d =
     (case mr_content row of
        Raw_json _ \<Rightarrow>
          if list_ex (\<lambda>r. (mr_conv r = mr_conv row \<and> mr_seq r = mr_seq row) \<or> mr_id r = mr_id row
                \<or> (mr_sender r = mr_sender row \<and> mr_client r = mr_client row)) (d_msgs d)
          then Inl duplicate_key
          else Inr (d\<lparr>d_msgs := d_msgs d @ [row]\<rparr>)
      | _ \<Rightarrow> Inl invalid_json_text)"

definition insert_outbox :: "outbox_row \<Rightarrow> db \<Rightarrow> gerr + db" where
  "insert_outbox row d =
     (if list_ex (\<lambda>r. ob_mid r = ob_mid row \<and> ob_event r = ob_event row) (d_outbox d)
      then Inl duplicate_key
      else Inr (d\<lparr>d_outbox := d_outbox d @ [row]\<rparr>))"

definition conv_not_found :: gerr where
  "conv_not_found = New ConversationNotFound ''conversation missing or dismissed''"

definition message_row :: "message \<Rightarrow> nat list \<Rightarrow> int \<Rightarrow> int \<Rightarrow> msg_row" where
  "message_row m raw next_seq now =
     \<lparr>mr_id = m_id m, mr_conv = m_conv m, mr_seq = next_seq, mr_sender = m_sender m,
      mr_client = raw, mr_type = m_type m, mr_content = m_content m, mr_preview = m_preview m,
      mr_status = StatusNormal, mr_recalled_by = None, mr_recalled_at = None,
      mr_client_sent = m_client_sent m, mr_created = now\<rparr>"

definition event_of :: "message \<Rightarrow> int list \<Rightarrow> int \<Rightarrow> int \<Rightarrow> persisted_event" where
  "event_of m members next_seq now =
     \<lparr>pe_mid = m_id m, pe_seq = next_seq, pe_sender = m_sender m, pe_client_id = m_client_id m,
      pe_conv = m_conv m, pe_type = m_type m, pe_content = m_content m, pe_preview = m_preview m,
      pe_created = now, pe_members = members\<rparr>"

definition outbox_of :: "message \<Rightarrow> int list \<Rightarrow> int \<Rightarrow> int \<Rightarrow> outbox_row" where
  "outbox_of m members next_seq now =
     \<lparr>ob_mid = m_id m, ob_event = OutboxEventPush, ob_shard = OutboxShardID (m_conv m),
      ob_payload = Event (event_of m members next_seq now), ob_status = OutboxPending,
      ob_retry_count = 0, ob_next_retry = now, ob_locked_by = None, ob_locked_at = None,
      ob_published_at = None, ob_last_error = '''', ob_created = now\<rparr>"

definition bump_row :: "message \<Rightarrow> int \<Rightarrow> int \<Rightarrow> conv_row \<Rightarrow> conv_row" where
  "bump_row m next_seq now c =
     c\<lparr>cr_last_seq := next_seq, cr_last_mid := Some (m_id m), cr_last_type := Some (m_type m),
       cr_last_preview := m_preview m, cr_last_at := Some now, cr_updated := now\<rparr>"

definition bump_conversation :: "message \<Rightarrow> int \<Rightarrow> int \<Rightarrow> db \<Rightarrow> db" where
  "bump_conversation m next_seq now d =
     d\<lparr>d_convs := update_where (\<lambda>c. cr_id c = m_conv m) (bump_row m next_seq now) (d_convs d)\<rparr>"

text \<open>
  The body of the transaction. The first read sees the snapshot \<open>snap\<close> of the transaction, which
  can be older than the tables \<open>d\<close> that the locking read and the inserts work on. The marshalling
  of the event cannot fail: MySQL has accepted the content as JSON.
\<close>

definition persist_tx ::
  "uuid_lib \<Rightarrow> int \<Rightarrow> db \<Rightarrow> nat list \<Rightarrow> message \<Rightarrow> int list \<Rightarrow> db \<Rightarrow> (gerr + message) \<times> db" where
  "persist_tx U now snap raw m members d =
     (case msg_by_client (m_sender m) raw snap of
        Some r \<Rightarrow> (Inr (toDomainMessage U r), d)
      | None \<Rightarrow>
          (case find (\<lambda>c. cr_id c = m_conv m \<and> cr_status c = 1) (d_convs d) of
             None \<Rightarrow> (Inl conv_not_found, d)
           | Some c \<Rightarrow>
               let next_seq = cr_last_seq c + 1 in
               (case insert_message (message_row m raw next_seq now) d of
                  Inl e \<Rightarrow> (Inl (if isDuplicateKey e then Sentinel ErrPersistDuplicate else e), d)
                | Inr d1 \<Rightarrow>
                    (case insert_outbox (outbox_of m members next_seq now)
                            (bump_conversation m next_seq now d1) of
                       Inl e \<Rightarrow> (Inl e, d)
                     | Inr d2 \<Rightarrow> (Inr (m\<lparr>m_seq := next_seq, m_created := now\<rparr>), d2)))))"

definition Persist_at ::
  "uuid_lib \<Rightarrow> int \<Rightarrow> db \<Rightarrow> message \<Rightarrow> int list \<Rightarrow> mysql \<Rightarrow> (gerr + message) \<times> mysql" where
  "Persist_at U now snap m members ms =
     (case uuid_parse U (m_client_id m) of
        None \<Rightarrow> (Inl bad_client_id, ms)
      | Some raw \<Rightarrow>
          (case db_tx (persist_tx U now snap raw m members) ms of
             (Inr res, ms') \<Rightarrow> (Inr res, ms')
           | (Inl err, ms') \<Rightarrow>
               if errors_Is err ErrPersistDuplicate
               then (case FindByClientMessageID U (m_sender m) (m_client_id m) ms' of
                       (Inl qerr, ms'') \<Rightarrow> (Inl qerr, ms'')
                     | (Inr None, ms'') \<Rightarrow>
                         (Inl (Internal (Some (OtherError ''duplicate key but no original message''))),
                          ms'')
                     | (Inr (Some dup), ms'') \<Rightarrow> (Inr dup, ms''))
               else (Inl (Internal (Some err)), ms')))"

text \<open>A persist that no other transaction overlaps: its snapshot is the current state.\<close>

definition Persist :: "uuid_lib \<Rightarrow> int \<Rightarrow> message \<Rightarrow> int list \<Rightarrow> mysql \<Rightarrow> (gerr + message) \<times> mysql"
where
  "Persist U now m members ms = Persist_at U now (fst ms) m members ms"

section \<open>Cursors\<close>

definition cursor_target :: "int \<Rightarrow> int \<Rightarrow> int \<Rightarrow> (member_row \<Rightarrow> int) \<Rightarrow> db \<Rightarrow> member_row \<Rightarrow> bool" where
  "cursor_target c u seq current d r \<longleftrightarrow>
     mb_conv r = c \<and> mb_user r = u \<and> mb_status r = 1
     \<and> list_ex (\<lambda>cv. cr_id cv = mb_conv r \<and> seq \<le> cr_last_seq cv) (d_convs d) \<and> current r < seq"

definition AdvanceReceivedCursor :: "int \<Rightarrow> int \<Rightarrow> int \<Rightarrow> mysql \<Rightarrow> gerr option \<times> mysql" where
  "AdvanceReceivedCursor c u seq ms =
     (case db_exec (\<lambda>d. ((), d\<lparr>d_members :=
              update_where (cursor_target c u seq mb_received_seq d)
                (\<lambda>r. r\<lparr>mb_received_seq := seq\<rparr>) (d_members d)\<rparr>)) ms of
        (Inl e, ms') \<Rightarrow> (Some (Internal (Some e)), ms')
      | (Inr _, ms') \<Rightarrow> (None, ms'))"

definition AdvanceReadCursor :: "int \<Rightarrow> int \<Rightarrow> int \<Rightarrow> mysql \<Rightarrow> gerr option \<times> mysql" where
  "AdvanceReadCursor c u seq ms =
     (case db_exec (\<lambda>d. ((), d\<lparr>d_members :=
              update_where (cursor_target c u seq mb_read_seq d)
                (\<lambda>r. r\<lparr>mb_read_seq := seq\<rparr>) (d_members d)\<rparr>)) ms of
        (Inl e, ms') \<Rightarrow> (Some (Internal (Some e)), ms')
      | (Inr _, ms') \<Rightarrow> (None, ms'))"

section \<open>What the transaction does\<close>

text \<open>
  A successful body either reuses a row of the snapshot and changes nothing, or appends one
  message with the next sequence number of its conversation, its outbox row, and the summary.
\<close>

lemma persist_tx_cases:
  assumes "persist_tx U now snap raw m members d = (Inr res, d')"
  obtains (reused) r where "msg_by_client (m_sender m) raw snap = Some r"
      "res = toDomainMessage U r" "d' = d"
    | (inserted) c where "msg_by_client (m_sender m) raw snap = None"
      "c \<in> set (d_convs d)" "cr_id c = m_conv m" "cr_status c = 1"
      "res = m\<lparr>m_seq := cr_last_seq c + 1, m_created := now\<rparr>"
      "\<not> list_ex (\<lambda>r. (mr_conv r = m_conv m \<and> mr_seq r = cr_last_seq c + 1) \<or> mr_id r = m_id m
          \<or> (mr_sender r = m_sender m \<and> mr_client r = raw)) (d_msgs d)"
      "\<not> list_ex (\<lambda>r. ob_mid r = m_id m \<and> ob_event r = OutboxEventPush) (d_outbox d)"
      "d' = d\<lparr>d_convs := d_convs (bump_conversation m (cr_last_seq c + 1) now d),
              d_msgs := d_msgs d @ [message_row m raw (cr_last_seq c + 1) now],
              d_outbox := d_outbox d @ [outbox_of m members (cr_last_seq c + 1) now]\<rparr>"
proof (cases "msg_by_client (m_sender m) raw snap")
  case (Some r)
  with assms reused show ?thesis by (simp add: persist_tx_def)
next
  case None
  with assms obtain c where c: "find (\<lambda>c. cr_id c = m_conv m \<and> cr_status c = 1) (d_convs d) = Some c"
    by (auto simp: persist_tx_def split: option.splits)
  from find_Some_set [OF c] None assms c inserted show ?thesis
    by (auto simp: persist_tx_def insert_message_def insert_outbox_def bump_conversation_def
        message_row_def outbox_of_def Let_def split: sum.splits if_splits raw.splits)
qed

end
