(* ===== verification/OutboxRepo.thy ===== *)
theory OutboxRepo
  imports MessageRepo "HOL-Library.Option_ord"
begin

text \<open>
  \<open>mysql/repository/outbox_repository.go\<close>: claiming the heads of the conversations of some shards
  under a lease, and the transitions of a claimed row (published, failed, retry of the
  dead-letter write, dead).
\<close>

section \<open>Rows in flight\<close>

fun unfinished :: "outbox_status \<Rightarrow> bool" where
  "unfinished OutboxPending = True"
| "unfinished OutboxRetrying = True"
| "unfinished OutboxDLQPending = True"
| "unfinished OutboxPublished = False"
| "unfinished OutboxDead = False"

definition row_conv :: "outbox_row \<Rightarrow> int option" where
  "row_conv r = payload_conv (ob_payload r)"

definition row_seq :: "outbox_row \<Rightarrow> int option" where
  "row_seq r = payload_seq (ob_payload r)"

text \<open>SQL comparisons: false as soon as one side is NULL.\<close>

fun sql_eq :: "int option \<Rightarrow> int option \<Rightarrow> bool" where
  "sql_eq (Some x) (Some y) \<longleftrightarrow> x = y"
| "sql_eq _ _ \<longleftrightarrow> False"

fun sql_less :: "int option \<Rightarrow> int option \<Rightarrow> bool" where
  "sql_less (Some x) (Some y) \<longleftrightarrow> x < y"
| "sql_less _ _ \<longleftrightarrow> False"

record outbox_record =
  or_mid :: int
  or_event :: int
  or_status :: outbox_status
  or_retry_count :: int
  or_last_error :: string
  or_shard :: nat
  or_conv :: int
  or_payload :: payload

section \<open>Claim\<close>

definition due_row :: "nat list \<Rightarrow> int \<Rightarrow> db \<Rightarrow> outbox_row \<Rightarrow> bool" where
  "due_row shards now d o1 \<longleftrightarrow>
     List.member shards (ob_shard o1) \<and> unfinished (ob_status o1) \<and> ob_next_retry o1 \<le> now
     \<and> \<not> list_ex (\<lambda>prev. ob_shard prev = ob_shard o1 \<and> sql_eq (row_conv prev) (row_conv o1)
          \<and> sql_less (row_seq prev) (row_seq o1) \<and> unfinished (ob_status prev)) (d_outbox d)"

definition candidate_key :: "outbox_row \<Rightarrow> nat \<times> int" where
  "candidate_key r = (ob_shard r, case row_conv r of Some c \<Rightarrow> c | None \<Rightarrow> 0)"

definition oldest :: "outbox_row list \<Rightarrow> nat \<times> int \<Rightarrow> int" where
  "oldest rows k = Min (set (map ob_created (filter (\<lambda>r. candidate_key r = k) rows)))"

text \<open>
  \<open>GROUP BY\<close> shard and conversation, \<open>ORDER BY MIN(created_at), conversation_id LIMIT\<close>. A NULL
  conversation is scanned as 0.
\<close>

definition dueOutboxCandidates :: "nat list \<Rightarrow> int \<Rightarrow> int \<Rightarrow> db \<Rightarrow> (nat \<times> int) list" where
  "dueOutboxCandidates shards limit now d =
     (let rows = filter (due_row shards now d) (d_outbox d) in
      sql_limit limit (sort_key (oldest rows) (sort_key snd (remdups (map candidate_key rows)))))"

definition queue_head :: "nat \<Rightarrow> int \<Rightarrow> db \<Rightarrow> outbox_row option" where
  "queue_head shard c d =
     (case sort_key row_seq
             (filter (\<lambda>r. ob_shard r = shard \<and> row_conv r = Some c \<and> unfinished (ob_status r))
               (d_outbox d)) of
        [] \<Rightarrow> None
      | r # _ \<Rightarrow> Some r)"

text \<open>The error of a payload that is no event, or an event that is not the one of its row.\<close>

definition payload_error :: "outbox_row \<Rightarrow> int \<Rightarrow> string option" where
  "payload_error r c =
     (case ob_payload r of
        Corrupt _ _ b \<Rightarrow> Some ''cannot unmarshal''
      | Event e \<Rightarrow>
          if pe_mid e \<noteq> ob_mid r \<or> pe_conv e \<noteq> c \<or> pe_seq e \<le> 0
          then Some ''outbox payload identity does not match its row'' else None)"

definition truncateErr :: "string \<Rightarrow> string" where
  "truncateErr s = (if 1024 < length s then take 1024 s else s)"

definition same_row :: "int \<Rightarrow> int \<Rightarrow> outbox_row \<Rightarrow> bool" where
  "same_row mid ev r \<longleftrightarrow> ob_mid r = mid \<and> ob_event r = ev"

definition set_outbox :: "(outbox_row \<Rightarrow> bool) \<Rightarrow> (outbox_row \<Rightarrow> outbox_row) \<Rightarrow> db \<Rightarrow> db" where
  "set_outbox P f d = d\<lparr>d_outbox := update_where P f (d_outbox d)\<rparr>"

text \<open>
  One candidate: \<open>skip\<close> are the conversations whose row another transaction has locked
  (\<open>SKIP LOCKED\<close>). The head is read again under the lock and can be gone or not due.
\<close>

definition claimed_row :: "int \<Rightarrow> string \<Rightarrow> int \<Rightarrow> outbox_status \<Rightarrow> string \<Rightarrow> outbox_row \<Rightarrow> outbox_row" where
  "claimed_row now owner lease st err r =
     r\<lparr>ob_status := st, ob_locked_by := Some owner, ob_locked_at := Some now,
       ob_next_retry := now + lease, ob_last_error := err\<rparr>"

definition claim_one ::
  "int \<Rightarrow> string \<Rightarrow> int \<Rightarrow> int list \<Rightarrow> nat \<times> int \<Rightarrow> db \<Rightarrow> outbox_record option \<times> db" where
  "claim_one now owner lease skip cand d =
     (if List.member skip (snd cand) \<or> \<not> list_ex (\<lambda>c. cr_id c = snd cand) (d_convs d) then (None, d)
      else case queue_head (fst cand) (snd cand) d of
        None \<Rightarrow> (None, d)
      | Some row \<Rightarrow>
          if now < ob_next_retry row then (None, d)
          else
            let perr = payload_error row (snd cand);
                status = (if perr \<noteq> None \<or> ob_status row = OutboxDLQPending then OutboxDLQPending
                          else OutboxRetrying);
                lastError = (case perr of
                    Some e \<Rightarrow> truncateErr (''invalid outbox payload: '' @ e)
                  | None \<Rightarrow> ob_last_error row)
            in (Some \<lparr>or_mid = ob_mid row, or_event = ob_event row, or_status = status,
                      or_retry_count = ob_retry_count row, or_last_error = lastError,
                      or_shard = ob_shard row, or_conv = snd cand, or_payload = ob_payload row\<rparr>,
                set_outbox (same_row (ob_mid row) (ob_event row))
                  (claimed_row now owner lease status lastError) d))"

fun claim_all ::
  "int \<Rightarrow> string \<Rightarrow> int \<Rightarrow> int list \<Rightarrow> (nat \<times> int) list \<Rightarrow> db \<Rightarrow> outbox_record list \<times> db" where
  "claim_all now owner lease skip [] d = ([], d)"
| "claim_all now owner lease skip (k # ks) d =
     (case claim_one now owner lease skip k d of
        (rec, d') \<Rightarrow>
          (case claim_all now owner lease skip ks d' of
             (recs, d'') \<Rightarrow> (case rec of None \<Rightarrow> recs | Some r \<Rightarrow> r # recs, d'')))"

text \<open>
  \<open>snap\<close> is the snapshot in which the candidates are searched; the rows are read and updated in
  the current tables. \<open>db_now\<close> is the clock of MySQL, \<open>now\<close> the one of the process.
\<close>

definition Claim_at ::
  "int \<Rightarrow> int \<Rightarrow> db \<Rightarrow> int list \<Rightarrow> int \<Rightarrow> nat list \<Rightarrow> string \<Rightarrow> int \<Rightarrow> mysql
     \<Rightarrow> (gerr + outbox_record list) \<times> mysql" where
  "Claim_at db_now now snap skip batchSize shards owner lease ms =
     (if batchSize \<le> 0 \<or> shards = [] then (Inr [], ms)
      else let lease' = (if lease \<le> 0 then 5000 else lease) in
        (case db_tx (\<lambda>d. case claim_all now owner lease' skip
                             (dueOutboxCandidates shards batchSize db_now snap) d of
                           (recs, d') \<Rightarrow> (Inr recs, d')) ms of
           (r, ms') \<Rightarrow> (wrap_internal r, ms')))"

definition Claim ::
  "int \<Rightarrow> int \<Rightarrow> nat list \<Rightarrow> string \<Rightarrow> int \<Rightarrow> mysql \<Rightarrow> (gerr + outbox_record list) \<times> mysql" where
  "Claim now batchSize shards owner lease ms =
     Claim_at now now (fst ms) [] batchSize shards owner lease ms"

section \<open>Transitions of a claimed row\<close>

definition owned_row :: "int \<Rightarrow> int \<Rightarrow> string \<Rightarrow> outbox_row \<Rightarrow> bool" where
  "owned_row mid ev owner r \<longleftrightarrow> same_row mid ev r \<and> ob_locked_by r = Some owner"

definition update_outbox ::
  "(outbox_row \<Rightarrow> bool) \<Rightarrow> (outbox_row \<Rightarrow> outbox_row) \<Rightarrow> mysql \<Rightarrow> (gerr + bool) \<times> mysql" where
  "update_outbox P f ms =
     (case db_exec (\<lambda>d. (0 < affected P (d_outbox d), set_outbox P f d)) ms of
        (r, ms') \<Rightarrow> (wrap_internal r, ms'))"

definition published_row :: "int \<Rightarrow> outbox_row \<Rightarrow> outbox_row" where
  "published_row now r =
     r\<lparr>ob_status := OutboxPublished, ob_published_at := Some now, ob_locked_by := None,
       ob_locked_at := None, ob_last_error := ''''\<rparr>"

definition MarkPublished :: "int \<Rightarrow> int \<Rightarrow> int \<Rightarrow> string \<Rightarrow> mysql \<Rightarrow> (gerr + bool) \<times> mysql" where
  "MarkPublished now mid ev owner ms = update_outbox (owned_row mid ev owner) (published_row now) ms"

text \<open>
  \<open>jitter\<close> is the number drawn from \<open>rand.Int63n\<close>, used only when a quarter of the delay is
  positive.
\<close>

definition retry_delay :: "int \<Rightarrow> int \<Rightarrow> int \<Rightarrow> int" where
  "retry_delay backoff nextRetries jitter =
     (let delay = backoff * 2 ^ nat (min nextRetries 6) in
      if 0 < delay div 4 then delay + jitter else delay)"

definition failed_row ::
  "int \<Rightarrow> string \<Rightarrow> int \<Rightarrow> int \<Rightarrow> int \<Rightarrow> int \<Rightarrow> int \<Rightarrow> string \<Rightarrow> outbox_row \<Rightarrow> outbox_row" where
  "failed_row now errMsg nextRetries maxRetries backoff lease jitter owner r =
     (if maxRetries \<le> nextRetries
      then r\<lparr>ob_status := OutboxDLQPending, ob_retry_count := nextRetries,
             ob_last_error := truncateErr errMsg, ob_next_retry := now + (if lease \<le> 0 then 5000 else lease),
             ob_locked_by := Some owner, ob_locked_at := Some now\<rparr>
      else r\<lparr>ob_status := OutboxRetrying, ob_retry_count := nextRetries,
             ob_last_error := truncateErr errMsg,
             ob_next_retry := now + retry_delay backoff nextRetries jitter,
             ob_locked_by := None, ob_locked_at := None\<rparr>)"

definition MarkFailed ::
  "int \<Rightarrow> int \<Rightarrow> int \<Rightarrow> int \<Rightarrow> string \<Rightarrow> int \<Rightarrow> int \<Rightarrow> int \<Rightarrow> string \<Rightarrow> mysql
     \<Rightarrow> (gerr + bool \<times> bool) \<times> mysql" where
  "MarkFailed now jitter mid ev errMsg maxRetries backoff lease owner ms =
     (case db_query (\<lambda>d. find (owned_row mid ev owner) (d_outbox d)) ms of
        (Inl e, ms1) \<Rightarrow> (Inl (Internal (Some e)), ms1)
      | (Inr None, ms1) \<Rightarrow> (Inr (False, False), ms1)
      | (Inr (Some cur), ms1) \<Rightarrow>
          let nextRetries = ob_retry_count cur + 1 in
          (case update_outbox (owned_row mid ev owner)
                  (failed_row now errMsg nextRetries maxRetries backoff lease jitter owner) ms1 of
             (Inl e, ms2) \<Rightarrow> (Inl e, ms2)
           | (Inr applied, ms2) \<Rightarrow> (Inr (applied, applied \<and> maxRetries \<le> nextRetries), ms2)))"

definition dlq_owned :: "int \<Rightarrow> int \<Rightarrow> string \<Rightarrow> outbox_row \<Rightarrow> bool" where
  "dlq_owned mid ev owner r \<longleftrightarrow> owned_row mid ev owner r \<and> ob_status r = OutboxDLQPending"

definition RetryDLQ :: "int \<Rightarrow> int \<Rightarrow> int \<Rightarrow> int \<Rightarrow> string \<Rightarrow> mysql \<Rightarrow> (gerr + bool) \<times> mysql" where
  "RetryDLQ now mid ev backoff owner ms =
     update_outbox (dlq_owned mid ev owner)
       (\<lambda>r. r\<lparr>ob_next_retry := now + (if backoff \<le> 0 then 1000 else backoff),
              ob_locked_by := None, ob_locked_at := None\<rparr>) ms"

definition MarkDead :: "int \<Rightarrow> int \<Rightarrow> string \<Rightarrow> mysql \<Rightarrow> (gerr + bool) \<times> mysql" where
  "MarkDead mid ev owner ms =
     update_outbox (dlq_owned mid ev owner)
       (\<lambda>r. r\<lparr>ob_status := OutboxDead, ob_locked_by := None, ob_locked_at := None\<rparr>) ms"

definition PendingCount :: "mysql \<Rightarrow> (gerr + nat) \<times> mysql" where
  "PendingCount ms =
     (case db_query (\<lambda>d. affected (\<lambda>r. unfinished (ob_status r)) (d_outbox d)) ms of
        (r, ms') \<Rightarrow> (wrap_internal r, ms'))"

text \<open>
  The age of the oldest row that is not finished, in nanoseconds (the code divides by \<open>10^9\<close>). \<open>Pluck\<close> reports no error when there is
  no row and leaves the zero time; a duration saturates at the largest 64-bit number of nanoseconds.
\<close>

definition time_Since :: "int \<Rightarrow> int \<Rightarrow> int" where
  "time_Since now t = min int64_max (max int64_min ((now - t) * 1000000))"

definition OldestPendingAge :: "int \<Rightarrow> mysql \<Rightarrow> (gerr + int) \<times> mysql" where
  "OldestPendingAge now ms =
     (case db_query (\<lambda>d. case sort (map ob_created (filter (\<lambda>r. unfinished (ob_status r)) (d_outbox d))) of
                           [] \<Rightarrow> zero_time
                         | t # _ \<Rightarrow> t) ms of
        (Inl e, ms') \<Rightarrow> (if errors_Is e ErrRecordNotFound then Inr 0 else Inl (Internal (Some e)), ms')
      | (Inr t, ms') \<Rightarrow> (Inr (time_Since now t), ms'))"

section \<open>Order\<close>

text \<open>
  \<open>before r s\<close>: \<open>r\<close> belongs to the same conversation as \<open>s\<close> and has the smaller sequence number.
  The invariant of the queue: a row that is terminal, or locked by a publisher, has only terminal
  rows before it; a terminal row is not locked; rows have distinct keys.
\<close>

definition before :: "outbox_row \<Rightarrow> outbox_row \<Rightarrow> bool" where
  "before r s \<longleftrightarrow> ob_shard r = ob_shard s \<and> row_conv r = row_conv s \<and> row_conv r \<noteq> None
     \<and> row_seq r < row_seq s"

definition advanced :: "outbox_row \<Rightarrow> bool" where
  "advanced r \<longleftrightarrow> \<not> unfinished (ob_status r) \<or> ob_locked_by r \<noteq> None"

definition row_key :: "outbox_row \<Rightarrow> int \<times> int" where
  "row_key r = (ob_mid r, ob_event r)"

definition queue_inv :: "outbox_row list \<Rightarrow> bool" where
  "queue_inv rows \<longleftrightarrow> distinct (map row_key rows)
     \<and> (\<forall>r \<in> set rows. \<forall>s \<in> set rows. before r s \<and> advanced s \<longrightarrow> \<not> unfinished (ob_status r))
     \<and> (\<forall>r \<in> set rows. \<not> unfinished (ob_status r) \<longrightarrow> ob_locked_by r = None)"

text \<open>
  A change of rows that keeps identity and payload, keeps terminal rows as they are, lets a row
  advance only if everything before it is terminal, and unlocks what becomes terminal.
\<close>

definition queue_change :: "outbox_row list \<Rightarrow> outbox_row \<Rightarrow> outbox_row \<Rightarrow> bool" where
  "queue_change rows r r' \<longleftrightarrow>
     row_key r' = row_key r \<and> ob_shard r' = ob_shard r \<and> ob_payload r' = ob_payload r
     \<and> (\<not> unfinished (ob_status r) \<longrightarrow> \<not> unfinished (ob_status r'))
     \<and> (advanced r' \<longrightarrow> advanced r \<or> (\<forall>q \<in> set rows. before q r \<longrightarrow> \<not> unfinished (ob_status q)))
     \<and> (\<not> unfinished (ob_status r') \<longrightarrow> ob_locked_by r' = None)"

lemma queue_change_refl: "queue_inv rows \<Longrightarrow> r \<in> set rows \<Longrightarrow> queue_change rows r r"
  by (auto simp: queue_change_def queue_inv_def)

lemma before_payload:
  "ob_shard r' = ob_shard r \<Longrightarrow> ob_payload r' = ob_payload r \<Longrightarrow> before q r' = before q r"
  "ob_shard r' = ob_shard r \<Longrightarrow> ob_payload r' = ob_payload r \<Longrightarrow> before r' q = before r q"
  by (simp_all add: before_def row_conv_def row_seq_def)

lemma queue_invD:
  assumes "queue_inv rows"
  shows "distinct (map row_key rows)"
    and "r \<in> set rows \<Longrightarrow> s \<in> set rows \<Longrightarrow> before r s \<Longrightarrow> advanced s \<Longrightarrow> \<not> unfinished (ob_status r)"
    and "r \<in> set rows \<Longrightarrow> \<not> unfinished (ob_status r) \<Longrightarrow> ob_locked_by r = None"
    and "r \<in> set rows \<Longrightarrow> s \<in> set rows \<Longrightarrow> row_key r = row_key s \<Longrightarrow> r = s"
proof -
  show d: "distinct (map row_key rows)" using assms by (simp add: queue_inv_def)
  show "r \<in> set rows \<Longrightarrow> s \<in> set rows \<Longrightarrow> before r s \<Longrightarrow> advanced s \<Longrightarrow> \<not> unfinished (ob_status r)"
    using assms unfolding queue_inv_def by blast
  show "r \<in> set rows \<Longrightarrow> \<not> unfinished (ob_status r) \<Longrightarrow> ob_locked_by r = None"
    using assms unfolding queue_inv_def by blast
  show "r \<in> set rows \<Longrightarrow> s \<in> set rows \<Longrightarrow> row_key r = row_key s \<Longrightarrow> r = s"
    using d unfolding distinct_map by (blast dest: inj_onD)
qed

lemma queue_changeD:
  assumes "queue_change rows r r'"
  shows "row_key r' = row_key r" "ob_shard r' = ob_shard r" "ob_payload r' = ob_payload r"
    "\<not> unfinished (ob_status r) \<Longrightarrow> \<not> unfinished (ob_status r')"
    "advanced r' \<Longrightarrow> \<not> advanced r \<Longrightarrow> q \<in> set rows \<Longrightarrow> before q r \<Longrightarrow> \<not> unfinished (ob_status q)"
    "\<not> unfinished (ob_status r') \<Longrightarrow> ob_locked_by r' = None"
  using assms unfolding queue_change_def by blast+

lemma queue_inv_map:
  assumes inv: "queue_inv rows" and ch: "\<And>r. r \<in> set rows \<Longrightarrow> queue_change rows r (g r)"
  shows "queue_inv (map g rows)"
proof -
  have keys: "map row_key (map g rows) = map row_key rows"
    using queue_changeD(1) [OF ch] by simp
  have order: "\<not> unfinished (ob_status (g r))"
    if r: "r \<in> set rows" and s: "s \<in> set rows" and b: "before (g r) (g s)" and a: "advanced (g s)" for r s
  proof -
    note cr = queue_changeD [OF ch [OF r]] and cs = queue_changeD [OF ch [OF s]]
    have b': "before r s"
      using b before_payload(1) [OF cs(2,3)] before_payload(2) [OF cr(2,3)] by simp
    have "\<not> unfinished (ob_status r)"
      using cs(5) [OF a _ r b'] queue_invD(2) [OF inv r s b'] by blast
    then show ?thesis by (rule cr(4))
  qed
  show ?thesis
    unfolding queue_inv_def keys
    using queue_invD(1) [OF inv] order queue_changeD(6) [OF ch] by auto
qed

lemma queue_inv_update:
  assumes "queue_inv rows" and "\<And>r. r \<in> set rows \<Longrightarrow> P r \<Longrightarrow> queue_change rows r (f r)"
  shows "queue_inv (update_where P f rows)"
  unfolding update_where_def
  by (rule queue_inv_map [OF assms(1)]) (use assms(2) queue_change_refl [OF assms(1)] in simp)

lemma queue_inv_append:
  assumes inv: "queue_inv rows" and new: "row_key r \<notin> row_key ` set rows"
    and r: "unfinished (ob_status r)" "ob_locked_by r = None"
    and last: "\<And>s. s \<in> set rows \<Longrightarrow> \<not> before r s"
  shows "queue_inv (rows @ [r])"
proof -
  have na: "\<not> advanced r" using r by (simp add: advanced_def)
  have order: "\<not> unfinished (ob_status x)"
    if x: "x \<in> set (rows @ [r])" and y: "y \<in> set (rows @ [r])" and b: "before x y" and a: "advanced y" for x y
  proof -
    have "y \<noteq> r" using a na by blast
    with y have y': "y \<in> set rows" by simp
    have "x \<noteq> r" using last [OF y'] b by blast
    with x have "x \<in> set rows" by simp
    then show ?thesis using queue_invD(2) [OF inv _ y' b a] by blast
  qed
  have "distinct (map row_key (rows @ [r]))" using queue_invD(1) [OF inv] new by simp
  moreover have "\<forall>x \<in> set (rows @ [r]). \<not> unfinished (ob_status x) \<longrightarrow> ob_locked_by x = None"
    using queue_invD(3) [OF inv] r(1) by auto
  ultimately show ?thesis using order unfolding queue_inv_def by blast
qed

lemma queue_head_props:
  assumes "queue_head shard c d = Some row"
  shows "row \<in> set (d_outbox d)" "ob_shard row = shard" "row_conv row = Some c"
    "unfinished (ob_status row)"
    "\<And>q. q \<in> set (d_outbox d) \<Longrightarrow> before q row \<Longrightarrow> \<not> unfinished (ob_status q)"
proof -
  let ?f = "filter (\<lambda>r. ob_shard r = shard \<and> row_conv r = Some c \<and> unfinished (ob_status r)) (d_outbox d)"
  from assms obtain rs where rs: "sort_key row_seq ?f = row # rs"
    by (auto simp: queue_head_def split: list.splits)
  have eq: "set (row # rs) = set ?f" unfolding rs [symmetric] by simp
  then have mem: "row \<in> set ?f" by auto
  then show "row \<in> set (d_outbox d)" "ob_shard row = shard" "row_conv row = Some c"
    "unfinished (ob_status row)" by simp_all
  have least: "row_seq row \<le> row_seq q" if "q \<in> set ?f" for q
  proof -
    have "q \<in> set (row # rs)" unfolding eq by (rule that)
    moreover have "sorted (map row_seq (row # rs))" unfolding rs [symmetric] by (rule sorted_sort_key)
    ultimately show ?thesis by auto
  qed
  show "\<not> unfinished (ob_status q)" if "q \<in> set (d_outbox d)" "before q row" for q
  proof
    assume "unfinished (ob_status q)"
    with that mem have "q \<in> set ?f" by (simp add: before_def)
    then have "row_seq row \<le> row_seq q" by (rule least)
    moreover from that(2) have "row_seq q < row_seq row" by (simp add: before_def)
    ultimately show False using leD by blast
  qed
qed

lemma claim_one_writes:
  assumes "claim_one now owner lease skip k d = (rec, d')" and "d' \<noteq> d"
  obtains row st err where "queue_head (fst k) (snd k) d = Some row" "unfinished st"
    "d' = set_outbox (same_row (ob_mid row) (ob_event row)) (claimed_row now owner lease st err) d"
proof -
  obtain row where h: "queue_head (fst k) (snd k) d = Some row"
    using assms by (auto simp: claim_one_def split: if_splits option.splits)
  define st where "st = (if payload_error row (snd k) \<noteq> None \<or> ob_status row = OutboxDLQPending
    then OutboxDLQPending else OutboxRetrying)"
  define err where "err = (case payload_error row (snd k) of
      Some e \<Rightarrow> truncateErr (''invalid outbox payload: '' @ e) | None \<Rightarrow> ob_last_error row)"
  have d': "d' = set_outbox (same_row (ob_mid row) (ob_event row)) (claimed_row now owner lease st err) d"
    using assms h by (auto simp: claim_one_def Let_def st_def err_def split: if_splits)
  have "unfinished st" by (simp add: st_def)
  from that [OF h this d'] show thesis .
qed

lemma claim_one_inv:
  assumes "claim_one now owner lease skip k d = (rec, d')" and "queue_inv (d_outbox d)"
  shows "queue_inv (d_outbox d') \<and> d\<lparr>d_outbox := d_outbox d'\<rparr> = d'"
proof (cases "d' = d")
  case True
  with assms show ?thesis by simp
next
  case False
  obtain row st err where h: "queue_head (fst k) (snd k) d = Some row" and st: "unfinished st"
    and d': "d' = set_outbox (same_row (ob_mid row) (ob_event row)) (claimed_row now owner lease st err) d"
    by (rule claim_one_writes [OF assms(1) False])
  note hp = queue_head_props [OF h]
  have "queue_change (d_outbox d) r (claimed_row now owner lease st err r)"
    if r: "r \<in> set (d_outbox d)" "same_row (ob_mid row) (ob_event row) r" for r
  proof -
    have "r = row"
      using queue_invD(4) [OF assms(2) r(1) hp(1)] r(2) by (simp add: same_row_def row_key_def)
    then show ?thesis
      using st hp(4,5) by (auto simp: queue_change_def claimed_row_def row_key_def)
  qed
  then show ?thesis
    using queue_inv_update [OF assms(2)] by (auto simp: d' set_outbox_def)
qed

lemma claim_all_inv:
  "claim_all now owner lease skip ks d = (recs, d') \<Longrightarrow> queue_inv (d_outbox d) \<Longrightarrow>
   queue_inv (d_outbox d') \<and> d\<lparr>d_outbox := d_outbox d'\<rparr> = d'"
proof (induction ks arbitrary: d recs d')
  case Nil
  then show ?case by simp
next
  case (Cons k ks)
  obtain rec d1 where o: "claim_one now owner lease skip k d = (rec, d1)" by fastforce
  obtain rs d2 where a: "claim_all now owner lease skip ks d1 = (rs, d2)" by fastforce
  from Cons.prems(1) o a have "d' = d2" by simp
  with claim_one_inv [OF o Cons.prems(2)] Cons.IH [OF a] show ?case
    by (metis (no_types, lifting) db.surjective db.update_convs(5))
qed



end
