(* ===== verification/ConversationRepo.thy ===== *)
theory ConversationRepo
  imports Db "HOL-Library.Product_Lexorder"
begin

text \<open>
  \<open>conversation/model.go\<close> and \<open>mysql/repository/conversation_repository.go\<close>: the entities, the
  transaction that creates a conversation with its members, and the queries.
\<close>

section \<open>Entities\<close>

definition TypeSingle :: int where "TypeSingle = 1"
definition TypeGroup :: int where "TypeGroup = 2"
definition StatusDismissed :: int where "StatusDismissed = 2"
definition RoleMember :: int where "RoleMember = 1"
definition RoleOwner :: int where "RoleOwner = 10"
definition MemberStatusNormal :: int where "MemberStatusNormal = 1"

record conversation =
  co_id :: int
  co_type :: int
  co_name :: runes
  co_avatar :: string
  co_owner :: int
  co_status :: int
  co_last_seq :: int
  co_last_mid :: int
  co_last_type :: int
  co_last_preview :: runes
  co_last_at :: "int option"
  co_read_seq :: int
  co_received_seq :: int
  co_unread :: int
  co_created :: int
  co_updated :: int

record member =
  me_conv :: int
  me_user :: int
  me_role :: int
  me_status :: int
  me_joined_seq :: int
  me_received_seq :: int
  me_read_seq :: int
  me_clear_before_seq :: int
  me_mute_until :: "int option"

definition Unread :: "conversation \<Rightarrow> int" where
  "Unread c = (let n = co_last_seq c - co_read_seq c in if n < 0 then 0 else n)"

definition sortPair :: "int \<Rightarrow> int \<Rightarrow> int \<times> int" where
  "sortPair a b = (if a < b then (a, b) else (b, a))"

definition toDomainConversation :: "conv_row \<Rightarrow> conversation" where
  "toDomainConversation r =
     \<lparr>co_id = cr_id r, co_type = cr_type r, co_name = cr_name r, co_avatar = cr_avatar r,
      co_owner = cr_owner r, co_status = cr_status r, co_last_seq = cr_last_seq r,
      co_last_mid = (case cr_last_mid r of Some i \<Rightarrow> i | None \<Rightarrow> 0),
      co_last_type = (case cr_last_type r of Some i \<Rightarrow> i | None \<Rightarrow> 0),
      co_last_preview = cr_last_preview r, co_last_at = cr_last_at r, co_read_seq = 0,
      co_received_seq = 0, co_unread = 0, co_created = cr_created r, co_updated = cr_updated r\<rparr>"

definition toDomainMember :: "member_row \<Rightarrow> member" where
  "toDomainMember r =
     \<lparr>me_conv = mb_conv r, me_user = mb_user r, me_role = mb_role r, me_status = mb_status r,
      me_joined_seq = mb_joined_seq r, me_received_seq = mb_received_seq r,
      me_read_seq = mb_read_seq r, me_clear_before_seq = mb_clear_before_seq r,
      me_mute_until = mb_mute_until r\<rparr>"

section \<open>Creation\<close>

text \<open>
  The primary key and \<open>uk_direct_conversation\<close> on (type, low, high); NULLs never collide.
\<close>

definition insert_conversation :: "conv_row \<Rightarrow> db \<Rightarrow> gerr + db" where
  "insert_conversation row d =
     (if list_ex (\<lambda>r. cr_id r = cr_id row
          \<or> (cr_low row \<noteq> None \<and> cr_high row \<noteq> None \<and> cr_type r = cr_type row
             \<and> cr_low r = cr_low row \<and> cr_high r = cr_high row)) (d_convs d)
      then Inl duplicate_key
      else Inr (d\<lparr>d_convs := d_convs d @ [row]\<rparr>))"

definition insert_member :: "member_row \<Rightarrow> db \<Rightarrow> gerr + db" where
  "insert_member row d =
     (if list_ex (\<lambda>r. mb_conv r = mb_conv row \<and> mb_user r = mb_user row) (d_members d)
      then Inl duplicate_key
      else Inr (d\<lparr>d_members := d_members d @ [row]\<rparr>))"

definition new_member :: "int \<Rightarrow> conversation \<Rightarrow> int \<Rightarrow> member_row" where
  "new_member now conv uid =
     \<lparr>mb_conv = co_id conv, mb_user = uid,
      mb_role = (if co_type conv = TypeGroup \<and> uid = co_owner conv then RoleOwner else RoleMember),
      mb_status = MemberStatusNormal, mb_joined_seq = 0, mb_received_seq = 0, mb_read_seq = 0,
      mb_clear_before_seq = 0, mb_mute_until = None, mb_created = now\<rparr>"

fun insert_members :: "int \<Rightarrow> conversation \<Rightarrow> int list \<Rightarrow> db \<Rightarrow> gerr + db" where
  "insert_members now conv [] d = Inr d"
| "insert_members now conv (uid # uids) d =
     (case insert_member (new_member now conv uid) d of
        Inl e \<Rightarrow> Inl e
      | Inr d' \<Rightarrow> insert_members now conv uids d')"

definition new_conversation_row :: "int \<Rightarrow> conversation \<Rightarrow> (int \<times> int) option \<Rightarrow> conv_row" where
  "new_conversation_row now conv pair =
     \<lparr>cr_id = co_id conv, cr_type = co_type conv, cr_low = map_option fst pair,
      cr_high = map_option snd pair, cr_name = co_name conv, cr_avatar = co_avatar conv,
      cr_owner = co_owner conv, cr_status = co_status conv, cr_last_seq = 0, cr_last_mid = None,
      cr_last_type = None, cr_last_preview = [], cr_last_at = None, cr_created = co_created conv,
      cr_updated = now\<rparr>"

text \<open>
  The body of the transaction. The direct pair is built from the owner and the FIRST member id,
  as the code does. Indexing an empty slice panics; the service never passes one.
\<close>

definition create_tx :: "int \<Rightarrow> conversation \<Rightarrow> int list \<Rightarrow> db \<Rightarrow> (gerr + bool) \<times> db" where
  "create_tx now conv memberIDs d =
     (if co_type conv = TypeSingle \<and> memberIDs = []
      then (Inl (OtherError ''panic: index out of range''), d)
      else
        let pair = (if co_type conv = TypeSingle
                    then Some (sortPair (co_owner conv) (memberIDs ! 0)) else None)
        in case insert_conversation (new_conversation_row now conv pair) d of
             Inl e \<Rightarrow> (Inl (if isDuplicateKey e then Sentinel ErrDupConversation else e), d)
           | Inr d1 \<Rightarrow>
               (case insert_members now conv memberIDs d1 of
                  Inl e \<Rightarrow> (Inl e, d)
                | Inr d2 \<Rightarrow> (Inr True, d2)))"

definition CreateWithMembers ::
  "int \<Rightarrow> conversation \<Rightarrow> int list \<Rightarrow> mysql \<Rightarrow> (gerr + bool) \<times> mysql" where
  "CreateWithMembers now conv memberIDs ms =
     (case db_tx (create_tx now conv memberIDs) ms of
        (Inl e, ms') \<Rightarrow>
          if errors_Is e ErrDupConversation then (Inr False, ms') else (Inl (Internal (Some e)), ms')
      | (Inr created, ms') \<Rightarrow> (Inr created, ms'))"

section \<open>Queries\<close>

definition GetConversation :: "int \<Rightarrow> mysql \<Rightarrow> (gerr + conversation option) \<times> mysql" where
  "GetConversation c ms =
     (case db_query (\<lambda>d. find (\<lambda>r. cr_id r = c) (d_convs d)) ms of
        (r, ms') \<Rightarrow> (map_sum id (map_option toDomainConversation) (wrap_internal r), ms'))"

definition GetByDirectUsers :: "int \<Rightarrow> int \<Rightarrow> mysql \<Rightarrow> (gerr + conversation option) \<times> mysql" where
  "GetByDirectUsers low high ms =
     (case db_query (\<lambda>d. find (\<lambda>r. cr_type r = TypeSingle \<and> cr_low r = Some low
                \<and> cr_high r = Some high \<and> cr_status r = 1) (d_convs d)) ms of
        (r, ms') \<Rightarrow> (map_sum id (map_option toDomainConversation) (wrap_internal r), ms'))"

definition conv_order_ts :: "conv_row \<Rightarrow> int" where
  "conv_order_ts r = (case cr_last_at r of Some t \<Rightarrow> t | None \<Rightarrow> cr_created r)"

definition list_row :: "conv_row \<times> member_row \<Rightarrow> conversation" where
  "list_row p = (toDomainConversation (fst p))
     \<lparr>co_read_seq := mb_read_seq (snd p), co_received_seq := mb_received_seq (snd p)\<rparr>"

text \<open>The join of the user's memberships with the conversations, in the order of the list.\<close>

definition user_conversations :: "int \<Rightarrow> db \<Rightarrow> (conv_row \<times> member_row) list" where
  "user_conversations u d =
     sort_key (\<lambda>p. (- conv_order_ts (fst p), - cr_id (fst p)))
       (concat (map (\<lambda>m. map (\<lambda>c. (c, m)) (filter (\<lambda>c. cr_id c = mb_conv m \<and> cr_status c = 1) (d_convs d)))
         (filter (\<lambda>m. mb_user m = u \<and> mb_status m = MemberStatusNormal) (d_members d))))"

definition after_cursor :: "int \<Rightarrow> int \<Rightarrow> conv_row \<times> member_row \<Rightarrow> bool" where
  "after_cursor cursorID cursorTS p \<longleftrightarrow>
     (cursorID \<le> 0 \<or> conv_order_ts (fst p) < cursorTS
      \<or> (conv_order_ts (fst p) = cursorTS \<and> cr_id (fst p) < cursorID))"

definition ListByUser ::
  "int \<Rightarrow> int \<Rightarrow> int \<Rightarrow> int \<Rightarrow> mysql \<Rightarrow> (gerr + conversation list) \<times> mysql" where
  "ListByUser u cursorID cursorTS limit ms =
     (case db_query (\<lambda>d. sql_limit limit (filter (after_cursor cursorID cursorTS) (user_conversations u d))) ms of
        (r, ms') \<Rightarrow> (map_sum id (map list_row) (wrap_internal r), ms'))"

definition GetMember :: "int \<Rightarrow> int \<Rightarrow> mysql \<Rightarrow> (gerr + member option) \<times> mysql" where
  "GetMember c u ms =
     (case db_query (\<lambda>d. find (\<lambda>r. mb_conv r = c \<and> mb_user r = u) (d_members d)) ms of
        (r, ms') \<Rightarrow> (map_sum id (map_option toDomainMember) (wrap_internal r), ms'))"

definition ListMemberIDs :: "int \<Rightarrow> mysql \<Rightarrow> (gerr + int list) \<times> mysql" where
  "ListMemberIDs c ms =
     (case db_query (\<lambda>d. map mb_user
              (filter (\<lambda>r. mb_conv r = c \<and> mb_status r = MemberStatusNormal) (d_members d))) ms of
        (r, ms') \<Rightarrow> (wrap_internal r, ms'))"

section \<open>Facts\<close>

lemma insert_member_ok:
  "insert_member r d = Inr d' \<longleftrightarrow>
     (\<forall>q \<in> set (d_members d). mb_conv q \<noteq> mb_conv r \<or> mb_user q \<noteq> mb_user r)
     \<and> d' = d\<lparr>d_members := d_members d @ [r]\<rparr>"
  by (auto simp: insert_member_def list_ex_iff)

lemma insert_members_ok:
  "insert_members now conv uids d = Inr d' \<longleftrightarrow>
     distinct uids \<and> (\<forall>u \<in> set uids. \<forall>q \<in> set (d_members d). mb_conv q \<noteq> co_id conv \<or> mb_user q \<noteq> u)
     \<and> d' = d\<lparr>d_members := d_members d @ map (new_member now conv) uids\<rparr>"
proof (induction uids arbitrary: d)
  case Nil
  then show ?case by auto
next
  case (Cons u uids)
  show ?case
  proof (cases "insert_member (new_member now conv u) d")
    case (Inl e)
    then have "\<exists>q \<in> set (d_members d). mb_conv q = co_id conv \<and> mb_user q = u"
      by (auto simp: insert_member_def list_ex_iff new_member_def split: if_splits)
    with Inl show ?thesis by auto
  next
    case (Inr d1)
    then have d1: "d1 = d\<lparr>d_members := d_members d @ [new_member now conv u]\<rparr>"
      and new: "\<forall>q \<in> set (d_members d). mb_conv q \<noteq> co_id conv \<or> mb_user q \<noteq> u"
      by (auto simp: insert_member_ok new_member_def)
    have nm: "mb_conv (new_member now conv u) = co_id conv" "mb_user (new_member now conv u) = u"
      by (simp_all add: new_member_def)
    show ?thesis using Inr new nm by (auto simp: Cons.IH d1)
  qed
qed

lemma create_tx_cases:
  assumes "create_tx now conv ids d = (Inr r, d')"
  obtains row where "r = True" "cr_id row = co_id conv" "cr_last_seq row = 0"
    "cr_status row = co_status conv" "cr_type row = co_type conv"
    "\<forall>q \<in> set (d_convs d). cr_id q \<noteq> co_id conv"
    "distinct ids" "\<forall>u \<in> set ids. \<forall>q \<in> set (d_members d). mb_conv q \<noteq> co_id conv \<or> mb_user q \<noteq> u"
    "d' = d\<lparr>d_convs := d_convs d @ [row], d_members := d_members d @ map (new_member now conv) ids\<rparr>"
proof -
  let ?pair = "if co_type conv = TypeSingle then Some (sortPair (co_owner conv) (ids ! 0)) else None"
  let ?row = "new_conversation_row now conv ?pair"
  have row: "cr_id ?row = co_id conv" "cr_last_seq ?row = 0" "cr_status ?row = co_status conv"
    "cr_type ?row = co_type conv"
    by (simp_all add: new_conversation_row_def)
  from assms obtain d1 where d1: "insert_conversation ?row d = Inr d1"
    and m: "insert_members now conv ids d1 = Inr d'" and r: "r = True"
    by (auto simp: create_tx_def Let_def split: if_splits sum.splits)
  from d1 have "d1 = d\<lparr>d_convs := d_convs d @ [?row]\<rparr>" "\<forall>q \<in> set (d_convs d). cr_id q \<noteq> co_id conv"
    using row(1) by (auto simp: insert_conversation_def list_ex_iff split: if_splits)
  with m row r that show ?thesis by (auto simp: insert_members_ok)
qed

end
