(* ===== verification/Store.thy ===== *)
theory Store
  imports OutboxRepo ConversationRepo
begin

text \<open>
  The tables under all operations of the repositories together: any number of gateways and
  workers run them in any order, each operation with its own snapshot, clock and faults. The
  invariant \<open>store_inv\<close> and its preservation by every operation.
\<close>

section \<open>Operations change the tables in few ways\<close>

lemma FindByClientMessageID_state:
  "FindByClientMessageID U s cid ms = (r, ms') \<Longrightarrow> fst ms' = fst ms"
  by (auto simp: FindByClientMessageID_def dest: db_query_cases split: option.splits prod.splits)

lemma db_tx_state:
  "db_tx body (d, fs) = (x, (d1, fs1)) \<Longrightarrow> d1 = d \<or> (\<exists>a. body d = (Inr a, d1))"
  using db_tx_cases [of body "(d, fs)" x "(d1, fs1)"] by (auto simp: prod_eq_iff)

lemma Persist_at_state:
  assumes "Persist_at U now snap m members (d, fs) = (r, (d', fs'))"
  shows "d' = d \<or> (\<exists>raw res. uuid_parse U (m_client_id m) = Some raw
            \<and> persist_tx U now snap raw m members d = (Inr res, d'))"
proof (cases "uuid_parse U (m_client_id m)")
  case None
  with assms show ?thesis by (simp add: Persist_at_def)
next
  case (Some raw)
  obtain x d1 fs1 where tx: "db_tx (persist_tx U now snap raw m members) (d, fs) = (x, (d1, fs1))"
    by (metis prod.collapse)
  with assms Some have "d' = d1"
    by (auto simp: Persist_at_def split: sum.splits if_splits option.splits prod.splits
        dest: FindByClientMessageID_state)
  with db_tx_state [OF tx] Some show ?thesis by auto
qed

lemma update_outbox_state:
  "update_outbox P f (d, fs) = (r, (d', fs')) \<Longrightarrow> d' = d \<or> d' = set_outbox P f d"
  by (auto simp: update_outbox_def dest!: db_exec_cases split: prod.splits)

lemma Claim_at_state:
  assumes "Claim_at dbnow now snap skip batch shards owner lease (d, fs) = (r, (d', fs'))"
  shows "d' = d \<or> (\<exists>l ks recs. claim_all now owner l skip ks d = (recs, d'))"
  using assms
  by (auto simp: Claim_at_def Let_def split: if_splits prod.splits dest!: db_tx_state)

lemma CreateWithMembers_state:
  assumes "CreateWithMembers now conv ids (d, fs) = (r, (d', fs'))"
  shows "d' = d \<or> (\<exists>x. create_tx now conv ids d = (Inr x, d'))"
proof -
  obtain x d1 fs1 where tx: "db_tx (create_tx now conv ids) (d, fs) = (x, (d1, fs1))"
    by (metis prod.collapse)
  with assms have "d' = d1" by (auto simp: CreateWithMembers_def split: sum.splits if_splits)
  with db_tx_state [OF tx] show ?thesis by auto
qed

section \<open>Steps\<close>

inductive store_step :: "uuid_lib \<Rightarrow> db \<Rightarrow> db \<Rightarrow> bool" for U :: uuid_lib where
  persist: "Persist_at U now snap m members (d, fs) = (r1, (d', fs')) \<Longrightarrow> store_step U d d'"
| received: "AdvanceReceivedCursor c u seq (d, fs) = (r2, (d', fs')) \<Longrightarrow> store_step U d d'"
| read: "AdvanceReadCursor c u seq (d, fs) = (r2, (d', fs')) \<Longrightarrow> store_step U d d'"
| create: "CreateWithMembers now conv ids (d, fs) = (r3, (d', fs')) \<Longrightarrow> store_step U d d'"
| claim: "Claim_at dbnow now snap skip batch shards owner lease (d, fs) = (r4, (d', fs')) \<Longrightarrow>
     store_step U d d'"
| published: "MarkPublished now mid ev owner (d, fs) = (r5, (d', fs')) \<Longrightarrow> store_step U d d'"
| failed: "MarkFailed now jitter mid ev err maxr backoff lease owner (d, fs) = (r6, (d', fs')) \<Longrightarrow>
     store_step U d d'"
| retry_dlq: "RetryDLQ now mid ev backoff owner (d, fs) = (r5, (d', fs')) \<Longrightarrow> store_step U d d'"
| dead: "MarkDead mid ev owner (d, fs) = (r5, (d', fs')) \<Longrightarrow> store_step U d d'"

inductive store_reachable :: "uuid_lib \<Rightarrow> db \<Rightarrow> bool" for U :: uuid_lib where
  start: "store_reachable U empty_db"
| step: "store_reachable U d \<Longrightarrow> store_step U d d' \<Longrightarrow> store_reachable U d'"

section \<open>The invariant\<close>

definition outbox_matches :: "msg_row \<Rightarrow> outbox_row \<Rightarrow> bool" where
  "outbox_matches r q \<longleftrightarrow>
     ob_mid q = mr_id r \<and> ob_event q = OutboxEventPush \<and> ob_shard q = OutboxShardID (mr_conv r)
     \<and> (case ob_payload q of
          Event e \<Rightarrow> pe_mid e = mr_id r \<and> pe_conv e = mr_conv r \<and> pe_seq e = mr_seq r
            \<and> pe_sender e = mr_sender r \<and> pe_type e = mr_type r \<and> pe_content e = mr_content r
            \<and> pe_preview e = mr_preview r \<and> pe_created e = mr_created r
        | Corrupt c s b \<Rightarrow> False)"

definition messages_of :: "int \<Rightarrow> db \<Rightarrow> msg_row list" where
  "messages_of c d = filter (\<lambda>r. mr_conv r = c) (d_msgs d)"

definition convs_inv :: "db \<Rightarrow> bool" where
  "convs_inv d \<longleftrightarrow> distinct (map cr_id (d_convs d))
     \<and> (\<forall>c \<in> set (d_convs d). 0 \<le> cr_last_seq c
           \<and> map mr_seq (messages_of (cr_id c) d) = [1..cr_last_seq c])
     \<and> (\<forall>r \<in> set (d_msgs d). mr_conv r \<in> cr_id ` set (d_convs d))"

definition msgs_inv :: "db \<Rightarrow> bool" where
  "msgs_inv d \<longleftrightarrow> distinct (map mr_id (d_msgs d))
     \<and> distinct (map (\<lambda>r. (mr_sender r, mr_client r)) (d_msgs d))
     \<and> list_all2 outbox_matches (d_msgs d) (d_outbox d)"

definition member_bound :: "db \<Rightarrow> member_row \<Rightarrow> bool" where
  "member_bound d r \<longleftrightarrow>
     0 \<le> mb_received_seq r \<and> 0 \<le> mb_read_seq r
     \<and> (\<exists>c \<in> set (d_convs d). cr_id c = mb_conv r \<and> mb_received_seq r \<le> cr_last_seq c
           \<and> mb_read_seq r \<le> cr_last_seq c)"

definition members_inv :: "db \<Rightarrow> bool" where
  "members_inv d \<longleftrightarrow> distinct (map (\<lambda>r. (mb_conv r, mb_user r)) (d_members d))
     \<and> (\<forall>r \<in> set (d_members d). member_bound d r)"

definition store_inv :: "db \<Rightarrow> bool" where
  "store_inv d \<longleftrightarrow> convs_inv d \<and> msgs_inv d \<and> members_inv d \<and> queue_inv (d_outbox d)"

lemma outbox_matches_row:
  "outbox_matches r q \<Longrightarrow> row_conv q = Some (mr_conv r) \<and> row_seq q = Some (mr_seq r)"
  by (auto simp: outbox_matches_def row_conv_def row_seq_def split: payload.splits)

lemma matches_payload:
  "row_key q' = row_key q \<Longrightarrow> ob_shard q' = ob_shard q \<Longrightarrow> ob_payload q' = ob_payload q \<Longrightarrow>
   outbox_matches r q' = outbox_matches r q"
  by (simp add: outbox_matches_def row_key_def)

section \<open>Outbox operations\<close>

text \<open>An outbox operation maps each row to a row with the same key and payload.\<close>

lemma msgs_inv_outbox:
  assumes "msgs_inv d" and "\<And>r. r \<in> set (d_outbox d) \<Longrightarrow> P r \<Longrightarrow>
      row_key (f r) = row_key r \<and> ob_shard (f r) = ob_shard r \<and> ob_payload (f r) = ob_payload r"
  shows "msgs_inv (set_outbox P f d)"
proof -
  have all2: "list_all2 outbox_matches (d_msgs d) (d_outbox d)"
    using assms(1) by (simp add: msgs_inv_def)
  have "list_all2 outbox_matches (d_msgs d) (update_where P f (d_outbox d))"
    unfolding update_where_def
  proof (rule list_all2_all_nthI)
    show "length (d_msgs d) = length (map (\<lambda>r. if P r then f r else r) (d_outbox d))"
      using list_all2_lengthD [OF all2] by simp
    fix i
    assume i: "i < length (d_msgs d)"
    then have l: "i < length (d_outbox d)" using list_all2_lengthD [OF all2] by simp
    have m: "outbox_matches (d_msgs d ! i) (d_outbox d ! i)" using list_all2_nthD [OF all2 i] .
    have "outbox_matches (d_msgs d ! i) (f (d_outbox d ! i))" if "P (d_outbox d ! i)"
      using assms(2) [OF nth_mem [OF l] that] m
        matches_payload [of "f (d_outbox d ! i)" "d_outbox d ! i" "d_msgs d ! i"] by blast
    with m l show "outbox_matches (d_msgs d ! i) (map (\<lambda>r. if P r then f r else r) (d_outbox d) ! i)"
      by simp
  qed
  with assms(1) show ?thesis by (simp add: msgs_inv_def set_outbox_def)
qed

lemma store_inv_outbox:
  assumes inv: "store_inv d" and ch: "\<And>r. r \<in> set (d_outbox d) \<Longrightarrow> P r \<Longrightarrow> queue_change (d_outbox d) r (f r)"
  shows "store_inv (set_outbox P f d)"
proof -
  have "msgs_inv (set_outbox P f d)"
    using inv queue_changeD(1-3) [OF ch] by (intro msgs_inv_outbox) (auto simp: store_inv_def)
  moreover have "queue_inv (d_outbox (set_outbox P f d))"
    using queue_inv_update [of "d_outbox d" P f] inv ch by (simp add: store_inv_def set_outbox_def)
  ultimately show ?thesis
    using inv by (simp add: store_inv_def set_outbox_def convs_inv_def members_inv_def
        member_bound_def messages_of_def)
qed

lemma owned_advanced: "owned_row mid ev owner r \<Longrightarrow> advanced r"
  by (simp add: owned_row_def advanced_def)

lemma owned_unfinished:
  "queue_inv rows \<Longrightarrow> r \<in> set rows \<Longrightarrow> owned_row mid ev owner r \<Longrightarrow> unfinished (ob_status r)"
  using queue_invD(3) by (fastforce simp: owned_row_def)

lemma claim_one_change:
  assumes "claim_one now owner lease skip k d = (rec, d')" and "store_inv d"
  shows "store_inv d'"
proof (cases "d' = d")
  case True
  with assms show ?thesis by simp
next
  case False
  obtain row st err where h: "queue_head (fst k) (snd k) d = Some row" and st: "unfinished st"
    and d': "d' = set_outbox (same_row (ob_mid row) (ob_event row)) (claimed_row now owner lease st err) d"
    by (rule claim_one_writes [OF assms(1) False])
  note hp = queue_head_props [OF h]
  have q: "queue_inv (d_outbox d)" using assms(2) by (simp add: store_inv_def)
  have "queue_change (d_outbox d) r (claimed_row now owner lease st err r)"
    if r: "r \<in> set (d_outbox d)" "same_row (ob_mid row) (ob_event row) r" for r
  proof -
    have "r = row"
      using queue_invD(4) [OF q r(1) hp(1)] r(2) by (simp add: same_row_def row_key_def)
    then show ?thesis
      using st hp(4,5) by (auto simp: queue_change_def claimed_row_def row_key_def)
  qed
  then show ?thesis unfolding d' by (rule store_inv_outbox [OF assms(2)])
qed

lemma claim_all_change:
  "claim_all now owner lease skip ks d = (recs, d') \<Longrightarrow> store_inv d \<Longrightarrow> store_inv d'"
proof (induction ks arbitrary: d recs d')
  case Nil
  then show ?case by simp
next
  case (Cons k ks)
  obtain rec d1 where o: "claim_one now owner lease skip k d = (rec, d1)" by fastforce
  obtain rs d2 where a: "claim_all now owner lease skip ks d1 = (rs, d2)" by fastforce
  from Cons.prems(1) o a have "d' = d2" by simp
  with Cons.IH [OF a claim_one_change [OF o Cons.prems(2)]] show ?case by simp
qed

lemma MarkFailed_state:
  assumes "MarkFailed now jitter mid ev err maxr backoff lease owner (d, fs) = (r, (d', fs'))"
  shows "d' = d \<or> (\<exists>n. d' = set_outbox (owned_row mid ev owner)
                             (failed_row now err n maxr backoff lease jitter owner) d)"
proof -
  obtain x d1 fs1 where q: "db_query (\<lambda>d. find (owned_row mid ev owner) (d_outbox d)) (d, fs) = (x, (d1, fs1))"
    by (metis prod.collapse)
  from db_query_cases [OF q] have "d1 = d" by simp
  with assms q show ?thesis
    by (auto simp: MarkFailed_def Let_def split: sum.splits option.splits prod.splits
        dest!: update_outbox_state)
qed

lemma transition_inv:
  assumes inv: "store_inv d"
  shows "store_inv (set_outbox (owned_row mid ev owner) (published_row now) d)"
    and "store_inv (set_outbox (owned_row mid ev owner)
           (failed_row now err n maxr backoff lease jitter owner) d)"
    and "store_inv (set_outbox (dlq_owned mid ev owner)
           (\<lambda>r. r\<lparr>ob_next_retry := t, ob_locked_by := None, ob_locked_at := None\<rparr>) d)"
    and "store_inv (set_outbox (dlq_owned mid ev owner)
           (\<lambda>r. r\<lparr>ob_status := OutboxDead, ob_locked_by := None, ob_locked_at := None\<rparr>) d)"
proof -
  have q: "queue_inv (d_outbox d)" using inv by (simp add: store_inv_def)
  note own = owned_advanced owned_unfinished [OF q]
  show "store_inv (set_outbox (owned_row mid ev owner) (published_row now) d)"
    by (rule store_inv_outbox [OF inv])
      (use own in \<open>auto simp: queue_change_def published_row_def row_key_def\<close>)
  show "store_inv (set_outbox (owned_row mid ev owner)
           (failed_row now err n maxr backoff lease jitter owner) d)"
    by (rule store_inv_outbox [OF inv])
      (use own in \<open>auto simp: queue_change_def failed_row_def row_key_def\<close>)
  show "store_inv (set_outbox (dlq_owned mid ev owner)
           (\<lambda>r. r\<lparr>ob_next_retry := t, ob_locked_by := None, ob_locked_at := None\<rparr>) d)"
    by (rule store_inv_outbox [OF inv])
      (auto simp: queue_change_def row_key_def dlq_owned_def advanced_def)
  show "store_inv (set_outbox (dlq_owned mid ev owner)
           (\<lambda>r. r\<lparr>ob_status := OutboxDead, ob_locked_by := None, ob_locked_at := None\<rparr>) d)"
    by (rule store_inv_outbox [OF inv])
      (use own in \<open>auto simp: queue_change_def row_key_def dlq_owned_def\<close>)
qed

section \<open>Persistence, cursors, creation\<close>

lemma convs_inv_find:
  "convs_inv d \<Longrightarrow> c \<in> set (d_convs d) \<Longrightarrow> c' \<in> set (d_convs d) \<Longrightarrow> cr_id c = cr_id c' \<Longrightarrow> c = c'"
  by (auto simp: convs_inv_def distinct_map dest: inj_onD)

lemma messages_of_seq:
  assumes "convs_inv d" and "c \<in> set (d_convs d)" and "r \<in> set (d_msgs d)" and "mr_conv r = cr_id c"
  shows "1 \<le> mr_seq r \<and> mr_seq r \<le> cr_last_seq c"
proof -
  have "mr_seq r \<in> set (map mr_seq (messages_of (cr_id c) d))"
    using assms(3,4) by (auto simp: messages_of_def)
  also have "\<dots> = set [1..cr_last_seq c]" using assms(1,2) by (auto simp: convs_inv_def)
  finally show ?thesis by simp
qed

lemma persist_convs_inv:
  assumes inv: "convs_inv d" and c: "c \<in> set (d_convs d)" "cr_id c = m_conv m"
    and row: "mr_conv row = m_conv m" "mr_seq row = cr_last_seq c + 1"
  shows "convs_inv (d\<lparr>d_convs := d_convs (bump_conversation m (cr_last_seq c + 1) now d),
                     d_msgs := d_msgs d @ [row]\<rparr>)"
proof -
  let ?f = "bump_row m (cr_last_seq c + 1) now"
  let ?P = "\<lambda>c'. cr_id c' = m_conv m"
  let ?d' = "d\<lparr>d_convs := update_where ?P ?f (d_convs d), d_msgs := d_msgs d @ [row]\<rparr>"
  have seqs: "\<And>c'. c' \<in> set (d_convs d) \<Longrightarrow> 0 \<le> cr_last_seq c'
      \<and> map mr_seq (messages_of (cr_id c') d) = [1..cr_last_seq c']"
    using inv by (simp add: convs_inv_def)
  have "0 \<le> cr_last_seq c' \<and> map mr_seq (messages_of (cr_id c') ?d') = [1..cr_last_seq c']"
    if c': "c' \<in> set (d_convs ?d')" for c'
  proof (cases "cr_id c' = m_conv m")
    case True
    with c' have last: "cr_last_seq c' = cr_last_seq c + 1"
      by (auto simp: set_update_where bump_row_def)
    have "map mr_seq (messages_of (cr_id c') ?d') = map mr_seq (messages_of (cr_id c) d) @ [cr_last_seq c + 1]"
      using True row c(2) by (simp add: messages_of_def)
    also have "\<dots> = [1..cr_last_seq c + 1]" using seqs [OF c(1)] by (simp add: upto_rec2)
    finally show ?thesis using last seqs [OF c(1)] by simp
  next
    case False
    with c' have "c' \<in> set (d_convs d)" by (auto simp: set_update_where bump_row_def)
    then show ?thesis using seqs False row by (auto simp: messages_of_def)
  qed
  moreover have "map cr_id (d_convs ?d') = map cr_id (d_convs d)"
    by (simp add: map_update_where bump_row_def)
  moreover have "mr_conv row \<in> cr_id ` set (d_convs d)" using c row by (metis imageI)
  moreover have "distinct (map cr_id (d_convs d))" "\<forall>r \<in> set (d_msgs d). mr_conv r \<in> cr_id ` set (d_convs d)"
    using inv by (simp_all add: convs_inv_def)
  moreover have "cr_id ` set (d_convs ?d') = cr_id ` set (d_convs d)"
    using \<open>map cr_id (d_convs ?d') = map cr_id (d_convs d)\<close> by (metis image_set)
  ultimately have "convs_inv ?d'" unfolding convs_inv_def by auto
  then show ?thesis by (simp add: bump_conversation_def)
qed

text \<open>Members stay within the last sequence number as long as it does not fall.\<close>

lemma members_inv_mono:
  assumes "members_inv d" and "d_members d' = d_members d"
    and "\<And>c. c \<in> set (d_convs d) \<Longrightarrow>
      \<exists>c' \<in> set (d_convs d'). cr_id c' = cr_id c \<and> cr_last_seq c \<le> cr_last_seq c'"
  shows "members_inv d'"
proof -
  have "member_bound d' r" if r: "member_bound d r" for r
  proof -
    from r obtain c where c: "c \<in> set (d_convs d)" "cr_id c = mb_conv r"
      "mb_received_seq r \<le> cr_last_seq c" "mb_read_seq r \<le> cr_last_seq c"
      unfolding member_bound_def by blast
    obtain c' where "c' \<in> set (d_convs d')" "cr_id c' = cr_id c" "cr_last_seq c \<le> cr_last_seq c'"
      using assms(3) [OF c(1)] by blast
    with c r show ?thesis by (auto simp: member_bound_def intro!: bexI [of _ c'])
  qed
  with assms(1,2) show ?thesis by (auto simp: members_inv_def)
qed

lemma persist_inserted_inv:
  assumes inv: "store_inv d" and c: "c \<in> set (d_convs d)" "cr_id c = m_conv m"
    and new: "\<not> list_ex (\<lambda>r. (mr_conv r = m_conv m \<and> mr_seq r = cr_last_seq c + 1) \<or> mr_id r = m_id m
          \<or> (mr_sender r = m_sender m \<and> mr_client r = raw)) (d_msgs d)"
    and newo: "\<not> list_ex (\<lambda>r. ob_mid r = m_id m \<and> ob_event r = OutboxEventPush) (d_outbox d)"
  shows "store_inv (d\<lparr>d_convs := d_convs (bump_conversation m (cr_last_seq c + 1) now d),
              d_msgs := d_msgs d @ [message_row m raw (cr_last_seq c + 1) now],
              d_outbox := d_outbox d @ [outbox_of m members (cr_last_seq c + 1) now]\<rparr>)"
    (is "store_inv ?d'")
proof -
  let ?row = "message_row m raw (cr_last_seq c + 1) now"
  let ?ob = "outbox_of m members (cr_last_seq c + 1) now"
  have ci: "convs_inv d" and mi: "msgs_inv d" and bi: "members_inv d" and qi: "queue_inv (d_outbox d)"
    using inv by (simp_all add: store_inv_def)
  have "convs_inv ?d'"
    using persist_convs_inv [OF ci c, of ?row now]
    by (simp add: convs_inv_def messages_of_def message_row_def)
  moreover have "msgs_inv ?d'"
  proof -
    have "outbox_matches ?row ?ob"
      by (simp add: outbox_matches_def message_row_def outbox_of_def event_of_def)
    with mi have "list_all2 outbox_matches (d_msgs ?d') (d_outbox ?d')"
      by (auto simp: msgs_inv_def intro!: list_all2_appendI)
    with mi new show ?thesis by (auto simp: msgs_inv_def message_row_def list_ex_iff)
  qed
  moreover have "members_inv ?d'"
  proof (rule members_inv_mono [OF bi])
    fix c'
    assume c': "c' \<in> set (d_convs d)"
    have "cr_last_seq c' = cr_last_seq c" if "cr_id c' = m_conv m"
      using convs_inv_find [OF ci c' c(1)] that c(2) by simp
    then show "\<exists>c'' \<in> set (d_convs ?d'). cr_id c'' = cr_id c' \<and> cr_last_seq c' \<le> cr_last_seq c''"
      using update_where_mem [OF c', of "\<lambda>x. cr_id x = m_conv m" "bump_row m (cr_last_seq c + 1) now"]
      by (intro bexI [of _ "if cr_id c' = m_conv m then bump_row m (cr_last_seq c + 1) now c' else c'"])
        (auto simp: bump_conversation_def bump_row_def)
  qed simp
  moreover have "queue_inv (d_outbox ?d')"
  proof -
    have "\<not> before ?ob s" if s: "s \<in> set (d_outbox d)" for s
    proof
      assume b: "before ?ob s"
      from mi have "list_all2 outbox_matches (d_msgs d) (d_outbox d)" by (simp add: msgs_inv_def)
      from list_all2_right [OF this s] obtain r where r: "r \<in> set (d_msgs d)" "outbox_matches r s"
        by blast
      from outbox_matches_row [OF r(2)] b have "mr_conv r = cr_id c" "cr_last_seq c + 1 < mr_seq r"
        using c(2) by (auto simp: before_def row_conv_def row_seq_def outbox_of_def event_of_def)
      with messages_of_seq [OF ci c(1) r(1)] show False by simp
    qed
    then show ?thesis
      using newo by (auto simp: list_ex_iff outbox_of_def row_key_def intro!: queue_inv_append [OF qi])
  qed
  ultimately show ?thesis by (simp add: store_inv_def)
qed

lemma persist_tx_inv:
  assumes "persist_tx U now snap raw m members d = (Inr res, d')" and "store_inv d"
  shows "store_inv d'"
  using assms(1)
proof (cases rule: persist_tx_cases)
  case (reused r)
  with assms(2) show ?thesis by simp
next
  case (inserted c)
  from persist_inserted_inv [OF assms(2) inserted(2,3,6,7)] show ?thesis by (simp add: inserted(8))
qed

lemma cursor_inv:
  assumes inv: "store_inv d"
    and f: "\<And>r. mb_conv (f r) = mb_conv r \<and> mb_user (f r) = mb_user r
        \<and> mb_received_seq (f r) \<in> {mb_received_seq r, seq} \<and> mb_read_seq (f r) \<in> {mb_read_seq r, seq}"
    and cur: "\<And>r. cur r = mb_received_seq r \<or> cur r = mb_read_seq r"
  shows "store_inv (d\<lparr>d_members := update_where (cursor_target c u seq cur d) f (d_members d)\<rparr>)"
proof -
  let ?d' = "d\<lparr>d_members := update_where (cursor_target c u seq cur d) f (d_members d)\<rparr>"
  have mi: "members_inv d" and ci: "convs_inv d" using inv by (simp_all add: store_inv_def)
  have "member_bound ?d' r" if r: "r \<in> set (d_members d)" for r
    using mi r by (simp add: members_inv_def member_bound_def)
  moreover have "member_bound ?d' (f r)"
    if r: "r \<in> set (d_members d)" "cursor_target c u seq cur d r" for r
  proof -
    have low: "0 \<le> mb_received_seq r" "0 \<le> mb_read_seq r"
      using mi r(1) by (simp_all add: members_inv_def member_bound_def)
    moreover from this have "0 \<le> seq" using r(2) cur [of r] by (auto simp: cursor_target_def)
    moreover from mi r(1) obtain cv where cv: "cv \<in> set (d_convs d)" "cr_id cv = mb_conv r"
      "mb_received_seq r \<le> cr_last_seq cv" "mb_read_seq r \<le> cr_last_seq cv"
      unfolding members_inv_def member_bound_def by blast
    moreover from r(2) obtain cw where cw: "cw \<in> set (d_convs d)" "cr_id cw = mb_conv r" "seq \<le> cr_last_seq cw"
      unfolding cursor_target_def list_ex_iff by blast
    moreover have "cv = cw" using convs_inv_find [OF ci cv(1) cw(1)] cv(2) cw(2) by simp
    ultimately show ?thesis using f [of r] by (auto simp: member_bound_def intro!: bexI [of _ cw])
  qed
  ultimately have "\<forall>r \<in> set (d_members ?d'). member_bound ?d' r"
    by (auto simp: set_update_where)
  moreover have "map (\<lambda>r. (mb_conv r, mb_user r)) (d_members ?d') = map (\<lambda>r. (mb_conv r, mb_user r)) (d_members d)"
    using f by (simp add: map_update_where)
  ultimately have "members_inv ?d'" using mi by (simp add: members_inv_def)
  with inv show ?thesis by (simp add: store_inv_def convs_inv_def msgs_inv_def messages_of_def)
qed

lemma create_inv:
  assumes "create_tx now conv ids d = (Inr x, d')" and inv: "store_inv d"
  shows "store_inv d'"
  using assms(1)
proof (cases rule: create_tx_cases)
  case (1 row)
  have ci: "convs_inv d" and mi: "members_inv d" using inv by (simp_all add: store_inv_def)
  have none: "messages_of (co_id conv) d = []"
    using ci 1(6) by (auto simp: convs_inv_def messages_of_def filter_empty_conv)
  have "convs_inv d'"
    using ci 1 none by (auto simp: convs_inv_def messages_of_def)
  moreover have "members_inv d'"
  proof -
    have "member_bound d' r" if "member_bound d r" for r
      using that 1(9) by (auto simp: member_bound_def)
    moreover have "member_bound d' (new_member now conv u)" for u
      using 1 by (auto simp: member_bound_def new_member_def)
    moreover have "distinct (map (\<lambda>r. (mb_conv r, mb_user r)) (map (new_member now conv) ids))"
      using 1(7) by (simp add: distinct_map inj_on_def new_member_def)
    ultimately show ?thesis
      using mi 1(8,9) by (auto simp: members_inv_def new_member_def)
  qed
  ultimately show ?thesis using inv 1(9) by (simp add: store_inv_def msgs_inv_def)
qed

section \<open>Every reachable state\<close>

lemma store_step_inv: "store_step U d d' \<Longrightarrow> store_inv d \<Longrightarrow> store_inv d'"
proof (induction rule: store_step.induct)
  case (persist now snap m members d fs r1 d' fs')
  then show ?case using Persist_at_state persist_tx_inv by metis
next
  case (received c u seq d fs r2 d' fs')
  then have "d' = d \<or> d' = d\<lparr>d_members := update_where (cursor_target c u seq mb_received_seq d)
                (\<lambda>r. r\<lparr>mb_received_seq := seq\<rparr>) (d_members d)\<rparr>"
    by (auto simp: AdvanceReceivedCursor_def split: sum.splits prod.splits dest!: db_exec_cases)
  with received(2) cursor_inv [OF received(2)] show ?case by auto
next
  case (read c u seq d fs r2 d' fs')
  then have "d' = d \<or> d' = d\<lparr>d_members := update_where (cursor_target c u seq mb_read_seq d)
                (\<lambda>r. r\<lparr>mb_read_seq := seq\<rparr>) (d_members d)\<rparr>"
    by (auto simp: AdvanceReadCursor_def split: sum.splits prod.splits dest!: db_exec_cases)
  with read(2) cursor_inv [OF read(2)] show ?case by auto
next
  case (create now conv ids d fs r3 d' fs')
  then show ?case using CreateWithMembers_state create_inv by metis
next
  case (claim dbnow now snap skip batch shards owner lease d fs r4 d' fs')
  then show ?case using Claim_at_state claim_all_change by metis
next
  case (published now mid ev owner d fs r5 d' fs')
  then show ?case
    using update_outbox_state transition_inv(1) unfolding MarkPublished_def by metis
next
  case (failed now jitter mid ev err maxr backoff lease owner d fs r6 d' fs')
  then show ?case using MarkFailed_state transition_inv(2) by metis
next
  case (retry_dlq now mid ev backoff owner d fs r5 d' fs')
  then show ?case
    using update_outbox_state transition_inv(3) unfolding RetryDLQ_def by metis
next
  case (dead mid ev owner d fs r5 d' fs')
  then show ?case
    using update_outbox_state transition_inv(4) unfolding MarkDead_def by metis
qed

lemma store_inv_empty: "store_inv empty_db"
  by (simp add: store_inv_def convs_inv_def msgs_inv_def members_inv_def queue_inv_def empty_db_def)

lemma store_reachable_inv: "store_reachable U d \<Longrightarrow> store_inv d"
  by (induction rule: store_reachable.induct) (auto intro: store_inv_empty store_step_inv)

section \<open>A small database\<close>

text \<open>
  Users 7 and 9 with a direct conversation 5, in which 7 has sent one message that a publisher has
  claimed and published, and a second one that is pending. The concrete \<open>uuid_lib\<close> reads a text
  as its own bytes.
\<close>

definition demo_uuid :: uuid_lib where
  "demo_uuid = \<lparr>uuid_parse = (\<lambda>s. if s = [] then None else Some (map of_char s)),
                uuid_format = map char_of\<rparr>"

definition demo_conv :: conversation where
  "demo_conv = \<lparr>co_id = 5, co_type = TypeSingle, co_name = [], co_avatar = [], co_owner = 7,
     co_status = 1, co_last_seq = 0, co_last_mid = 0, co_last_type = 0, co_last_preview = [],
     co_last_at = None, co_read_seq = 0, co_received_seq = 0, co_unread = 0, co_created = 1000,
     co_updated = 0\<rparr>"

definition demo_content :: raw where
  "demo_content = Raw_json (JObj [(''text'', JStr [104, 105])])"

definition demo_message :: "int \<Rightarrow> string \<Rightarrow> message" where
  "demo_message i cid = \<lparr>m_id = i, m_client_id = cid, m_conv = 5, m_seq = 0, m_sender = 7, m_type = 1,
     m_content = demo_content, m_preview = Preview demo_content 1, m_status = StatusNormal,
     m_recalled_by = None, m_recalled_at = None, m_client_sent = None, m_created = 0\<rparr>"

definition demo_db1 :: db where
  "demo_db1 = fst (snd (CreateWithMembers 1000 demo_conv [9, 7] (empty_db, [])))"
definition demo_db2 :: db where
  "demo_db2 = fst (snd (Persist demo_uuid 2000 (demo_message 100 ''a'') [9, 7] (demo_db1, [])))"
definition demo_db3 :: db where
  "demo_db3 = fst (snd (Claim 3000 10 [OutboxShardID 5] ''w'' 5000 (demo_db2, [])))"
definition demo_db4 :: db where
  "demo_db4 = fst (snd (MarkPublished 3001 100 1 ''w'' (demo_db3, [])))"
definition demo_db5 :: db where
  "demo_db5 = fst (snd (Persist demo_uuid 4000 (demo_message 101 ''b'') [9, 7] (demo_db4, [])))"
definition demo_db6 :: db where
  "demo_db6 = fst (snd (AdvanceReadCursor 5 9 2 (demo_db5, [])))"

lemma state_of_call: "op = (fst op, (fst (snd op), snd (snd op)))"
  by simp

lemma demo_reachable: "store_reachable demo_uuid demo_db6" "store_reachable demo_uuid demo_db5"
proof -
  have s1: "store_reachable demo_uuid demo_db1"
    unfolding demo_db1_def
    by (rule store_reachable.step [OF store_reachable.start store_step.create]) (rule state_of_call)
  have s2: "store_reachable demo_uuid demo_db2"
    unfolding demo_db2_def Persist_def
    by (rule store_reachable.step [OF s1 store_step.persist]) (rule state_of_call)
  have s3: "store_reachable demo_uuid demo_db3"
    unfolding demo_db3_def Claim_def
    by (rule store_reachable.step [OF s2 store_step.claim]) (rule state_of_call)
  have s4: "store_reachable demo_uuid demo_db4"
    unfolding demo_db4_def
    by (rule store_reachable.step [OF s3 store_step.published]) (rule state_of_call)
  show s5: "store_reachable demo_uuid demo_db5"
    unfolding demo_db5_def Persist_def
    by (rule store_reachable.step [OF s4 store_step.persist]) (rule state_of_call)
  show "store_reachable demo_uuid demo_db6"
    unfolding demo_db6_def
    by (rule store_reachable.step [OF s5 store_step.read]) (rule state_of_call)
qed

definition demo_summary ::
  "db \<Rightarrow> int list \<times> int list \<times> int list \<times> (int \<times> int) list \<times> (int \<times> int option \<times> outbox_status) list"
where
  "demo_summary d =
     (map mr_seq (messages_of 5 d), map cr_id (d_convs d), map cr_last_seq (d_convs d),
      map (\<lambda>r. (mb_user r, mb_read_seq r)) (d_members d),
      map (\<lambda>r. (ob_mid r, row_seq r, ob_status r)) (d_outbox d))"

lemma demo_facts:
  "demo_summary demo_db6 =
     ([1, 2], [5], [2], [(9, 2), (7, 0)], [(100, Some 1, OutboxPublished), (101, Some 2, OutboxPending)])"
  by code_simp

section \<open>Replays\<close>

lemma msg_by_client_Some:
  "msgs_inv d \<Longrightarrow> r \<in> set (d_msgs d) \<Longrightarrow> msg_by_client (mr_sender r) (mr_client r) d = Some r"
  using find_key [of "\<lambda>r. (mr_sender r, mr_client r)" "d_msgs d" r]
  by (simp add: msgs_inv_def msg_by_client_def)

lemma Persist_replay:
  assumes "msg_by_client (m_sender m) raw d = Some r" and "uuid_parse U (m_client_id m) = Some raw"
  shows "Persist U now m members (d, []) = (Inr (toDomainMessage U r), (d, []))"
  using assms by (simp add: Persist_def Persist_at_def db_tx_ok persist_tx_def)

lemma persist_tx_found:
  assumes p: "persist_tx U now d raw m members d = (Inr a, d1)" and inv: "store_inv d"
  shows "\<exists>r. msg_by_client (m_sender m) raw d1 = Some r
     \<and> m_id a = mr_id r \<and> m_seq a = mr_seq r \<and> m_conv a = mr_conv r
     \<and> (msg_by_client (m_sender m) raw d \<noteq> None \<longrightarrow> d1 = d)
     \<and> (msg_by_client (m_sender m) raw d = None \<longrightarrow>
          d_msgs d1 = d_msgs d @ [r] \<and> mr_id r = m_id m \<and> mr_conv r = m_conv m)"
  using p
proof (cases rule: persist_tx_cases)
  case (reused r)
  then show ?thesis by (auto simp: toDomainMessage_def)
next
  case (inserted c)
  let ?r = "message_row m raw (cr_last_seq c + 1) now"
  have "msgs_inv d1" using persist_tx_inv [OF p inv] by (simp add: store_inv_def)
  then have "msg_by_client (mr_sender ?r) (mr_client ?r) d1 = Some ?r"
    by (rule msg_by_client_Some) (simp add: inserted(8))
  then show ?thesis using inserted(1,5,8) by (auto simp: message_row_def)
qed

lemma Persist_ok_cases:
  assumes "Persist U now m members (d, fs) = (Inr res, (d', fs'))" and inv: "store_inv d"
  shows "\<exists>raw r. uuid_parse U (m_client_id m) = Some raw \<and> msg_by_client (m_sender m) raw d' = Some r
     \<and> m_id res = mr_id r \<and> m_seq res = mr_seq r \<and> m_conv res = mr_conv r
     \<and> (msg_by_client (m_sender m) raw d \<noteq> None \<longrightarrow> d' = d)
     \<and> (msg_by_client (m_sender m) raw d = None \<longrightarrow>
          d_msgs d' = d_msgs d @ [r] \<and> mr_id r = m_id m \<and> mr_conv r = m_conv m)"
proof -
  obtain raw where raw: "uuid_parse U (m_client_id m) = Some raw"
    using assms(1) by (cases "uuid_parse U (m_client_id m)") (auto simp: Persist_def Persist_at_def)
  obtain x d1 fs1 where tx: "db_tx (persist_tx U now d raw m members) (d, fs) = (x, (d1, fs1))"
    by (metis prod.collapse)
  show ?thesis
  proof (cases x)
    case (Inr a)
    with tx have p: "persist_tx U now d raw m members d = (Inr a, d1)"
      by (auto simp: db_tx_def split: prod.splits sum.splits fault.splits)
    from assms(1) tx raw Inr have "res = a" "d' = d1" by (simp_all add: Persist_def Persist_at_def)
    with persist_tx_found [OF p inv] raw show ?thesis by (intro exI [of _ raw]) simp
  next
    case (Inl e)
    obtain y d2 fs2 where
      y: "FindByClientMessageID U (m_sender m) (m_client_id m) (d1, fs1) = (y, (d2, fs2))"
      by (metis prod.collapse)
    have "y = Inr (Some res) \<and> d' = d2"
      using assms(1) tx raw Inl y
      by (simp add: Persist_def Persist_at_def split: if_split_asm sum.split_asm option.split_asm)
    with y have f: "FindByClientMessageID U (m_sender m) (m_client_id m) (d1, fs1) = (Inr (Some res), (d', fs2))"
      by simp
    from FindByClientMessageID_state [OF f] have d': "d' = d1" by simp
    from f raw obtain r where r: "msg_by_client (m_sender m) raw d1 = Some r" "res = toDomainMessage U r"
      by (auto simp: FindByClientMessageID_def db_query_def split: prod.splits option.splits sum.splits)
    from db_tx_state [OF tx] show ?thesis
    proof
      assume "d1 = d"
      with r raw d' show ?thesis by (auto simp: toDomainMessage_def)
    next
      assume "\<exists>a. persist_tx U now d raw m members d = (Inr a, d1)"
      then obtain a where "persist_tx U now d raw m members d = (Inr a, d1)" ..
      from persist_tx_found [OF this inv] r raw d' show ?thesis
        by (intro exI [of _ raw]) (auto simp: toDomainMessage_def)
    qed
  qed
qed

section \<open>Properties\<close>

text \<open>
  C2: In every state that gateways and workers can bring the tables to, through any interleaving of
  transactions with any snapshots, lost answers and failures, the messages of a conversation are
  numbered 1, 2, ..., last_seq in the order in which they were stored: no gap, no duplicate, and
  no last_seq ahead of the messages.
\<close>

theorem sequences_gapless:
  assumes "store_reachable U d" and "c \<in> set (d_convs d)"
  shows "map mr_seq (messages_of (cr_id c) d) = [1..cr_last_seq c]"
  using store_reachable_inv [OF assms(1)] assms(2) by (simp add: store_inv_def convs_inv_def)

lemma sequences_gapless_witness:
  "\<exists>c \<in> set (d_convs demo_db6). map mr_seq (messages_of (cr_id c) demo_db6) = [1, 2]"
proof -
  from demo_facts obtain c where c: "c \<in> set (d_convs demo_db6)" "cr_last_seq c = 2"
    by (auto simp: demo_summary_def map_eq_Cons_conv)
  moreover have "[1..2::int] = [1, 2]" by code_simp
  ultimately have "map mr_seq (messages_of (cr_id c) demo_db6) = [1, 2]"
    using sequences_gapless [OF demo_reachable(1) c(1)] by simp
  with c(1) show ?thesis by (intro bexI)
qed

text \<open>
  C3: The persistence transaction stores a message exactly once. Whenever \<open>Persist\<close> succeeds, the
  message it answers is stored under the sender and the client id; it is a new row, the last one,
  exactly if there was none, and otherwise nothing changed; and persisting the same sender and
  client id again - with another message id, another body, at another time - answers the same
  message id, conversation and sequence number and changes nothing.
\<close>

theorem persist_exactly_once:
  assumes "store_reachable U d" and "Persist U now m members (d, fs) = (Inr res, (d', fs'))"
    and "m_sender m2 = m_sender m" and "m_client_id m2 = m_client_id m"
  shows "\<exists>raw r res2. uuid_parse U (m_client_id m) = Some raw
     \<and> msg_by_client (m_sender m) raw d' = Some r \<and> m_id res = mr_id r \<and> m_seq res = mr_seq r
     \<and> (if msg_by_client (m_sender m) raw d = None
        then d_msgs d' = d_msgs d @ [r] \<and> mr_id r = m_id m \<and> mr_conv r = m_conv m else d' = d)
     \<and> Persist U now2 m2 members2 (d', []) = (Inr res2, (d', []))
     \<and> m_id res2 = m_id res \<and> m_conv res2 = m_conv res \<and> m_seq res2 = m_seq res"
proof -
  obtain raw r where *: "uuid_parse U (m_client_id m) = Some raw
     \<and> msg_by_client (m_sender m) raw d' = Some r
     \<and> m_id res = mr_id r \<and> m_seq res = mr_seq r \<and> m_conv res = mr_conv r
     \<and> (msg_by_client (m_sender m) raw d \<noteq> None \<longrightarrow> d' = d)
     \<and> (msg_by_client (m_sender m) raw d = None \<longrightarrow>
          d_msgs d' = d_msgs d @ [r] \<and> mr_id r = m_id m \<and> mr_conv r = m_conv m)"
    using Persist_ok_cases [OF assms(2) store_reachable_inv [OF assms(1)]] by (elim exE)
  then have raw: "uuid_parse U (m_client_id m) = Some raw"
    and r: "msg_by_client (m_sender m) raw d' = Some r" by simp_all
  have "Persist U now2 m2 members2 (d', []) = (Inr (toDomainMessage U r), (d', []))"
    by (rule Persist_replay) (use r raw assms(3,4) in simp_all)
  with * show ?thesis
    by (intro exI [of _ raw] exI [of _ r] exI [of _ "toDomainMessage U r"]) (simp add: toDomainMessage_def)
qed

lemma persist_exactly_once_witness:
  "\<exists>res res2. fst (Persist demo_uuid 9 (demo_message 102 ''c'') [] (demo_db6, [])) = Inr res
     \<and> fst (Persist demo_uuid 10 (demo_message 103 ''c'') []
              (fst (snd (Persist demo_uuid 9 (demo_message 102 ''c'') [] (demo_db6, []))), [])) = Inr res2
     \<and> m_id res = 102 \<and> m_seq res = 3 \<and> m_id res2 = 102 \<and> m_seq res2 = 3"
proof -
  let ?p = "Persist demo_uuid 9 (demo_message 102 ''c'') [] (demo_db6, [])"
  have "map_sum (\<lambda>e. ()) (\<lambda>m. (m_id m, m_seq m)) (fst ?p) = Inr (102, 3)" by code_simp
  then obtain res where res: "fst ?p = Inr res" "m_id res = 102" "m_seq res = 3"
    by (cases "fst ?p") auto
  then have p: "?p = (Inr res, (fst (snd ?p), snd (snd ?p)))" by (simp add: prod_eq_iff)
  from persist_exactly_once [OF demo_reachable(1) p, of "demo_message 103 ''c''" 10 "[]"] res
  show ?thesis by (auto simp: demo_message_def)
qed

text \<open>
  C4: The transactional outbox: message ids and (sender, client id) pairs are unique, and the
  outbox holds exactly one row for each stored message, in the order of storage, in the shard of
  its conversation, carrying an event with the identity and the body of the message.
\<close>

theorem outbox_complete:
  assumes "store_reachable U d"
  shows "distinct (map mr_id (d_msgs d)) \<and> distinct (map (\<lambda>r. (mr_sender r, mr_client r)) (d_msgs d))
    \<and> list_all2 outbox_matches (d_msgs d) (d_outbox d)"
  using store_reachable_inv [OF assms] by (simp add: store_inv_def msgs_inv_def)

lemma outbox_complete_witness:
  "list_all2 outbox_matches (d_msgs demo_db6) (d_outbox demo_db6) \<and> length (d_outbox demo_db6) = 2"
proof -
  have "length (d_outbox demo_db6) = length (map (\<lambda>r. (ob_mid r, row_seq r, ob_status r)) (d_outbox demo_db6))"
    by simp
  also have "\<dots> = 2" using demo_facts by (simp only: demo_summary_def prod.inject) simp
  finally show ?thesis using outbox_complete [OF demo_reachable(1)] by simp
qed

text \<open>
  C6: The outbox is published in order within a conversation: while an earlier message of a
  conversation is not published or dead-lettered, no later one is published, dead-lettered, or
  even locked by a publisher.
\<close>

theorem outbox_in_order:
  assumes "store_reachable U d" and "r \<in> set (d_outbox d)" and "s \<in> set (d_outbox d)"
    and "row_conv r = row_conv s" and "ob_shard r = ob_shard s" and "row_seq r < row_seq s"
    and "ob_status s \<in> {OutboxPublished, OutboxDead} \<or> ob_locked_by s \<noteq> None"
  shows "ob_status r \<in> {OutboxPublished, OutboxDead}"
proof -
  have inv: "msgs_inv d" "queue_inv (d_outbox d)"
    using store_reachable_inv [OF assms(1)] by (simp_all add: store_inv_def)
  from list_all2_right [OF _ assms(2)] inv(1) obtain m where "outbox_matches m r"
    unfolding msgs_inv_def by blast
  from outbox_matches_row [OF this] have "before r s"
    using assms(4-6) by (auto simp: before_def)
  moreover have "advanced s" using assms(7) by (auto simp: advanced_def)
  ultimately have "\<not> unfinished (ob_status r)"
    using queue_invD(2) [OF inv(2) assms(2,3)] by blast
  then show ?thesis by (cases "ob_status r") simp_all
qed

definition demo_db7 :: db where
  "demo_db7 = fst (snd (Claim 5000 10 [942] ''v'' 5000 (demo_db6, [])))"

lemma demo_db7_rows:
  "map (\<lambda>r. (row_conv r, ob_shard r, row_seq r, ob_status r, ob_locked_by r)) (d_outbox demo_db7) =
     [(Some 5, 942, Some 1, OutboxPublished, None), (Some 5, 942, Some 2, OutboxRetrying, Some ''v'')]"
  by code_simp

lemma outbox_in_order_witness:
  "\<exists>r \<in> set (d_outbox demo_db7). \<exists>s \<in> set (d_outbox demo_db7).
     row_seq r = Some 1 \<and> row_seq s = Some 2 \<and> ob_locked_by s = Some ''v''
     \<and> ob_status r \<in> {OutboxPublished, OutboxDead}"
proof -
  have s7: "store_reachable demo_uuid demo_db7"
    unfolding demo_db7_def Claim_def
    by (rule store_reachable.step [OF demo_reachable(1) store_step.claim]) (rule state_of_call)
  from demo_db7_rows obtain r s where "d_outbox demo_db7 = [r, s]"
    by (auto simp: map_eq_Cons_conv)
  with demo_db7_rows have
    rs: "r \<in> set (d_outbox demo_db7)" "s \<in> set (d_outbox demo_db7)" "row_conv r = Some 5"
      "row_conv s = Some 5" "ob_shard r = 942" "ob_shard s = 942" "row_seq r = Some 1"
      "row_seq s = Some 2" "ob_locked_by s = Some ''v''"
    by simp_all
  with outbox_in_order [OF s7 rs(1,2)] show ?thesis by auto
qed

text \<open>
  C7: The lease is a fence: a publisher that no longer holds the lock of a row - it expired and
  another one claimed the row, or the row is already terminal - cannot change it. Marking it
  published, failed, to be retried or dead changes no row and reports that nothing was applied.
\<close>

theorem lease_fences:
  assumes "\<And>r. r \<in> set (d_outbox d) \<Longrightarrow> same_row mid ev r \<Longrightarrow> ob_locked_by r \<noteq> Some owner"
  shows "MarkPublished now mid ev owner (d, []) = (Inr False, (d, []))
    \<and> MarkFailed now jitter mid ev err maxr backoff lease owner (d, []) = (Inr (False, False), (d, []))
    \<and> RetryDLQ now mid ev backoff owner (d, []) = (Inr False, (d, []))
    \<and> MarkDead mid ev owner (d, []) = (Inr False, (d, []))"
proof -
  have no: "\<not> owned_row mid ev owner r" if "r \<in> set (d_outbox d)" for r
    using assms [OF that] by (auto simp: owned_row_def)
  have same: "update_where P f (d_outbox d) = d_outbox d" "affected P (d_outbox d) = 0"
    if "\<And>r. P r \<Longrightarrow> owned_row mid ev owner r" for P f
  proof -
    have nP: "\<not> P r" if "r \<in> set (d_outbox d)" for r using no [OF that] \<open>\<And>r. P r \<Longrightarrow> owned_row mid ev owner r\<close> by blast
    then show "update_where P f (d_outbox d) = d_outbox d" by (simp add: update_where_def map_idI)
    show "affected P (d_outbox d) = 0" using nP by (simp add: affected_def filter_empty_conv)
  qed
  have "find (owned_row mid ev owner) (d_outbox d) = None"
    using no by (auto simp: find_None_iff)
  moreover have "\<And>r. dlq_owned mid ev owner r \<Longrightarrow> owned_row mid ev owner r"
    by (simp add: dlq_owned_def)
  note dlq = same [of "dlq_owned mid ev owner", OF this]
  ultimately show ?thesis
    by (simp add: MarkPublished_def MarkFailed_def RetryDLQ_def MarkDead_def update_outbox_def
        set_outbox_def same dlq)
qed

lemma lease_fences_witness:
  "MarkPublished 6000 101 1 ''w'' (demo_db7, []) = (Inr False, (demo_db7, []))
   \<and> fst (MarkPublished 6000 101 1 ''v'' (demo_db7, [])) = Inr True"
proof -
  have "ob_locked_by r \<noteq> Some ''w''" if "r \<in> set (d_outbox demo_db7)" for r
  proof -
    have "(row_conv r, ob_shard r, row_seq r, ob_status r, ob_locked_by r) \<in>
        set (map (\<lambda>r. (row_conv r, ob_shard r, row_seq r, ob_status r, ob_locked_by r)) (d_outbox demo_db7))"
      using that by auto
    then show ?thesis unfolding demo_db7_rows by auto
  qed
  moreover have "fst (MarkPublished 6000 101 1 ''v'' (demo_db7, [])) = Inr True" by code_simp
  ultimately show ?thesis using lease_fences by blast
qed



end
