(* ===== verification/RedisStore.thy ===== *)
theory RedisStore
  imports Errs Codec Complex_Main "HOL-Library.Product_Lexorder" "HOL-Library.List_Lexorder" "HOL-Library.Char_ord"
begin

text \<open>
  \<open>internal/infrastructure/redis\<close>: the five Lua scripts and the stores over them - the fast
  idempotency of the gateway, the sync cursors, the one-time WebSocket tickets, the token bucket
  with its local fallback, and the presence registry. A script, a command or a pipeline is one
  atomic step of Redis; it can fail without an effect, or have its effect while the answer is
  lost. Time is in milliseconds; an expired key does not exist.
\<close>

section \<open>Redis\<close>

record ticket_data =
  td_user :: int
  td_device :: string
  td_issued :: int

record route =
  rt_conn :: string
  rt_user :: int
  rt_device :: string
  rt_node :: string
  rt_partition :: int

text \<open>
  String values: plain text, the JSON of a ticket or of a connection route, or JSON that does not
  unmarshal into what is expected.
\<close>

datatype rvalue = RText string | RTicket ticket_data | RRoute route | RGarbage string

record redis =
  rd_now :: int
  rd_str :: "string \<rightharpoonup> rvalue \<times> int"
  rd_hash :: "string \<rightharpoonup> (string \<rightharpoonup> string)"
  rd_bucket :: "string \<rightharpoonup> (rat \<times> int) \<times> int"
  rd_zset :: "string \<rightharpoonup> (string \<times> int) list \<times> int"
  rd_faults :: "gerr fault list"

definition empty_redis :: redis where
  "empty_redis = \<lparr>rd_now = 0, rd_str = Map.empty, rd_hash = Map.empty, rd_bucket = Map.empty,
     rd_zset = Map.empty, rd_faults = []\<rparr>"

definition redis_call :: "(redis \<Rightarrow> 'a \<times> redis) \<Rightarrow> redis \<Rightarrow> (gerr + 'a) \<times> redis" where
  "redis_call cmd r =
     (case pop_fault (rd_faults r) of (f, fs) \<Rightarrow>
        let r0 = r\<lparr>rd_faults := fs\<rparr> in
        (case cmd r0 of (a, r') \<Rightarrow>
           (case f of
              Reply \<Rightarrow> (Inr a, r')
            | Lost e \<Rightarrow> (Inl e, r0)
            | AckLost e \<Rightarrow> (Inl e, r'))))"

lemma redis_call_ok: "rd_faults r = [] \<Longrightarrow> redis_call cmd r = (case cmd r of (a, r') \<Rightarrow> (Inr a, r'))"
proof -
  assume f: "rd_faults r = []"
  then have eq: "r\<lparr>rd_faults := []\<rparr> = r" by (cases r) simp
  from f have "redis_call cmd r = (case cmd (r\<lparr>rd_faults := []\<rparr>) of (a, r') \<Rightarrow> (Inr a, r'))"
    by (simp add: redis_call_def Let_def)
  then show "redis_call cmd r = (case cmd r of (a, r') \<Rightarrow> (Inr a, r'))"
    unfolding eq .
qed

definition get_str :: "string \<Rightarrow> redis \<Rightarrow> rvalue option" where
  "get_str k r = (case rd_str r k of
      Some (v, ex) \<Rightarrow> if rd_now r < ex then Some v else None | None \<Rightarrow> None)"

definition set_str :: "string \<Rightarrow> rvalue \<Rightarrow> int \<Rightarrow> redis \<Rightarrow> redis" where
  "set_str k v ttl r = r\<lparr>rd_str := (rd_str r)(k \<mapsto> (v, rd_now r + ttl))\<rparr>"

definition del_str :: "string \<Rightarrow> redis \<Rightarrow> redis" where
  "del_str k r = r\<lparr>rd_str := (rd_str r)(k := None)\<rparr>"

section \<open>Keys\<close>

definition CursorKey :: "int \<Rightarrow> string" where
  "CursorKey c = ''im:cursor:'' @ FormatInt c"
definition PresenceUserKey :: "int \<Rightarrow> string" where
  "PresenceUserKey u = ''im:presence:'' @ FormatInt u @ '':conn''"
definition PresenceConnKey :: "string \<Rightarrow> string" where
  "PresenceConnKey c = ''im:presence:conn:'' @ c"
definition WSTicketKey :: "string \<Rightarrow> string" where
  "WSTicketKey token = ''im:ws-ticket:'' @ token"
definition IdemKey :: "int \<Rightarrow> string \<Rightarrow> string" where
  "IdemKey s cid = ''im:idem:'' @ FormatInt s @ '':'' @ cid"
definition RateSendKey :: "int \<Rightarrow> string" where
  "RateSendKey u = ''im:rate:send:'' @ FormatInt u"
definition RateSendConvKey :: "int \<Rightarrow> string" where
  "RateSendConvKey c = ''im:rate:send:conv:'' @ FormatInt c"
definition RateHistoryKey :: "int \<Rightarrow> int \<Rightarrow> string" where
  "RateHistoryKey u c = ''im:rate:history:'' @ FormatInt u @ '':'' @ FormatInt c"
definition RateLoginKey :: "string \<Rightarrow> string \<Rightarrow> string" where
  "RateLoginKey ip u = ''im:rate:login:'' @ ip @ '':'' @ u"
definition RateWSConnectIPKey :: "string \<Rightarrow> string" where
  "RateWSConnectIPKey ip = ''im:rate:ws:ip:'' @ ip"
definition RateWSConnectUserKey :: "int \<Rightarrow> string" where
  "RateWSConnectUserKey u = ''im:rate:ws:user:'' @ FormatInt u"

lemma append_colon_inj:
  "CHR '':'' \<notin> set p \<Longrightarrow> CHR '':'' \<notin> set q \<Longrightarrow>
   p @ CHR '':'' # x = q @ CHR '':'' # y \<Longrightarrow> p = q \<and> x = y"
proof (induction p arbitrary: q)
  case Nil
  then show ?case by (cases q) auto
next
  case (Cons a p)
  then show ?case by (cases q) auto
qed

lemma no_colon: "CHR '':'' \<notin> set (FormatInt i)"
proof -
  have "\<not> is_digit (CHR '':'')" by (simp add: is_digit_def)
  then show ?thesis using FormatInt_chars [of "CHR '':''" i] by auto
qed

lemma IdemKey_inj:
  "in_int64 s \<Longrightarrow> in_int64 t \<Longrightarrow> IdemKey s c = IdemKey t e \<Longrightarrow> s = t \<and> c = e"
  using append_colon_inj [OF no_colon no_colon, of s c t e] FormatInt_inj by (auto simp: IdemKey_def)

section \<open>Fast idempotency\<close>

datatype IdemResult = IdemTaken | IdemAlreadyAccepted | IdemProcessing

record idem_conf =
  ic_processing_ttl :: int
  ic_accepted_ttl :: int

definition idemAcceptedValue :: string where "idemAcceptedValue = ''accepted''"

definition nonceValue :: "string \<Rightarrow> string" where
  "nonceValue nonce = ''processing:'' @ nonce"

text \<open>The scripts \<open>acquire_message_idem\<close> and \<open>release_message_idem\<close>.\<close>

definition acquire_message_idem :: "string \<Rightarrow> string \<Rightarrow> int \<Rightarrow> string \<Rightarrow> redis \<Rightarrow> int \<times> redis" where
  "acquire_message_idem k proc ttl acc r =
     (case get_str k r of
        Some v \<Rightarrow> if v = RText acc then (2, r) else (3, r)
      | None \<Rightarrow> (1, set_str k (RText proc) ttl r))"

definition release_message_idem :: "string \<Rightarrow> string \<Rightarrow> string \<Rightarrow> int \<Rightarrow> redis \<Rightarrow> int \<times> redis" where
  "release_message_idem k own target ttl r =
     (if get_str k r \<noteq> Some (RText own) then (0, r)
      else if target = [] then (1, del_str k r)
      else (1, set_str k (RText target) ttl r))"

text \<open>\<open>nonceSeq\<close> is a counter of the process; it is the first component of the state.\<close>

definition newNonce :: "nat \<Rightarrow> string \<times> nat" where
  "newNonce n = (''n'' @ decimal (n + 1), n + 1)"

definition Acquire ::
  "idem_conf \<Rightarrow> int \<Rightarrow> string \<Rightarrow> nat \<times> redis \<Rightarrow> (gerr + IdemResult \<times> string) \<times> (nat \<times> redis)" where
  "Acquire conf s cid st =
     (case newNonce (fst st) of (nonce, n') \<Rightarrow>
        (case redis_call (acquire_message_idem (IdemKey s cid) (nonceValue nonce)
                (ic_processing_ttl conf) idemAcceptedValue) (snd st) of
           (Inl e, r') \<Rightarrow> (Inl (Wrap RedisUnavailable ''idempotency check failed'' (Some e)), (n', r'))
         | (Inr res, r') \<Rightarrow>
             (Inr (if res = 1 then (IdemTaken, nonce)
                   else if res = 2 then (IdemAlreadyAccepted, [])
                   else (IdemProcessing, [])), (n', r'))))"

definition MarkAccepted :: "idem_conf \<Rightarrow> int \<Rightarrow> string \<Rightarrow> string \<Rightarrow> redis \<Rightarrow> gerr option \<times> redis" where
  "MarkAccepted conf s cid nonce r =
     (case redis_call (release_message_idem (IdemKey s cid) (nonceValue nonce) idemAcceptedValue
             (ic_accepted_ttl conf)) r of
        (Inl e, r') \<Rightarrow> (Some (Wrap RedisUnavailable ''idempotency update failed'' (Some e)), r')
      | (Inr _, r') \<Rightarrow> (None, r'))"

definition Release :: "int \<Rightarrow> string \<Rightarrow> string \<Rightarrow> redis \<Rightarrow> gerr option \<times> redis" where
  "Release s cid nonce r =
     (case redis_call (release_message_idem (IdemKey s cid) (nonceValue nonce) [] 0) r of
        (Inl e, r') \<Rightarrow> (Some (Wrap RedisUnavailable ''idempotency release failed'' (Some e)), r')
      | (Inr _, r') \<Rightarrow> (None, r'))"

lemma nonceValue_not_accepted: "nonceValue n \<noteq> idemAcceptedValue"
  by (simp add: nonceValue_def idemAcceptedValue_def)

section \<open>Sync cursors\<close>

text \<open>
  \<open>advance_cursor\<close>: Lua numbers are doubles, exact for the sequence numbers below 2^53; a value
  that is no number makes the script fail. The hash has no time to live.
\<close>

definition advance_cursor :: "string \<Rightarrow> string \<Rightarrow> string \<Rightarrow> redis \<Rightarrow> int option \<times> redis" where
  "advance_cursor k field arg r =
     (let h = (case rd_hash r k of Some h \<Rightarrow> h | None \<Rightarrow> Map.empty) in
      case (ParseInt (case h field of Some v \<Rightarrow> v | None \<Rightarrow> ''0''), ParseInt arg) of
        (Some cur, Some new) \<Rightarrow>
          if cur < new then (Some new, r\<lparr>rd_hash := (rd_hash r)(k \<mapsto> h(field \<mapsto> arg))\<rparr>)
          else (Some cur, r)
      | _ \<Rightarrow> (None, r))"

definition cursor_Advance :: "int \<Rightarrow> int \<Rightarrow> int \<Rightarrow> redis \<Rightarrow> (gerr + int) \<times> redis" where
  "cursor_Advance c u seq r =
     (case redis_call (advance_cursor (CursorKey c) (FormatInt u) (FormatInt seq)) r of
        (Inl e, r') \<Rightarrow> (Inl (Wrap RedisUnavailable ''sync cursor advance failed'' (Some e)), r')
      | (Inr None, r') \<Rightarrow>
          (Inl (Wrap RedisUnavailable ''sync cursor advance failed'' (Some (OtherError ''script error''))), r')
      | (Inr (Some v), r') \<Rightarrow> (Inr v, r'))"

definition cursor_Get :: "int \<Rightarrow> int \<Rightarrow> redis \<Rightarrow> (gerr + int \<times> bool) \<times> redis" where
  "cursor_Get c u r =
     (case redis_call (\<lambda>r. (case rd_hash r (CursorKey c) of
              Some h \<Rightarrow> h (FormatInt u) | None \<Rightarrow> None, r)) r of
        (Inl e, r') \<Rightarrow> (Inl (Wrap RedisUnavailable ''sync cursor read failed'' (Some e)), r')
      | (Inr None, r') \<Rightarrow> (Inr (0, False), r')
      | (Inr (Some raw), r') \<Rightarrow>
          (case ParseInt raw of
             None \<Rightarrow> (Inl (Wrap RedisUnavailable ''sync cursor corrupt'' (Some (OtherError raw))), r')
           | Some seq \<Rightarrow> (Inr (seq, True), r')))"

section \<open>WebSocket tickets\<close>

text \<open>The token is the encoding of 32 bytes that \<open>crypto/rand\<close> delivers, a parameter.\<close>

definition Ticket_Create ::
  "int \<Rightarrow> string \<Rightarrow> int \<Rightarrow> string \<Rightarrow> int \<Rightarrow> redis \<Rightarrow> (gerr + string) \<times> redis" where
  "Ticket_Create ttl random u device now r =
     (let token = EncodeToString random;
          data = RTicket \<lparr>td_user = u, td_device = device, td_issued = now\<rparr> in
      case redis_call (\<lambda>r. if get_str (WSTicketKey token) r = None
                           then (True, set_str (WSTicketKey token) data ttl r) else (False, r)) r of
        (Inl e, r') \<Rightarrow> (Inl (Wrap RedisUnavailable ''ticket creation failed'' (Some e)), r')
      | (Inr False, r') \<Rightarrow> (Inl (Wrap InternalError ''ticket collision'' None), r')
      | (Inr True, r') \<Rightarrow> (Inr token, r'))"

definition consume_ws_ticket :: "string \<Rightarrow> redis \<Rightarrow> rvalue option \<times> redis" where
  "consume_ws_ticket k r =
     (case get_str k r of None \<Rightarrow> (None, r) | Some v \<Rightarrow> (Some v, del_str k r))"

definition Ticket_Consume :: "string \<Rightarrow> redis \<Rightarrow> (gerr + ticket_data option) \<times> redis" where
  "Ticket_Consume token r =
     (if token = [] then (Inr None, r)
      else case redis_call (consume_ws_ticket (WSTicketKey token)) r of
        (Inl e, r') \<Rightarrow>
          if errors_Is e RedisNil then (Inr None, r')
          else (Inl (Wrap RedisUnavailable ''ticket check failed'' (Some e)), r')
      | (Inr None, r') \<Rightarrow> (Inr None, r')
      | (Inr (Some (RTicket d)), r') \<Rightarrow> (Inr (Some d), r')
      | (Inr (Some _), r') \<Rightarrow> (Inl (Wrap InvalidTicket ''ticket data corrupt'' (Some (OtherError ''json''))), r'))"

section \<open>Token bucket\<close>

text \<open>
  \<open>token_bucket\<close>, with rational token counts in place of doubles. \<open>rd_bucket\<close> holds tokens,
  \<open>last_refill_ms\<close> and the expiry of the hash.
\<close>

definition bucket_state :: "rat \<Rightarrow> string \<Rightarrow> redis \<Rightarrow> rat \<times> int" where
  "bucket_state capacity k r =
     (case rd_bucket r k of
        Some ((tokens, since), ex) \<Rightarrow> if rd_now r < ex then (tokens, since) else (capacity, rd_now r)
      | None \<Rightarrow> (capacity, rd_now r))"

definition refill :: "rat \<Rightarrow> rat \<Rightarrow> rat \<Rightarrow> int \<Rightarrow> int \<Rightarrow> rat" where
  "refill capacity per_second tokens since now =
     (let elapsed = (if now - since < 0 then 0 else now - since);
          t = tokens + per_second * rat_of_int elapsed / 1000
      in if capacity < t then capacity else t)"

definition token_bucket :: "rat \<Rightarrow> rat \<Rightarrow> int \<Rightarrow> string \<Rightarrow> redis \<Rightarrow> bool \<times> redis" where
  "token_bucket capacity per_second ttl_s k r =
     (case bucket_state capacity k r of (tokens, since) \<Rightarrow>
        let t = refill capacity per_second tokens since (rd_now r);
            t' = (if 1 \<le> t then t - 1 else t)
        in (1 \<le> t, r\<lparr>rd_bucket := (rd_bucket r)(k \<mapsto> ((t', rd_now r), rd_now r + 1000 * ttl_s))\<rparr>))"

text \<open>
  \<open>Allow\<close> falls back to the local limiter when Redis fails. That limiter is \<open>x/time/rate\<close>, third-party
  code and a parameter on a state \<open>'l\<close>: \<open>allow key capacity perSecond\<close>.
\<close>

type_synonym 'l local_limiter = "string \<Rightarrow> rat \<Rightarrow> rat \<Rightarrow> 'l \<Rightarrow> bool \<times> 'l"

definition wait_ms :: "rat \<Rightarrow> int" where
  "wait_ms per_second = (if 0 < per_second then \<lfloor>1000 / per_second\<rfloor> else 0)"

definition allowL2 :: "string \<Rightarrow> rat \<Rightarrow> rat \<Rightarrow> int \<Rightarrow> redis \<Rightarrow> (gerr + bool \<times> int) \<times> redis" where
  "allowL2 k capacity per_second ttl_s r =
     (let ttl = (if ttl_s \<le> 0 then 120 else ttl_s) in
      case redis_call (token_bucket capacity per_second ttl k) r of
        (Inl e, r') \<Rightarrow> (Inl (Wrap RedisUnavailable ''rate limiter unavailable'' (Some e)), r')
      | (Inr True, r') \<Rightarrow> (Inr (True, 0), r')
      | (Inr False, r') \<Rightarrow> (Inr (False, wait_ms per_second), r'))"

definition allowL1 :: "'l local_limiter \<Rightarrow> string \<Rightarrow> rat \<Rightarrow> rat \<Rightarrow> 'l \<Rightarrow> (bool \<times> int) \<times> 'l" where
  "allowL1 loc k capacity per_second l =
     (case loc k capacity per_second l of (ok, l') \<Rightarrow>
        ((ok, if ok then 0 else wait_ms per_second), l'))"

definition Allow ::
  "'l local_limiter \<Rightarrow> string \<Rightarrow> rat \<Rightarrow> rat \<Rightarrow> int \<Rightarrow> redis \<times> 'l \<Rightarrow> (bool \<times> int) \<times> (redis \<times> 'l)" where
  "Allow loc k capacity per_second ttl_s st =
     (case allowL2 k capacity per_second ttl_s (fst st) of
        (Inr res, r') \<Rightarrow> (res, (r', snd st))
      | (Inl _, r') \<Rightarrow>
          (case allowL1 loc k capacity per_second (snd st) of (res, l') \<Rightarrow> (res, (r', l'))))"

definition AllowSendUser ::
  "'l local_limiter \<Rightarrow> int \<Rightarrow> rat \<Rightarrow> rat \<Rightarrow> redis \<times> 'l \<Rightarrow> (bool \<times> int) \<times> (redis \<times> 'l)" where
  "AllowSendUser loc u capacity per_second = Allow loc (RateSendKey u) capacity per_second 120"
definition AllowSendConversation ::
  "'l local_limiter \<Rightarrow> int \<Rightarrow> rat \<Rightarrow> rat \<Rightarrow> redis \<times> 'l \<Rightarrow> (bool \<times> int) \<times> (redis \<times> 'l)" where
  "AllowSendConversation loc c capacity per_second = Allow loc (RateSendConvKey c) capacity per_second 120"
definition AllowHistory ::
  "'l local_limiter \<Rightarrow> int \<Rightarrow> int \<Rightarrow> rat \<Rightarrow> rat \<Rightarrow> redis \<times> 'l \<Rightarrow> (bool \<times> int) \<times> (redis \<times> 'l)" where
  "AllowHistory loc u c capacity per_second = Allow loc (RateHistoryKey u c) capacity per_second 120"
definition AllowLogin ::
  "'l local_limiter \<Rightarrow> string \<Rightarrow> string \<Rightarrow> int \<Rightarrow> redis \<times> 'l \<Rightarrow> (bool \<times> int) \<times> (redis \<times> 'l)" where
  "AllowLogin loc ip u per_minute =
     Allow loc (RateLoginKey ip u) (rat_of_int per_minute) (rat_of_int per_minute / 60) 60"
definition AllowWSConnectIP ::
  "'l local_limiter \<Rightarrow> string \<Rightarrow> int \<Rightarrow> redis \<times> 'l \<Rightarrow> (bool \<times> int) \<times> (redis \<times> 'l)" where
  "AllowWSConnectIP loc ip per_minute =
     Allow loc (RateWSConnectIPKey ip) (rat_of_int per_minute) (rat_of_int per_minute / 60) 60"
definition AllowWSConnectUser ::
  "'l local_limiter \<Rightarrow> int \<Rightarrow> int \<Rightarrow> redis \<times> 'l \<Rightarrow> (bool \<times> int) \<times> (redis \<times> 'l)" where
  "AllowWSConnectUser loc u per_minute =
     Allow loc (RateWSConnectUserKey u) (rat_of_int per_minute) (rat_of_int per_minute / 60) 60"
definition AllowConnInbound ::
  "'l local_limiter \<Rightarrow> string \<Rightarrow> rat \<Rightarrow> rat \<Rightarrow> redis \<times> 'l \<Rightarrow> (bool \<times> int) \<times> (redis \<times> 'l)" where
  "AllowConnInbound loc k capacity per_second = Allow loc k capacity per_second 60"

section \<open>Presence\<close>

text \<open>
  A connection has a string key with its route and a member in the sorted set of its user, whose
  score is the time at which the route expires. A pipeline is one call.
\<close>

record presence_conf =
  pr_conn_ttl :: int
  pr_user_ttl :: int

definition zset_of :: "string \<Rightarrow> redis \<Rightarrow> (string \<times> int) list" where
  "zset_of k r = (case rd_zset r k of
      Some (z, ex) \<Rightarrow> if rd_now r < ex then z else [] | None \<Rightarrow> [])"

definition zset_expiry :: "string \<Rightarrow> redis \<Rightarrow> int option" where
  "zset_expiry k r = (case rd_zset r k of
      Some (z, ex) \<Rightarrow> if rd_now r < ex then Some ex else None | None \<Rightarrow> None)"

definition put_zset :: "string \<Rightarrow> (string \<times> int) list \<Rightarrow> int \<Rightarrow> redis \<Rightarrow> redis" where
  "put_zset k z ex r = r\<lparr>rd_zset := (rd_zset r)(k := if z = [] then None else Some (z, ex))\<rparr>"

definition zadd :: "string \<Rightarrow> int \<Rightarrow> (string \<times> int) list \<Rightarrow> (string \<times> int) list" where
  "zadd m score z = (m, score) # filter (\<lambda>p. fst p \<noteq> m) z"

definition zrem :: "string \<Rightarrow> (string \<times> int) list \<Rightarrow> (string \<times> int) list" where
  "zrem m z = filter (\<lambda>p. fst p \<noteq> m) z"

definition add_member :: "presence_conf \<Rightarrow> route \<Rightarrow> int \<Rightarrow> redis \<Rightarrow> redis" where
  "add_member conf rt now r =
     (let k = PresenceUserKey (rt_user rt) in
      put_zset k (zadd (rt_conn rt) (now + pr_conn_ttl conf) (zset_of k r))
        (rd_now r + pr_user_ttl conf) r)"

definition presence_failed :: "gerr \<Rightarrow> gerr" where
  "presence_failed e = Wrap RedisUnavailable ''presence unavailable'' (Some e)"

definition as_error :: "(gerr + 'a) \<times> 'w \<Rightarrow> gerr option \<times> 'w" where
  "as_error x = (case x of (Inl e, w) \<Rightarrow> (Some (presence_failed e), w) | (Inr _, w) \<Rightarrow> (None, w))"

text \<open>\<open>now\<close> is the clock of the gateway, \<open>rd_now\<close> the one of Redis.\<close>

definition presence_Register :: "presence_conf \<Rightarrow> int \<Rightarrow> route \<Rightarrow> redis \<Rightarrow> gerr option \<times> redis" where
  "presence_Register conf now rt r =
     as_error (redis_call (\<lambda>r. ((), add_member conf rt now
        (set_str (PresenceConnKey (rt_conn rt)) (RRoute rt) (pr_conn_ttl conf) r))) r)"

definition expire_str :: "string \<Rightarrow> int \<Rightarrow> redis \<Rightarrow> redis" where
  "expire_str k ttl r =
     (case get_str k r of Some v \<Rightarrow> set_str k v ttl r | None \<Rightarrow> r)"

definition presence_Heartbeat :: "presence_conf \<Rightarrow> int \<Rightarrow> route \<Rightarrow> redis \<Rightarrow> gerr option \<times> redis" where
  "presence_Heartbeat conf now rt r =
     as_error (redis_call (\<lambda>r. ((), add_member conf rt now
        (expire_str (PresenceConnKey (rt_conn rt)) (pr_conn_ttl conf) r))) r)"

definition zset_update :: "string \<Rightarrow> ((string \<times> int) list \<Rightarrow> (string \<times> int) list) \<Rightarrow> redis \<Rightarrow> redis" where
  "zset_update k f r =
     (case zset_expiry k r of None \<Rightarrow> r | Some ex \<Rightarrow> put_zset k (f (zset_of k r)) ex r)"

definition presence_Remove :: "string \<Rightarrow> int \<Rightarrow> redis \<Rightarrow> gerr option \<times> redis" where
  "presence_Remove cid u r =
     as_error (redis_call (\<lambda>r. ((), zset_update (PresenceUserKey u) (zrem cid)
        (del_str (PresenceConnKey cid) r))) r)"

fun unique_positive :: "int list \<Rightarrow> int list \<Rightarrow> int list" where
  "unique_positive seen [] = []"
| "unique_positive seen (u # us) =
     (if u \<le> 0 \<or> List.member seen u then unique_positive seen us
      else u # unique_positive (u # seen) us)"

text \<open>
  First pipeline: per user, drop the members whose score is not above now, and read the rest,
  ordered by score and then by member.
\<close>

fun prune_and_range :: "int \<Rightarrow> int list \<Rightarrow> redis \<Rightarrow> (int \<times> string list) list \<times> redis" where
  "prune_and_range now [] r = ([], r)"
| "prune_and_range now (u # us) r =
     (let r1 = zset_update (PresenceUserKey u) (filter (\<lambda>p. now < snd p)) r;
          ids = map fst (sort_key (\<lambda>p. (snd p, fst p)) (zset_of (PresenceUserKey u) r1)) in
      case prune_and_range now us r1 of (rest, r2) \<Rightarrow> ((u, ids) # rest, r2))"

text \<open>Each connection is looked up once, for the first user that lists it.\<close>

fun lookups :: "string list \<Rightarrow> (int \<times> string) list \<Rightarrow> (int \<times> string) list" where
  "lookups seen [] = []"
| "lookups seen ((u, c) # ps) =
     (if List.member seen c then lookups seen ps else (u, c) # lookups (c # seen) ps)"

definition pairs_of :: "(int \<times> string list) list \<Rightarrow> (int \<times> string) list" where
  "pairs_of xs = concat (map (\<lambda>(u, cs). map (Pair u) cs) xs)"

definition good_route :: "int \<Rightarrow> string \<Rightarrow> rvalue option \<Rightarrow> route option" where
  "good_route u c v =
     (case v of
        Some (RRoute rt) \<Rightarrow> if rt_user rt = u \<and> rt_conn rt = c then Some rt else None
      | _ \<Rightarrow> None)"

fun collect_routes ::
  "((int \<times> string) \<times> rvalue option) list \<Rightarrow> (int \<times> route) list \<times> (int \<times> string) list" where
  "collect_routes [] = ([], [])"
| "collect_routes (((u, c), v) # xs) =
     (case collect_routes xs of (good, stale) \<Rightarrow>
        (case good_route u c v of
           Some rt \<Rightarrow> ((u, rt) # good, stale)
         | None \<Rightarrow> (good, (u, c) # stale)))"

definition remove_stale :: "(int \<times> string) list \<Rightarrow> redis \<Rightarrow> redis" where
  "remove_stale stale r = fold (\<lambda>(u, c). zset_update (PresenceUserKey u) (zrem c)) stale r"

definition routes_for :: "int \<Rightarrow> (int \<times> route) list \<Rightarrow> route list" where
  "routes_for u good = map snd (filter (\<lambda>p. fst p = u) good)"

text \<open>
  Go iterates a map between the two pipelines; the users are taken in the order of the argument
  here. A failure of the cleanup pipeline is ignored.
\<close>

definition OnlineConnectionsBatch ::
  "int \<Rightarrow> int list \<Rightarrow> redis \<Rightarrow> (gerr + (int \<Rightarrow> route list)) \<times> redis" where
  "OnlineConnectionsBatch now userIDs r =
     (let users = unique_positive [] userIDs in
      if users = [] then (Inr (\<lambda>_. []), r)
      else case redis_call (prune_and_range now users) r of
        (Inl e, r1) \<Rightarrow> (Inl (presence_failed e), r1)
      | (Inr ids, r1) \<Rightarrow>
          let ls = lookups [] (pairs_of ids) in
          if ls = [] then (Inr (\<lambda>_. []), r1)
          else case redis_call (\<lambda>r. (map (\<lambda>(u, c). ((u, c), get_str (PresenceConnKey c) r)) ls, r)) r1 of
            (Inl e, r2) \<Rightarrow> (Inl (presence_failed e), r2)
          | (Inr vals, r2) \<Rightarrow>
              (case collect_routes vals of (good, stale) \<Rightarrow>
                 (Inr (\<lambda>u. routes_for u good),
                  if stale = [] then r2
                  else snd (redis_call (\<lambda>r. ((), remove_stale stale r)) r2))))"

definition OnlineConnections :: "int \<Rightarrow> int \<Rightarrow> redis \<Rightarrow> (gerr + route list) \<times> redis" where
  "OnlineConnections now u r =
     (case OnlineConnectionsBatch now [u] r of
        (Inl e, r') \<Rightarrow> (Inl e, r')
      | (Inr f, r') \<Rightarrow> (Inr (f u), r'))"

section \<open>Lemmas\<close>

lemma set_str_simps [simp]:
  "rd_faults (set_str k v ttl r) = rd_faults r" "rd_now (set_str k v ttl r) = rd_now r"
  "rd_faults (del_str k r) = rd_faults r" "rd_now (del_str k r) = rd_now r"
  "rd_zset (set_str k v ttl r) = rd_zset r" "rd_zset (del_str k r) = rd_zset r"
  by (simp_all add: set_str_def del_str_def)

lemma get_set_str: "get_str k ((set_str k v ttl r)\<lparr>rd_now := t\<rparr>) = (if t < rd_now r + ttl then Some v else None)"
  by (simp add: get_str_def set_str_def)

lemma get_del_str: "get_str k ((del_str k r)\<lparr>rd_now := t\<rparr>) = None"
  by (simp add: get_str_def del_str_def)

lemma redis_now_self: "r\<lparr>rd_now := rd_now r\<rparr> = r"
  by (cases r) simp

text \<open>The cursor of a user as the script reads it.\<close>

definition cursor_raw :: "int \<Rightarrow> int \<Rightarrow> redis \<Rightarrow> string option" where
  "cursor_raw c u r = (case rd_hash r (CursorKey c) of Some h \<Rightarrow> h (FormatInt u) | None \<Rightarrow> None)"

definition cursor_int :: "int \<Rightarrow> int \<Rightarrow> redis \<Rightarrow> int option" where
  "cursor_int c u r = (case cursor_raw c u r of Some v \<Rightarrow> ParseInt v | None \<Rightarrow> Some 0)"

lemma ParseInt_0: "ParseInt ''0'' = Some 0"
  by code_simp

lemma advance_cursor_step:
  assumes "cursor_int c u r = Some cur" and "in_int64 seq"
  shows "\<exists>r'. advance_cursor (CursorKey c) (FormatInt u) (FormatInt seq) r = (Some (max cur seq), r')
    \<and> cursor_int c u r' = Some (max cur seq) \<and> rd_faults r' = rd_faults r
    \<and> (cursor_raw c u r' = None \<longleftrightarrow> cursor_raw c u r = None \<and> seq \<le> cur)"
proof -
  define h where "h = (case rd_hash r (CursorKey c) of Some h \<Rightarrow> h | None \<Rightarrow> Map.empty)"
  have raw: "cursor_raw c u r = h (FormatInt u)"
    by (simp add: cursor_raw_def h_def split: option.split)
  have cur: "ParseInt (case h (FormatInt u) of Some v \<Rightarrow> v | None \<Rightarrow> ''0'') = Some cur"
    using assms(1) by (auto simp: cursor_int_def raw ParseInt_0 split: option.splits)
  show ?thesis
  proof (cases "cur < seq")
    case True
    with cur assms(2) show ?thesis
      by (auto simp: advance_cursor_def h_def [symmetric] Let_def ParseInt_FormatInt cursor_int_def
          cursor_raw_def max_def)
  next
    case False
    with cur assms show ?thesis
      by (auto simp: advance_cursor_def h_def [symmetric] Let_def ParseInt_FormatInt max_def)
  qed
qed

lemma cursor_Advance_step:
  assumes "rd_faults r = []" and "cursor_int c u r = Some cur" and "in_int64 seq"
  shows "\<exists>r'. cursor_Advance c u seq r = (Inr (max cur seq), r')
    \<and> cursor_int c u r' = Some (max cur seq) \<and> rd_faults r' = []"
  using advance_cursor_step [OF assms(2,3)] assms(1)
  by (auto simp: cursor_Advance_def redis_call_ok)

text \<open>Requests to one bucket at given times.\<close>

primrec bucket_run :: "rat \<Rightarrow> rat \<Rightarrow> int \<Rightarrow> string \<Rightarrow> int list \<Rightarrow> redis \<Rightarrow> bool list" where
  "bucket_run capacity per_second ttl_s k [] r = []"
| "bucket_run capacity per_second ttl_s k (t # ts) r =
     (case token_bucket capacity per_second ttl_s k (r\<lparr>rd_now := t\<rparr>) of
        (ok, r') \<Rightarrow> ok # bucket_run capacity per_second ttl_s k ts r')"

lemma token_bucket_credit:
  assumes b: "rd_bucket r k = Some ((tokens, since), since + 1000 * ttl)" and tok: "0 \<le> tokens"
    and time: "since \<le> now" and rate: "0 \<le> per_second" and cap: "0 \<le> capacity" "capacity \<le> per_second * rat_of_int ttl"
    and credit: "x + tokens \<le> capacity + per_second * rat_of_int (since - t0) / 1000"
    and call: "token_bucket capacity per_second ttl k (r\<lparr>rd_now := now\<rparr>) = (ok, r')"
  shows "\<exists>tokens'. rd_bucket r' k = Some ((tokens', now), now + 1000 * ttl) \<and> 0 \<le> tokens'
    \<and> x + of_bool ok + tokens' \<le> capacity + per_second * rat_of_int (now - t0) / 1000"
proof -
  obtain tk s where st: "bucket_state capacity k (r\<lparr>rd_now := now\<rparr>) = (tk, s)" by fastforce
  let ?t = "refill capacity per_second tk s now"
  define A where "A = per_second * rat_of_int (since - t0) / 1000"
  define B where "B = per_second * rat_of_int (now - t0) / 1000"
  define G where "G = per_second * rat_of_int (now - since) / 1000"
  have grow: "B = A + G" by (simp add: A_def B_def G_def field_simps)
  have credit': "x + tokens \<le> capacity + A" using credit by (simp only: A_def)
  have t: "0 \<le> ?t \<and> x + ?t \<le> capacity + B"
  proof (cases "now < since + 1000 * ttl")
    case True
    with st b have [simp]: "tk = tokens" "s = since" by (simp_all add: bucket_state_def)
    have "?t = (if capacity < tokens + G then capacity else tokens + G)"
      using time by (simp add: refill_def G_def Let_def)
    moreover have "0 \<le> G" unfolding G_def using rate time by simp
    ultimately show ?thesis using tok cap(1) credit' grow by auto
  next
    case False
    with st b have [simp]: "tk = capacity" "s = now" by (simp_all add: bucket_state_def)
    have "rat_of_int ttl \<le> rat_of_int (now - since) / 1000"
    proof -
      have "1000 * ttl \<le> now - since" using False by simp
      then have "rat_of_int (1000 * ttl) \<le> rat_of_int (now - since)" by (simp only: of_int_le_iff)
      then show ?thesis by simp
    qed
    then have "per_second * rat_of_int ttl \<le> per_second * (rat_of_int (now - since) / 1000)"
      using rate by (rule mult_left_mono)
    then have "capacity \<le> G" unfolding G_def using cap(2) by simp
    moreover have "?t = capacity" by (simp add: refill_def)
    ultimately show ?thesis using tok cap(1) credit' grow by simp
  qed
  let ?t' = "if 1 \<le> ?t then ?t - 1 else ?t"
  from call st have "ok = (1 \<le> ?t)" "rd_bucket r' k = Some ((?t', now), now + 1000 * ttl)"
    by (auto simp: token_bucket_def Let_def)
  with t show ?thesis unfolding B_def [symmetric] by auto
qed

lemma bucket_run_credit:
  "rd_bucket r k = Some ((tokens, since), since + 1000 * ttl) \<Longrightarrow> 0 \<le> tokens \<Longrightarrow> sorted (since # ts) \<Longrightarrow>
   0 \<le> per_second \<Longrightarrow> 0 \<le> capacity \<Longrightarrow> capacity \<le> per_second * rat_of_int ttl \<Longrightarrow>
   x + tokens \<le> capacity + per_second * rat_of_int (since - t0) / 1000 \<Longrightarrow>
   x + rat_of_nat (length (filter id (bucket_run capacity per_second ttl k ts r)))
     \<le> capacity + per_second * rat_of_int (last (since # ts) - t0) / 1000"
proof (induction ts arbitrary: r tokens since x)
  case Nil
  then show ?case by simp
next
  case (Cons t ts)
  obtain ok r' where call: "token_bucket capacity per_second ttl k (r\<lparr>rd_now := t\<rparr>) = (ok, r')" by fastforce
  from token_bucket_credit [OF Cons.prems(1,2) _ Cons.prems(4-7) call] Cons.prems(3)
  obtain tokens' where n: "rd_bucket r' k = Some ((tokens', t), t + 1000 * ttl)" "0 \<le> tokens'"
    "x + of_bool ok + tokens' \<le> capacity + per_second * rat_of_int (t - t0) / 1000" by auto
  have "sorted (t # ts)" using Cons.prems(3) by simp
  from Cons.IH [OF n(1,2) this Cons.prems(4-6) n(3)] call show ?case by (cases ok) simp_all
qed

section \<open>Presence: what a query returns\<close>

lemma zset_update_simps [simp]:
  "rd_faults (zset_update k f r) = rd_faults r" "rd_now (zset_update k f r) = rd_now r"
  "rd_str (zset_update k f r) = rd_str r"
  by (simp_all add: zset_update_def put_zset_def split: option.split)

lemma get_str_zset_update [simp]: "get_str k (zset_update k' f r) = get_str k r"
  by (simp add: get_str_def split: option.split)

lemma zset_of_update: "f [] = [] \<Longrightarrow> zset_of k (zset_update k f r) = f (zset_of k r)"
  by (auto simp: zset_of_def zset_update_def zset_expiry_def put_zset_def split: option.splits if_splits)

lemma set_lookups: "set (lookups seen (map (Pair u) cs)) = Pair u ` (set cs - set seen)"
  by (induction cs arbitrary: seen) (auto simp: List.member_iff)

lemma collect_routes_good:
  "(v, rt) \<in> set (fst (collect_routes xs)) \<longleftrightarrow> (\<exists>c x. ((v, c), x) \<in> set xs \<and> good_route v c x = Some rt)"
  by (induction xs rule: collect_routes.induct) (auto split: prod.splits option.splits)

lemma good_routeD: "good_route u c v = Some rt \<longleftrightarrow> v = Some (RRoute rt) \<and> rt_user rt = u \<and> rt_conn rt = c"
  by (auto simp: good_route_def split: option.splits rvalue.splits)

definition live_route :: "int \<Rightarrow> int \<Rightarrow> redis \<Rightarrow> route \<Rightarrow> bool" where
  "live_route now u r rt \<longleftrightarrow> rt_user rt = u \<and> get_str (PresenceConnKey (rt_conn rt)) r = Some (RRoute rt)
     \<and> (\<exists>(c, score) \<in> set (zset_of (PresenceUserKey u) r). c = rt_conn rt \<and> now < score)"

lemma OnlineConnections_live:
  assumes "rd_faults r = []" and "0 < u"
  shows "\<exists>routes r'. OnlineConnections now u r = (Inr routes, r') \<and> set routes = {rt. live_route now u r rt}"
proof -
  let ?k = "PresenceUserKey u"
  define r1 where "r1 = zset_update ?k (filter (\<lambda>p. now < snd p)) r"
  define ids where "ids = map fst (sort_key (\<lambda>p. (snd p, fst p)) (zset_of ?k r1))"
  define ls where "ls = lookups [] (map (Pair u) ids)"
  define vals where "vals = map (\<lambda>(u, c). ((u, c), get_str (PresenceConnKey c) r1)) ls"
  have z: "zset_of ?k r1 = filter (\<lambda>p. now < snd p) (zset_of ?k r)"
    by (simp add: r1_def zset_of_update)
  have ids: "c \<in> set ids \<longleftrightarrow> (\<exists>s. (c, s) \<in> set (zset_of ?k r) \<and> now < s)" for c
    by (force simp: ids_def z)
  have ls: "(v, c) \<in> set ls \<longleftrightarrow> v = u \<and> c \<in> set ids" for v c
    by (auto simp: ls_def set_lookups)
  have live: "live_route now u r rt \<longleftrightarrow> (u, rt) \<in> set (fst (collect_routes vals))" for rt
    by (auto simp: live_route_def collect_routes_good good_routeD vals_def ls ids r1_def image_iff
        Bex_def)
  have f: "rd_faults r1 = []" using assms(1) by (simp add: r1_def)
  have p: "prune_and_range now [u] r = ([(u, ids)], r1)"
    by (simp add: Let_def r1_def ids_def)
  have up: "unique_positive [] [u] = [u]" using assms(2) by (simp add: List.member_iff)
  have pairs: "pairs_of [(u, ids)] = map (Pair u) ids" by (simp add: pairs_of_def)
  show ?thesis
  proof (cases "ls = []")
    case True
    then have "{rt. live_route now u r rt} = {}" by (simp add: live vals_def)
    moreover have "OnlineConnections now u r = (Inr [], r1)"
      unfolding OnlineConnections_def OnlineConnectionsBatch_def up Let_def redis_call_ok [OF assms(1)] p
      using True by (simp add: pairs ls_def)
    ultimately show ?thesis by auto
  next
    case False
    obtain good stale where c: "collect_routes vals = (good, stale)" by fastforce
    have "\<exists>r'. OnlineConnections now u r = (Inr (routes_for u good), r')"
      unfolding OnlineConnections_def OnlineConnectionsBatch_def up Let_def redis_call_ok [OF assms(1)] p
      using False c f by (simp add: pairs ls_def [symmetric] redis_call_ok vals_def [symmetric])
    moreover have "set (routes_for u good) = {rt. live_route now u r rt}"
      using c by (auto simp: live routes_for_def image_iff)
    ultimately show ?thesis by blast
  qed
qed

lemma OnlineConnections_sound:
  assumes "rd_faults r = []" and "0 < u"
  shows "\<exists>routes. fst (OnlineConnections now u r) = Inr routes \<and> set routes = {rt. live_route now u r rt}"
  using OnlineConnections_live [OF assms, of now] by (metis fst_conv)

section \<open>Properties\<close>


definition demo_idem :: idem_conf where
  "demo_idem = \<lparr>ic_processing_ttl = 5000, ic_accepted_ttl = 600000\<rparr>"


text \<open>
  Nonces are unique only inside one process, but the key is shared by all gateways: two
  processes whose counters are equal draw the same nonce. When the first one is slow and its claim
  has expired, its release deletes the claim of the second one, and a third sender obtains the
  right to send while the second is still sending.
\<close>

theorem shared_nonce_releases_foreign_claim:
  "let (ra, (na, r1)) = Acquire demo_idem 7 ''m'' (0, empty_redis);
       (rb, (nb, r2)) = Acquire demo_idem 7 ''m'' (0, r1\<lparr>rd_now := 5000\<rparr>);
       r3 = snd (Release 7 ''m'' ''n1'' (r2\<lparr>rd_now := 5001\<rparr>));
       rc = fst (Acquire demo_idem 7 ''m'' (4, r3\<lparr>rd_now := 5002\<rparr>))
   in ra = Inr (IdemTaken, ''n1'') \<and> rb = Inr (IdemTaken, ''n1'') \<and> rc = Inr (IdemTaken, ''n5'')"
  by code_simp

text \<open>
  Sync cursors only grow and do not depend on the order of the updates: advancing by two
  values in either order answers the running maximum and leaves the maximum of both and of the
  old value.
\<close>

theorem sync_cursor_max:
  assumes "rd_faults r = []" and "cursor_int c u r = Some cur" and "in_int64 a" and "in_int64 b"
  shows "fst (cursor_Advance c u a r) = Inr (max cur a)
    \<and> cursor_int c u (snd (cursor_Advance c u b (snd (cursor_Advance c u a r)))) = Some (max cur (max a b))
    \<and> cursor_int c u (snd (cursor_Advance c u a (snd (cursor_Advance c u b r)))) = Some (max cur (max a b))"
proof -
  obtain ra where ra: "cursor_Advance c u a r = (Inr (max cur a), ra)"
    "cursor_int c u ra = Some (max cur a)" "rd_faults ra = []"
    using cursor_Advance_step [OF assms(1,2,3)] by blast
  obtain rb where rb: "cursor_Advance c u b r = (Inr (max cur b), rb)"
    "cursor_int c u rb = Some (max cur b)" "rd_faults rb = []"
    using cursor_Advance_step [OF assms(1,2,4)] by blast
  show ?thesis
    using cursor_Advance_step [OF ra(3,2) assms(4)] cursor_Advance_step [OF rb(3,2) assms(3)] ra(1) rb(1)
    by (auto simp: max.assoc max.commute)
qed

lemma sync_cursor_max_witness:
  "cursor_int 5 7 (snd (cursor_Advance 5 7 3 (snd (cursor_Advance 5 7 8 empty_redis)))) = Some 8"
  using sync_cursor_max [of empty_redis 5 7 0 8 3]
  by (simp add: empty_redis_def cursor_int_def cursor_raw_def in_int64_def int64_min_def int64_max_def)

text \<open>
  A WebSocket ticket opens one connection: within its lifetime the first use yields the user
  and the device it was issued for, every later use yields nothing, and after its lifetime it
  yields nothing at all.
\<close>

theorem ticket_single_use:
  assumes "rd_faults r = []" and "Ticket_Create ttl random u dev now r = (Inr token, r')" and "random \<noteq> []"
    and "t \<le> t2"
  shows "(if t < rd_now r + ttl
      then \<exists>d. fst (Ticket_Consume token (r'\<lparr>rd_now := t\<rparr>)) = Inr (Some d) \<and> td_user d = u \<and> td_device d = dev
      else fst (Ticket_Consume token (r'\<lparr>rd_now := t\<rparr>)) = Inr None)
    \<and> fst (Ticket_Consume token ((snd (Ticket_Consume token (r'\<lparr>rd_now := t\<rparr>)))\<lparr>rd_now := t2\<rparr>)) = Inr None"
proof -
  let ?d = "\<lparr>td_user = u, td_device = dev, td_issued = now\<rparr>"
  from assms(1,2) have token: "token = EncodeToString random"
    and r': "r' = set_str (WSTicketKey token) (RTicket ?d) ttl r"
    by (auto simp: Ticket_Create_def Let_def redis_call_ok split: if_splits)
  have ne: "token \<noteq> []"
  proof
    assume "token = []"
    then have "DecodeString [] = Some random" using DecodeString_EncodeToString [of random] token by simp
    moreover have "DecodeString [] = Some []" by (simp add: DecodeString_def)
    ultimately show False using assms(3) by simp
  qed
  have f: "rd_faults (r'\<lparr>rd_now := t\<rparr>) = []" using assms(1) by (simp add: r')
  have g: "get_str (WSTicketKey token) (r'\<lparr>rd_now := t\<rparr>) = (if t < rd_now r + ttl then Some (RTicket ?d) else None)"
    by (simp add: r' get_set_str)
  have dead: "fst (Ticket_Consume token (x\<lparr>rd_now := t2\<rparr>)) = Inr None"
    if "get_str (WSTicketKey token) (x\<lparr>rd_now := t2\<rparr>) = None" "rd_faults x = []" for x
    using that ne by (simp add: Ticket_Consume_def redis_call_ok consume_ws_ticket_def)
  show ?thesis
  proof (cases "t < rd_now r + ttl")
    case True
    then have c: "Ticket_Consume token (r'\<lparr>rd_now := t\<rparr>) = (Inr (Some ?d), del_str (WSTicketKey token) (r'\<lparr>rd_now := t\<rparr>))"
      using f g ne by (simp add: Ticket_Consume_def redis_call_ok consume_ws_ticket_def)
    show ?thesis using True c dead [of "del_str (WSTicketKey token) (r'\<lparr>rd_now := t\<rparr>)"] f
      by (simp add: get_del_str)
  next
    case False
    then have c: "Ticket_Consume token (r'\<lparr>rd_now := t\<rparr>) = (Inr None, r'\<lparr>rd_now := t\<rparr>)"
      using f g ne by (simp add: Ticket_Consume_def redis_call_ok consume_ws_ticket_def)
    have "fst (Ticket_Consume token ((r'\<lparr>rd_now := t\<rparr>)\<lparr>rd_now := t2\<rparr>)) = Inr None"
      using dead [of "r'\<lparr>rd_now := t\<rparr>"] f False assms(4) by (simp add: r' get_set_str)
    then show ?thesis using False c by simp
  qed
qed

lemma ticket_single_use_witness:
  "\<exists>token r' d. Ticket_Create 60000 ''r4nd'' 7 ''web'' 0 empty_redis = (Inr token, r')
     \<and> fst (Ticket_Consume token (r'\<lparr>rd_now := 10\<rparr>)) = Inr (Some d) \<and> td_user d = 7
     \<and> fst (Ticket_Consume token ((snd (Ticket_Consume token (r'\<lparr>rd_now := 10\<rparr>)))\<lparr>rd_now := 11\<rparr>)) = Inr None"
proof -
  have "\<exists>token r'. Ticket_Create 60000 ''r4nd'' 7 ''web'' 0 empty_redis = (Inr token, r') \<and> rd_now r' = 0"
    by (simp add: Ticket_Create_def empty_redis_def redis_call_def get_str_def set_str_def Let_def)
  then obtain token r' where c: "Ticket_Create 60000 ''r4nd'' 7 ''web'' 0 empty_redis = (Inr token, r')" by blast
  have "rd_faults empty_redis = []" "rd_now empty_redis = 0" by (simp_all add: empty_redis_def)
  with c ticket_single_use [OF _ c, of 10 11] show ?thesis by auto
qed

primrec allow_run ::
  "'l local_limiter \<Rightarrow> string \<Rightarrow> rat \<Rightarrow> rat \<Rightarrow> int \<Rightarrow> int list \<Rightarrow> redis \<times> 'l \<Rightarrow> bool list" where
  "allow_run loc k capacity per_second ttl_s [] st = []"
| "allow_run loc k capacity per_second ttl_s (t # ts) st =
     (case Allow loc k capacity per_second ttl_s ((fst st)\<lparr>rd_now := t\<rparr>, snd st) of
        ((ok, wait), st') \<Rightarrow> ok # allow_run loc k capacity per_second ttl_s ts st')"

lemma allow_run_bucket:
  "rd_faults r = [] \<Longrightarrow> 0 < ttl_s \<Longrightarrow>
   allow_run loc k capacity per_second ttl_s ts (r, l) = bucket_run capacity per_second ttl_s k ts r"
proof (induction ts arbitrary: r)
  case Nil
  then show ?case by simp
next
  case (Cons t ts)
  obtain ok r' where call: "token_bucket capacity per_second ttl_s k (r\<lparr>rd_now := t\<rparr>) = (ok, r')" by fastforce
  then have "rd_faults r' = []"
    using Cons.prems(1) by (auto simp: token_bucket_def Let_def split: prod.splits)
  with Cons call show ?case
    by (cases ok) (simp_all add: Allow_def allowL2_def redis_call_ok)
qed



lemma zset_of_now: "zset_of k (r\<lparr>rd_now := s\<rparr>) = (case rd_zset r k of
      Some (z, ex) \<Rightarrow> if s < ex then z else [] | None \<Rightarrow> [])"
  by (simp add: zset_of_def split: option.split)

lemma presence_Register_ok:
  assumes "rd_faults r = []" and "presence_Register conf now rt r = (None, r')"
  shows "rd_faults r' = []"
    and "s < rd_now r + pr_conn_ttl conf \<Longrightarrow> get_str (PresenceConnKey (rt_conn rt)) (r'\<lparr>rd_now := s\<rparr>) = Some (RRoute rt)"
    and "s < rd_now r + pr_user_ttl conf \<Longrightarrow>
      (rt_conn rt, now + pr_conn_ttl conf) \<in> set (zset_of (PresenceUserKey (rt_user rt)) (r'\<lparr>rd_now := s\<rparr>))"
proof -
  have r': "r' = add_member conf rt now (set_str (PresenceConnKey (rt_conn rt)) (RRoute rt) (pr_conn_ttl conf) r)"
    using assms by (simp add: presence_Register_def redis_call_ok as_error_def)
  show "rd_faults r' = []" using assms(1) by (simp add: r' add_member_def put_zset_def Let_def)
  show "get_str (PresenceConnKey (rt_conn rt)) (r'\<lparr>rd_now := s\<rparr>) = Some (RRoute rt)"
    if "s < rd_now r + pr_conn_ttl conf"
    using that by (simp add: r' add_member_def put_zset_def Let_def get_str_def set_str_def)
  show "(rt_conn rt, now + pr_conn_ttl conf) \<in> set (zset_of (PresenceUserKey (rt_user rt)) (r'\<lparr>rd_now := s\<rparr>))"
    if "s < rd_now r + pr_user_ttl conf"
    using that by (simp add: r' add_member_def put_zset_def zset_of_now zadd_def Let_def)
qed

lemma presence_Remove_gone:
  assumes "rd_faults r = []"
  shows "rd_faults (snd (presence_Remove c u r)) = []"
    and "\<not> live_route now u (snd (presence_Remove c u r)) x \<or> rt_conn x \<noteq> c"
proof -
  have e: "snd (presence_Remove c u r) = zset_update (PresenceUserKey u) (zrem c) (del_str (PresenceConnKey c) r)"
    using assms by (simp add: presence_Remove_def redis_call_ok as_error_def)
  show "rd_faults (snd (presence_Remove c u r)) = []" using assms by (simp add: e)
  show "\<not> live_route now u (snd (presence_Remove c u r)) x \<or> rt_conn x \<noteq> c"
    by (auto simp: e live_route_def zset_of_update zrem_def)
qed

text \<open>
  Presence follows the connection. After a connection is registered, and until the earliest
  of its expiry times, a query for its user answers its route; whatever a query for a user
  answers are routes of that user; after the connection is removed no query finds it.
\<close>

theorem presence_tracks_connections:
  assumes "rd_faults r = []" and "presence_Register conf now rt r = (None, r')" and "0 < rt_user rt"
    and "t < now + pr_conn_ttl conf" and "s < rd_now r + min (pr_conn_ttl conf) (pr_user_ttl conf)"
  shows "(\<exists>routes. fst (OnlineConnections t (rt_user rt) (r'\<lparr>rd_now := s\<rparr>)) = Inr routes
        \<and> rt \<in> set routes \<and> (\<forall>x \<in> set routes. rt_user x = rt_user rt))
    \<and> (\<exists>routes. fst (OnlineConnections t' (rt_user rt)
            (snd (presence_Remove (rt_conn rt) (rt_user rt) (r'\<lparr>rd_now := s\<rparr>)))) = Inr routes
        \<and> (\<forall>x \<in> set routes. rt_conn x \<noteq> rt_conn rt))"
proof -
  let ?r = "r'\<lparr>rd_now := s\<rparr>"
  let ?q = "snd (presence_Remove (rt_conn rt) (rt_user rt) ?r)"
  have f: "rd_faults ?r = []" using presence_Register_ok(1) [OF assms(1,2)] by simp
  obtain routes where a: "fst (OnlineConnections t (rt_user rt) ?r) = Inr routes"
    "set routes = {x. live_route t (rt_user rt) ?r x}"
    using OnlineConnections_sound [OF f assms(3)] by blast
  obtain routes' where b: "fst (OnlineConnections t' (rt_user rt) ?q) = Inr routes'"
    "set routes' = {x. live_route t' (rt_user rt) ?q x}"
    using OnlineConnections_sound [OF presence_Remove_gone(1) [OF f] assms(3)] by blast
  have "live_route t (rt_user rt) ?r rt"
    using presence_Register_ok(2,3) [OF assms(1,2), of s] assms(4,5) unfolding live_route_def by fastforce
  then have "rt \<in> set routes" unfolding a(2) ..
  moreover have "\<forall>x \<in> set routes. rt_user x = rt_user rt"
    unfolding a(2) by (simp add: live_route_def)
  moreover have "\<forall>x \<in> set routes'. rt_conn x \<noteq> rt_conn rt"
    unfolding b(2) using presence_Remove_gone(2) [OF f] by blast
  ultimately show ?thesis using a(1) b(1) by blast
qed

definition demo_presence :: presence_conf where
  "demo_presence = \<lparr>pr_conn_ttl = 90000, pr_user_ttl = 180000\<rparr>"

definition demo_route :: route where
  "demo_route = \<lparr>rt_conn = ''c1'', rt_user = 7, rt_device = ''web'', rt_node = ''n'', rt_partition = 3\<rparr>"

lemma presence_tracks_connections_witness:
  "\<exists>r' routes. presence_Register demo_presence 0 demo_route empty_redis = (None, r')
     \<and> fst (OnlineConnections 89999 7 (r'\<lparr>rd_now := 89999\<rparr>)) = Inr routes \<and> demo_route \<in> set routes"
proof -
  have f: "rd_faults empty_redis = []" by (simp add: empty_redis_def)
  then obtain r' where r: "presence_Register demo_presence 0 demo_route empty_redis = (None, r')"
    by (simp add: presence_Register_def redis_call_ok as_error_def)
  have u: "rt_user demo_route = 7" by (simp add: demo_route_def)
  from presence_tracks_connections [OF f r, of 89999 89999 0] r show ?thesis
    unfolding u by (auto simp: demo_presence_def empty_redis_def)
qed

end
