(* ===== verification/Svc.thy ===== *)
theory Svc
  imports Errs
begin

text \<open>
  Service functions: a computation takes the world \<open>'w\<close> and answers an error or a value with the
  new world. \<open>bindE\<close> is the early return \<open>if err != nil { return err }\<close>.
\<close>

type_synonym ('w, 'a) svc = "'w \<Rightarrow> (gerr + 'a) \<times> 'w"

definition returnE :: "'a \<Rightarrow> ('w, 'a) svc" where
  "returnE a w = (Inr a, w)"

definition failE :: "gerr \<Rightarrow> ('w, 'a) svc" where
  "failE e w = (Inl e, w)"

definition bindE :: "('w, 'a) svc \<Rightarrow> ('a \<Rightarrow> ('w, 'b) svc) \<Rightarrow> ('w, 'b) svc" where
  "bindE m f w = (case m w of (Inl e, w') \<Rightarrow> (Inl e, w') | (Inr a, w') \<Rightarrow> f a w')"

text \<open>A computation whose error is looked at instead of returned, and one that has only an error.\<close>

definition tryE :: "('w, 'a) svc \<Rightarrow> ('w, gerr + 'a) svc" where
  "tryE m w = (case m w of (r, w') \<Rightarrow> (Inr r, w'))"

definition errE :: "('w \<Rightarrow> gerr option \<times> 'w) \<Rightarrow> ('w, unit) svc" where
  "errE m w = (case m w of (Some e, w') \<Rightarrow> (Inl e, w') | (None, w') \<Rightarrow> (Inr (), w'))"

text \<open>A computation on a part of the world, given how the part is read and replaced.\<close>

definition zoomE :: "('w \<Rightarrow> 'p) \<Rightarrow> ('p \<Rightarrow> 'w \<Rightarrow> 'w) \<Rightarrow> ('p \<Rightarrow> 'a \<times> 'p) \<Rightarrow> 'w \<Rightarrow> 'a \<times> 'w" where
  "zoomE get put m w = (case m (get w) of (a, p') \<Rightarrow> (a, put p' w))"

lemma returnE_apply [simp]: "returnE a w = (Inr a, w)"
  by (simp add: returnE_def)

lemma failE_apply [simp]: "failE e w = (Inl e, w)"
  by (simp add: failE_def)

lemma bindE_Inl: "m w = (Inl e, w') \<Longrightarrow> bindE m f w = (Inl e, w')"
  by (simp add: bindE_def)

lemma bindE_Inr: "m w = (Inr a, w') \<Longrightarrow> bindE m f w = f a w'"
  by (simp add: bindE_def)

lemma bindE_return [simp]: "bindE (returnE a) f w = f a w" "bindE (failE e) f w = (Inl e, w)"
  by (simp_all add: bindE_def)

lemma bindE_ok:
  "bindE m f w = (Inr b, w'') \<longleftrightarrow> (\<exists>a w'. m w = (Inr a, w') \<and> f a w' = (Inr b, w''))"
  by (auto simp: bindE_def split: prod.split sum.split)

lemma bindE_okE:
  assumes "bindE m f w = (Inr b, w'')"
  obtains a w' where "m w = (Inr a, w')" "f a w' = (Inr b, w'')"
  using assms by (auto simp: bindE_ok)

lemma bindE_err:
  "bindE m f w = (Inl e, w'') \<longleftrightarrow>
     m w = (Inl e, w'') \<or> (\<exists>a w'. m w = (Inr a, w') \<and> f a w' = (Inl e, w''))"
  by (auto simp: bindE_def split: prod.split sum.split)

lemma tryE_apply: "m w = (r, w') \<Longrightarrow> tryE m w = (Inr r, w')"
  by (simp add: tryE_def)

lemma errE_None: "m w = (None, w') \<Longrightarrow> errE m w = (Inr (), w')"
  by (simp add: errE_def)

lemma errE_Some: "m w = (Some e, w') \<Longrightarrow> errE m w = (Inl e, w')"
  by (simp add: errE_def)

lemma errE_ok: "errE m w = (Inr u, w') \<longleftrightarrow> m w = (None, w')"
  by (auto simp: errE_def split: prod.split option.split)

lemma zoomE_apply: "m (get w) = (a, p) \<Longrightarrow> zoomE get put m w = (a, put p w)"
  by (simp add: zoomE_def)

end
