(* ===== verification/IdPort.thy ===== *)
theory IdPort
  imports Svc Idgen
begin

text \<open>
  The port \<open>idgen.IDGenerator\<close> through which the services and the persist worker draw
  identifiers, as a contract: a call answers an error or an identifier, and the identifiers that
  one process draws strictly increase. The segment generator keeps it.
\<close>

locale id_generator =
  fixes draw :: "('g, int) svc"
    and position :: "'g \<Rightarrow> int"
    and sound :: "'g \<Rightarrow> bool"
  assumes draw_sound: "sound g \<Longrightarrow> draw g = (r, g') \<Longrightarrow> sound g' \<and> position g \<le> position g'"
    and draw_fresh: "sound g \<Longrightarrow> draw g = (Inr i, g') \<Longrightarrow> position g \<le> i \<and> i < position g'"
begin

text \<open>\<open>n\<close> calls in a row; failed ones answer nothing.\<close>

primrec draws :: "nat \<Rightarrow> 'g \<Rightarrow> int list" where
  "draws 0 g = []"
| "draws (Suc n) g = (case draw g of (Inl e, g') \<Rightarrow> draws n g' | (Inr i, g') \<Rightarrow> i # draws n g')"

lemma draws_increase: "sound g \<Longrightarrow> sorted_wrt (<) (draws n g) \<and> (\<forall>i \<in> set (draws n g). position g \<le> i)"
proof (induction n arbitrary: g)
  case 0
  then show ?case by simp
next
  case (Suc n)
  obtain r g' where d: "draw g = (r, g')" by fastforce
  note s = draw_sound [OF Suc.prems d]
  show ?case
  proof (cases r)
    case (Inl e)
    with Suc.IH [of g'] s d show ?thesis by fastforce
  next
    case (Inr i)
    with draw_fresh [OF Suc.prems] d have "position g \<le> i" "i < position g'" by auto
    with Suc.IH [of g'] s d Inr show ?thesis by fastforce
  qed
qed

end

text \<open>\<open>Generator.Next\<close> forwards to the segment generator, which always returns.\<close>

definition generator_Next ::
  "gen_opts \<Rightarrow> 'r seg_repo \<Rightarrow> (nat \<Rightarrow> gerr option) \<Rightarrow> (nat \<Rightarrow> gerr option) \<Rightarrow> (buffer \<times> 'r, int) svc" where
  "generator_Next opts alloc bg ctx st =
     (case gen_Next opts alloc bg ctx st of
        Some res \<Rightarrow> res
      | None \<Rightarrow> (Inl (OtherError ''does not return''), st))"

interpretation segment_ids: id_generator "generator_Next opts (Allocate tag) bg ctx" "\<lambda>g. buf_cursor (fst g)"
    "\<lambda>g. tag_ok tag (snd g) \<and> buf_inv (tag_high tag (snd g)) (fst g)"
  for opts tag bg ctx
proof -
  have step: "tag_ok tag (snd g') \<and> buf_inv (tag_high tag (snd g')) (fst g') \<and> buf_cursor (fst g) \<le> buf_cursor (fst g')
      \<and> (\<forall>i. r = Inr i \<longrightarrow> buf_cursor (fst g) \<le> i \<and> i < buf_cursor (fst g'))"
    if ok: "tag_ok tag (snd g) \<and> buf_inv (tag_high tag (snd g)) (fst g)"
      and c: "generator_Next opts (Allocate tag) bg ctx g = (r, g')" for g r g'
  proof -
    obtain b db where g: "g = (b, db)" by (cases g) auto
    from ok have ok': "tag_ok tag db" "buf_inv (tag_high tag db) b" by (simp_all add: g)
    obtain x b' db' where n: "gen_Next opts (Allocate tag) bg ctx (b, db) = Some (x, (b', db'))"
      using id_repo.gen_Next_total [OF ok', of opts bg ctx] by auto
    with c have "r = x" "g' = (b', db')" by (simp_all add: generator_Next_def g)
    with id_repo.gen_Next_evolves [OF n ok'] show ?thesis
      by (auto simp: evolves_def g split: sum.splits)
  qed
  show "id_generator (generator_Next opts (Allocate tag) bg ctx) (\<lambda>g. buf_cursor (fst g))
      (\<lambda>g. tag_ok tag (snd g) \<and> buf_inv (tag_high tag (snd g)) (fst g))"
    by unfold_locales (use step in blast)+
qed

end
