(* ===== verification/ConversationService.thy ===== *)
theory ConversationService
  imports IdPort Store
begin

text \<open>
  \<open>internal/conversation/service.go\<close> over the conversation repository and an identifier
  generator \<open>next\<close> on a state \<open>'g\<close>: creation of direct and group conversations, the queries with
  their membership checks, and the cursor pagination of the conversation list.
\<close>

section \<open>The service\<close>

type_synonym 'g conv_world = "mysql \<times> 'g"

definition on_db :: "(mysql \<Rightarrow> 'a \<times> mysql) \<Rightarrow> 'g conv_world \<Rightarrow> 'a \<times> 'g conv_world" where
  "on_db m w = (case m (fst w) of (a, ms) \<Rightarrow> (a, (ms, snd w)))"

definition on_ids :: "('g \<Rightarrow> 'a \<times> 'g) \<Rightarrow> 'g conv_world \<Rightarrow> 'a \<times> 'g conv_world" where
  "on_ids m w = (case m (snd w) of (a, g) \<Rightarrow> (a, (fst w, g)))"

record create_cmd =
  cc_sender :: int
  cc_type :: int
  cc_name :: runes
  cc_members :: "int list"

text \<open>\<open>NewService\<close>: the default bound of a group.\<close>

definition conv_NewService :: "int \<Rightarrow> int" where
  "conv_NewService maxGroupMembers = (if maxGroupMembers \<le> 0 then 1024 else maxGroupMembers)"

fun dedupe_from :: "int list \<Rightarrow> int list \<Rightarrow> int list" where
  "dedupe_from seen [] = []"
| "dedupe_from seen (i # is) =
     (if i \<le> 0 then dedupe_from seen is
      else if List.member seen i then dedupe_from seen is
      else i # dedupe_from (i # seen) is)"

definition dedupe :: "int list \<Rightarrow> int list" where
  "dedupe ids = dedupe_from [] ids"

definition membersWithout :: "int list \<Rightarrow> int \<Rightarrow> int list" where
  "membersWithout ids exclude = filter (\<lambda>i. i \<noteq> exclude) ids"

definition maxInt64 :: "int \<Rightarrow> int \<Rightarrow> int" where
  "maxInt64 a b = (if b < a then a else b)"

definition truncateName :: "runes \<Rightarrow> runes" where
  "truncateName name = (if 64 < length name then take 64 name else name)"

definition new_conversation :: "int \<Rightarrow> create_cmd \<Rightarrow> int \<Rightarrow> conversation" where
  "new_conversation now cmd convID =
     \<lparr>co_id = convID, co_type = cc_type cmd,
      co_name = (if cc_type cmd = TypeSingle then [] else truncateName (cc_name cmd)),
      co_avatar = [], co_owner = cc_sender cmd, co_status = 1, co_last_seq = 0, co_last_mid = 0,
      co_last_type = 0, co_last_preview = [], co_last_at = None, co_read_seq = 0,
      co_received_seq = 0, co_unread = 0, co_created = now, co_updated = zero_time\<rparr>"

text \<open>
  The second half of \<open>Create\<close>, from the allocation of the identifier on. Indexing the empty list
  of other members panics; that can only be after a duplicate key of a group of one.
\<close>

definition conv_create_new ::
  "int \<Rightarrow> int \<Rightarrow> ('g, int) svc \<Rightarrow> create_cmd \<Rightarrow> int list \<Rightarrow> ('g conv_world, conversation \<times> bool) svc"
where
  "conv_create_new maxGroupMembers now next cmd members =
     bindE (on_ids next) (\<lambda>convID.
       let conv = new_conversation now cmd convID in
       if cc_type cmd \<noteq> TypeSingle \<and> co_name conv = []
       then failE (New InvalidArgument ''a group needs a name'')
       else if cc_type cmd = TypeGroup \<and> maxGroupMembers < int (length members)
       then failE (New InvalidArgument ''too many group members'')
       else
         bindE (on_db (CreateWithMembers now conv members)) (\<lambda>created.
           if created then returnE (conv, True)
           else
             case membersWithout members (cc_sender cmd) of
               [] \<Rightarrow> failE (OtherError ''panic: index out of range'')
             | other # _ \<Rightarrow>
                 (case sortPair (cc_sender cmd) other of (low, high) \<Rightarrow>
                    bindE (on_db (GetByDirectUsers low high)) (\<lambda>existing.
                      case existing of
                        None \<Rightarrow> failE (New InternalError ''conversation creation is inconsistent'')
                      | Some c \<Rightarrow> returnE (c, False)))))"

definition conv_Create ::
  "int \<Rightarrow> int \<Rightarrow> ('g, int) svc \<Rightarrow> create_cmd \<Rightarrow> ('g conv_world, conversation \<times> bool) svc" where
  "conv_Create maxGroupMembers now next cmd =
     (if cc_type cmd \<noteq> TypeSingle \<and> cc_type cmd \<noteq> TypeGroup
      then failE (New InvalidArgument ''invalid conversation type'')
      else
        let members = dedupe (cc_members cmd @ [cc_sender cmd]) in
        if cc_type cmd = TypeSingle
        then
          case membersWithout members (cc_sender cmd) of
            [other] \<Rightarrow>
              (case sortPair (cc_sender cmd) other of (low, high) \<Rightarrow>
                 bindE (on_db (GetByDirectUsers low high)) (\<lambda>existing.
                   case existing of
                     Some c \<Rightarrow> returnE (c\<lparr>co_read_seq := 0, co_received_seq := 0\<rparr>, False)
                   | None \<Rightarrow> conv_create_new maxGroupMembers now next cmd members))
          | _ \<Rightarrow> failE (New InvalidArgument ''a direct conversation needs exactly one other user'')
        else conv_create_new maxGroupMembers now next cmd members)"

definition forbidden :: gerr where
  "forbidden = New ConversationForbidden ''no access to this conversation''"

definition CheckMember :: "int \<Rightarrow> int \<Rightarrow> (mysql, member) svc" where
  "CheckMember c u =
     bindE (GetMember c u) (\<lambda>m.
       case m of
         None \<Rightarrow> failE forbidden
       | Some m \<Rightarrow> if me_status m \<noteq> MemberStatusNormal then failE forbidden else returnE m)"

definition conv_Get :: "int \<Rightarrow> int \<Rightarrow> (mysql, conversation) svc" where
  "conv_Get actor c =
     bindE (GetMember c actor) (\<lambda>m.
       case m of
         None \<Rightarrow> failE forbidden
       | Some m \<Rightarrow>
           if me_status m \<noteq> MemberStatusNormal then failE forbidden
           else
             bindE (GetConversation c) (\<lambda>conv.
               case conv of
                 None \<Rightarrow> failE (New ConversationNotFound ''no such conversation'')
               | Some conv \<Rightarrow>
                   if co_status conv \<noteq> 1
                   then failE (New ConversationNotFound ''no such conversation'')
                   else returnE (conv\<lparr>co_read_seq := me_read_seq m,
                          co_received_seq := me_received_seq m,
                          co_unread := maxInt64 0 (co_last_seq conv - me_read_seq m)\<rparr>)))"

record conv_page =
  cp_items :: "conversation list"
  cp_next :: string
  cp_has_more :: bool

definition orderTS :: "conversation \<Rightarrow> int" where
  "orderTS c = (case co_last_at c of Some t \<Rightarrow> t | None \<Rightarrow> co_created c)"

definition page_limit :: "int \<Rightarrow> int" where
  "page_limit limit = (let l = (if limit \<le> 0 then 20 else limit) in if 100 < l then 100 else l)"

definition set_unread :: "conversation \<Rightarrow> conversation" where
  "set_unread c = c\<lparr>co_unread := maxInt64 0 (co_last_seq c - co_read_seq c)\<rparr>"

definition make_page :: "int \<Rightarrow> conversation list \<Rightarrow> conv_page" where
  "make_page limit items =
     (let hasMore = limit < int (length items);
          kept = (if hasMore then take (nat limit) items else items)
      in \<lparr>cp_items = map set_unread kept,
          cp_next = (if hasMore \<and> kept \<noteq> [] then encodeCursor (co_id (last kept)) (orderTS (last kept)) else []),
          cp_has_more = hasMore\<rparr>)"

definition conv_List :: "int \<Rightarrow> string \<Rightarrow> int \<Rightarrow> (mysql, conv_page) svc" where
  "conv_List u cursor limit =
     (let limit = page_limit limit in
      case (if cursor = [] then Some (0, 0) else parseCursor cursor) of
        None \<Rightarrow> failE (New InvalidArgument ''invalid cursor'')
      | Some (cursorID, cursorTS) \<Rightarrow>
          bindE (ListByUser u cursorID cursorTS (limit + 1)) (\<lambda>items. returnE (make_page limit items)))"

section \<open>Facts\<close>

lemma on_db_apply: "m ms = (a, ms') \<Longrightarrow> on_db m (ms, g) = (a, (ms', g))"
  by (simp add: on_db_def)

lemma on_db_iff: "on_db m w = (a, (ms', g')) \<longleftrightarrow> m (fst w) = (a, ms') \<and> g' = snd w"
  by (auto simp: on_db_def split: prod.split)

lemma on_ids_apply: "m g = (a, g') \<Longrightarrow> on_ids m (ms, g) = (a, (ms, g'))"
  by (simp add: on_ids_def)

lemma dedupe_pair:
  "0 < a \<Longrightarrow> 0 < b \<Longrightarrow> a \<noteq> b \<Longrightarrow> dedupe [b, a] = [b, a] \<and> membersWithout [b, a] a = [b]"
  by (simp add: dedupe_def membersWithout_def List.member_iff)

lemma sortPair_comm: "a \<noteq> b \<Longrightarrow> sortPair b a = sortPair a b"
  by (auto simp: sortPair_def)

lemma GetByDirectUsers_quiet:
  "GetByDirectUsers low high (d, []) =
     (Inr (map_option toDomainConversation (find (\<lambda>r. cr_type r = TypeSingle \<and> cr_low r = Some low
        \<and> cr_high r = Some high \<and> cr_status r = 1) (d_convs d))), (d, []))"
  by (simp add: GetByDirectUsers_def)

lemma on_db_GetByDirectUsers:
  "on_db (GetByDirectUsers low high) ((d, []), g) =
     (Inr (map_option toDomainConversation (find (\<lambda>r. cr_type r = TypeSingle \<and> cr_low r = Some low
        \<and> cr_high r = Some high \<and> cr_status r = 1) (d_convs d))), ((d, []), g))"
  by (simp add: on_db_def GetByDirectUsers_quiet)

lemma find_append_None: "find P (xs @ [x]) = (case find P xs of Some y \<Rightarrow> Some y | None \<Rightarrow> if P x then Some x else None)"
  by (induction xs) auto

lemma CreateWithMembers_quiet:
  assumes "CreateWithMembers now conv ids (d, []) = (Inr True, ms')"
  shows "\<exists>d'. ms' = (d', []) \<and> create_tx now conv ids d = (Inr True, d')"
proof -
  obtain r d' where c: "create_tx now conv ids d = (r, d')" by fastforce
  with assms show ?thesis
    by (cases r) (auto simp: CreateWithMembers_def db_tx_ok split: if_splits)
qed

lemma create_tx_direct:
  assumes "create_tx now conv ids d = (Inr True, d')" and "co_type conv = TypeSingle"
  shows "d_convs d' = d_convs d @ [new_conversation_row now conv (Some (sortPair (co_owner conv) (ids ! 0)))]"
proof -
  from assms obtain d1 where
    i: "insert_conversation (new_conversation_row now conv (Some (sortPair (co_owner conv) (ids ! 0)))) d = Inr d1"
    and m: "insert_members now conv ids d1 = Inr d'"
    by (auto simp: create_tx_def Let_def split: if_splits sum.splits)
  from i have "d_convs d1 = d_convs d @ [new_conversation_row now conv (Some (sortPair (co_owner conv) (ids ! 0)))]"
    by (auto simp: insert_conversation_def split: if_splits)
  with m show ?thesis by (auto simp: insert_members_ok)
qed

text \<open>A first creation of a direct conversation between two users, and what it leaves behind.\<close>

lemma Create_direct_new:
  assumes create: "conv_Create mx now next cmd ((d, []), g) = (Inr (c, True), (ms', g'))"
    and cmd: "cc_type cmd = TypeSingle" "cc_members cmd = [b]" "b \<noteq> cc_sender cmd" "0 < b" "0 < cc_sender cmd"
  shows "\<exists>d' row low high. ms' = (d', []) \<and> sortPair (cc_sender cmd) b = (low, high)
    \<and> find (\<lambda>r. cr_type r = TypeSingle \<and> cr_low r = Some low \<and> cr_high r = Some high \<and> cr_status r = 1) (d_convs d') = Some row
    \<and> cr_id row = co_id c"
proof -
  let ?a = "cc_sender cmd"
  obtain low high where p: "sortPair ?a b = (low, high)" by fastforce
  let ?P = "\<lambda>r. cr_type r = TypeSingle \<and> cr_low r = Some low \<and> cr_high r = Some high \<and> cr_status r = 1"
  have dd: "dedupe [b, ?a] = [b, ?a]" "membersWithout [b, ?a] ?a = [b]"
    using dedupe_pair [of ?a b] cmd by auto
  have none: "find ?P (d_convs d) = None"
    and new: "conv_create_new mx now next cmd [b, ?a] ((d, []), g) = (Inr (c, True), (ms', g'))"
    using create cmd p dd
    by (auto simp: conv_Create_def Let_def bindE_ok on_db_GetByDirectUsers split: option.splits)
  from new cmd(1) obtain i where c: "c = new_conversation now cmd i"
    and cw: "\<exists>w'. on_db (CreateWithMembers now c [b, ?a]) ((d, []), snd w') = (Inr True, (ms', g'))"
    by (auto simp: conv_create_new_def bindE_ok Let_def dd p TypeSingle_def TypeGroup_def on_ids_def
        split: prod.splits if_splits option.splits)
  from cw have "CreateWithMembers now c [b, ?a] (d, []) = (Inr True, ms')"
    by (auto simp: on_db_iff)
  from CreateWithMembers_quiet [OF this] obtain d' where ms': "ms' = (d', [])"
    and tx: "create_tx now c [b, ?a] d = (Inr True, d')" by blast
  have single: "co_type c = TypeSingle" "co_owner c = ?a" "co_status c = 1" using cmd(1) by (simp_all add: c new_conversation_def)
  let ?row = "new_conversation_row now c (Some (low, high))"
  have "d_convs d' = d_convs d @ [?row]"
    using create_tx_direct [OF tx single(1)] single(2) p by simp
  moreover have "?P ?row" "cr_id ?row = co_id c" using single by (simp_all add: new_conversation_row_def)
  ultimately show ?thesis using ms' p none by (intro exI) (auto simp: find_append_None)
qed

lemma Create_direct_again:
  assumes "cc_type cmd = TypeSingle" "cc_members cmd = [b]" "b \<noteq> cc_sender cmd" "0 < b" "0 < cc_sender cmd"
    and "sortPair (cc_sender cmd) b = (low, high)"
    and "find (\<lambda>r. cr_type r = TypeSingle \<and> cr_low r = Some low \<and> cr_high r = Some high \<and> cr_status r = 1) (d_convs d) = Some row"
  shows "conv_Create mx now next cmd ((d, []), g) = (Inr (toDomainConversation row, False), ((d, []), g))"
proof -
  have "dedupe [b, cc_sender cmd] = [b, cc_sender cmd]" "membersWithout [b, cc_sender cmd] (cc_sender cmd) = [b]"
    using dedupe_pair [of "cc_sender cmd" b] assms by auto
  moreover have "(toDomainConversation row)\<lparr>co_read_seq := 0, co_received_seq := 0\<rparr> = toDomainConversation row"
    by (simp add: toDomainConversation_def)
  ultimately show ?thesis using assms
    by (simp add: conv_Create_def Let_def bindE_def on_db_GetByDirectUsers)
qed

lemma beyond_count:
  assumes "convs_inv d" and "cv \<in> set (d_convs d)" and "0 \<le> n" and "n \<le> cr_last_seq cv"
  shows "int (length (filter (\<lambda>x. n < mr_seq x) (messages_of (cr_id cv) d))) = cr_last_seq cv - n"
proof -
  have "length (filter (\<lambda>x. n < mr_seq x) (messages_of (cr_id cv) d))
      = length (filter ((<) n) (map mr_seq (messages_of (cr_id cv) d)))"
    by (simp add: filter_map comp_def)
  also have "map mr_seq (messages_of (cr_id cv) d) = [1..cr_last_seq cv]"
    using assms(1,2) by (auto simp: convs_inv_def)
  also have "length (filter ((<) n) [1..cr_last_seq cv]) = card (set (filter ((<) n) [1..cr_last_seq cv]))"
    by (rule distinct_card [symmetric]) simp
  also have "set (filter ((<) n) [1..cr_last_seq cv]) = {n<..cr_last_seq cv}" using assms(3) by auto
  finally show ?thesis using assms(4) by simp
qed

lemma GetMember_ok:
  "GetMember c u ms = (Inr m, ms') \<Longrightarrow>
     m = map_option toDomainMember (find (\<lambda>r. mb_conv r = c \<and> mb_user r = u) (d_members (fst ms))) \<and> fst ms' = fst ms"
  by (auto simp: GetMember_def map_sum_def split: prod.splits sum.splits dest: db_query_cases)

lemma GetConversation_ok:
  "GetConversation c ms = (Inr m, ms') \<Longrightarrow>
     m = map_option toDomainConversation (find (\<lambda>r. cr_id r = c) (d_convs (fst ms))) \<and> fst ms' = fst ms"
  by (auto simp: GetConversation_def map_sum_def split: prod.splits sum.splits dest: db_query_cases)

lemma conv_Get_ok:
  assumes "conv_Get u c ms = (Inr conv, ms')"
  shows "\<exists>m cv. find (\<lambda>r. mb_conv r = c \<and> mb_user r = u) (d_members (fst ms)) = Some m
    \<and> mb_status m = MemberStatusNormal \<and> find (\<lambda>r. cr_id r = c) (d_convs (fst ms)) = Some cv \<and> cr_status cv = 1
    \<and> conv = (toDomainConversation cv)\<lparr>co_read_seq := mb_read_seq m, co_received_seq := mb_received_seq m,
               co_unread := maxInt64 0 (cr_last_seq cv - mb_read_seq m)\<rparr>"
proof -
  from assms obtain m ms1 where g: "GetMember c u ms = (Inr m, ms1)"
    and rest: "(case m of None \<Rightarrow> failE forbidden
       | Some m \<Rightarrow> if me_status m \<noteq> MemberStatusNormal then failE forbidden
           else bindE (GetConversation c) (\<lambda>conv.
               case conv of None \<Rightarrow> failE (New ConversationNotFound ''no such conversation'')
               | Some conv \<Rightarrow>
                   if co_status conv \<noteq> 1
                   then failE (New ConversationNotFound ''no such conversation'')
                   else returnE (conv\<lparr>co_read_seq := me_read_seq m,
                          co_received_seq := me_received_seq m,
                          co_unread := maxInt64 0 (co_last_seq conv - me_read_seq m)\<rparr>))) ms1 = (Inr conv, ms')"
    unfolding conv_Get_def by (rule bindE_okE)
  from rest obtain me where me: "m = Some me" "me_status me = MemberStatusNormal" by (auto split: option.splits if_splits)
  with rest obtain cv ms2 where cv: "GetConversation c ms1 = (Inr (Some cv), ms2)" "co_status cv = 1"
    "conv = cv\<lparr>co_read_seq := me_read_seq me, co_received_seq := me_received_seq me,
                          co_unread := maxInt64 0 (co_last_seq cv - me_read_seq me)\<rparr>"
    by (auto simp: bindE_ok split: option.splits if_splits)
  from GetMember_ok [OF g] me GetConversation_ok [OF cv(1)] cv(2,3)
  obtain mr cr where
    "find (\<lambda>r. mb_conv r = c \<and> mb_user r = u) (d_members (fst ms)) = Some mr" "me = toDomainMember mr"
    "find (\<lambda>r. cr_id r = c) (d_convs (fst ms)) = Some cr" "cv = toDomainConversation cr"
    by (auto simp: eq_commute [of "Some _" "map_option _ _"])
  with me cv(2,3) show ?thesis
    by (auto simp: toDomainMember_def toDomainConversation_def intro!: exI [of _ mr] exI [of _ cr])
qed

lemma GetMember_state: "GetMember c u ms = (x, ms') \<Longrightarrow> fst ms' = fst ms"
  by (auto simp: GetMember_def split: prod.splits dest: db_query_cases)

lemma GetConversation_state: "GetConversation c ms = (x, ms') \<Longrightarrow> fst ms' = fst ms"
  by (auto simp: GetConversation_def split: prod.splits dest: db_query_cases)

lemma conv_Get_state: "conv_Get u c ms = (r, ms') \<Longrightarrow> fst ms' = fst ms"
  by (auto simp: conv_Get_def bindE_def split: option.splits if_splits prod.splits sum.splits
      dest!: GetMember_state GetConversation_state)
section \<open>Pagination\<close>

lemma filter_key:
  "distinct (map cr_id cs) \<Longrightarrow>
   map cr_id (filter (\<lambda>c. cr_id c = i \<and> P c) cs) = (if \<exists>c \<in> set cs. cr_id c = i \<and> P c then [i] else [])"
proof (induction cs)
  case Nil
  then show ?case by simp
next
  case (Cons c cs)
  show ?case
  proof (cases "cr_id c = i")
    case True
    from Cons.prems have "cr_id c \<notin> cr_id ` set cs" by simp
    with True have "\<forall>c' \<in> set cs. cr_id c' \<noteq> i" by (metis imageI)
    with True Cons show ?thesis by auto
  next
    case False
    with Cons show ?thesis by auto
  qed
qed

lemma concat_if: "concat (map (\<lambda>m. if E m then [f m] else []) ms) = map f (filter E ms)"
  by (induction ms) auto

lemma user_conversations_ids:
  assumes "store_inv d"
  shows "distinct (map (\<lambda>p. cr_id (fst p)) (user_conversations u d))"
proof -
  let ?ms = "filter (\<lambda>m. mb_user m = u \<and> mb_status m = MemberStatusNormal) (d_members d)"
  let ?E = "\<lambda>m. \<exists>c \<in> set (d_convs d). cr_id c = mb_conv m \<and> cr_status c = 1"
  let ?J = "concat (map (\<lambda>m. map (\<lambda>c. (c, m)) (filter (\<lambda>c. cr_id c = mb_conv m \<and> cr_status c = 1) (d_convs d))) ?ms)"
  have dc: "distinct (map cr_id (d_convs d))" using assms by (simp add: store_inv_def convs_inv_def)
  have dm: "distinct (map (\<lambda>r. (mb_conv r, mb_user r)) (d_members d))"
    using assms by (simp add: store_inv_def members_inv_def)
  have "map (\<lambda>p. cr_id (fst p)) ?J = concat (map (\<lambda>m. if ?E m then [mb_conv m] else []) ?ms)"
    by (simp add: map_concat comp_def filter_key [OF dc, of _ "\<lambda>c. cr_status c = 1", unfolded conj_assoc])
  also have "\<dots> = map mb_conv (filter ?E ?ms)"
    by (rule concat_if)
  also have "distinct \<dots>"
    using dm by (auto simp: distinct_map inj_on_def)
  finally have "distinct (map (\<lambda>p. cr_id (fst p)) ?J)" .
  then show ?thesis by (simp add: user_conversations_def distinct_map sort_key_const distinct_sort)
qed

lemma user_conversations_rows: "p \<in> set (user_conversations u d) \<Longrightarrow> fst p \<in> set (d_convs d)"
  by (auto simp: user_conversations_def)

definition list_key :: "conv_row \<times> member_row \<Rightarrow> int \<times> int" where
  "list_key p = (- conv_order_ts (fst p), - cr_id (fst p))"

lemma user_conversations_sorted:
  assumes "store_inv d"
  shows "sorted_wrt (\<lambda>p q. list_key p < list_key q) (user_conversations u d)"
proof -
  have "sorted (map list_key (user_conversations u d))"
    by (simp add: user_conversations_def list_key_def [abs_def])
  moreover have "distinct (map list_key (user_conversations u d))"
    using user_conversations_ids [OF assms, of u] by (auto simp: distinct_map inj_on_def list_key_def)
  ultimately have "sorted_wrt (<) (map list_key (user_conversations u d))"
    by (simp add: strict_sorted_iff)
  then show ?thesis by (simp add: sorted_wrt_map)
qed

lemma after_cursor_key:
  "0 < cr_id (fst p) \<Longrightarrow> after_cursor (cr_id (fst p)) (conv_order_ts (fst p)) q \<longleftrightarrow> list_key p < list_key q"
  by (auto simp: after_cursor_def list_key_def)

lemma filter_suffix:
  assumes "sorted_wrt (\<lambda>p q. list_key p < list_key q) (xs @ p # ys)" and "0 < cr_id (fst p)"
  shows "filter (after_cursor (cr_id (fst p)) (conv_order_ts (fst p))) (xs @ p # ys) = ys"
proof -
  have "\<forall>q \<in> set xs. \<not> list_key p < list_key q" "\<forall>q \<in> set ys. list_key p < list_key q"
    using assms(1) by (auto simp: sorted_wrt_append dest: less_asym)
  moreover from this have "filter (\<lambda>q. list_key p < list_key q) xs = []" "filter (\<lambda>q. list_key p < list_key q) ys = ys"
    by (simp_all add: filter_empty_conv filter_id_conv)
  ultimately show ?thesis by (simp add: after_cursor_key [OF assms(2)])
qed

text \<open>A client that follows the cursors, with at most \<open>n\<close> requests.\<close>

fun list_walk :: "nat \<Rightarrow> int \<Rightarrow> string \<Rightarrow> int \<Rightarrow> mysql \<Rightarrow> conversation list" where
  "list_walk 0 u cursor limit ms = []"
| "list_walk (Suc n) u cursor limit ms =
     (case conv_List u cursor limit ms of
        (Inl e, ms') \<Rightarrow> []
      | (Inr p, ms') \<Rightarrow>
          cp_items p @ (if cp_has_more p then list_walk n u (cp_next p) limit ms' else []))"

lemma page_limit_bounds: "1 \<le> page_limit l" "page_limit l \<le> 100"
  by (simp_all add: page_limit_def Let_def)

lemma list_row_simps [simp]:
  "co_id (list_row p) = cr_id (fst p)" "orderTS (list_row p) = conv_order_ts (fst p)"
  by (simp_all add: list_row_def toDomainConversation_def orderTS_def conv_order_ts_def split: option.split)

lemma conv_List_quiet:
  assumes "(if cursor = [] then Some (0, 0) else parseCursor cursor) = Some (i, ts)"
    and "filter (after_cursor i ts) (user_conversations u d) = rest"
  shows "conv_List u cursor limit (d, []) =
    (Inr (make_page (page_limit limit) (map list_row (take (nat (page_limit limit) + 1) rest))), (d, []))"
  using assms page_limit_bounds(1) [of limit]
  by (simp add: conv_List_def Let_def bindE_def ListByUser_def sql_limit_def nat_add_distrib)

lemma list_walk_rest:
  assumes "sorted_wrt (\<lambda>p q. list_key p < list_key q) (user_conversations u d)"
    and "\<forall>p \<in> set (user_conversations u d). 0 < cr_id (fst p) \<and> in_int64 (cr_id (fst p)) \<and> in_int64 (conv_order_ts (fst p))"
    and "(if cursor = [] then Some (0, 0) else parseCursor cursor) = Some (i, ts)"
    and "filter (after_cursor i ts) (user_conversations u d) = rest"
    and "user_conversations u d = pre @ rest" and "length rest < n"
  shows "list_walk n u cursor limit (d, []) = map (set_unread \<circ> list_row) rest"
  using assms(3-6)
proof (induction n arbitrary: cursor i ts rest pre)
  case 0
  then show ?case by simp
next
  case (Suc n)
  define l where "l = nat (page_limit limit)"
  have l: "0 < l" "page_limit limit = int l" using page_limit_bounds(1) [of limit] by (simp_all add: l_def)
  have step: "conv_List u cursor limit (d, []) = (Inr (make_page (int l) (map list_row (take (l + 1) rest))), (d, []))"
    using conv_List_quiet [OF Suc.prems(1,2), of limit] l by simp
  show ?case
  proof (cases "l < length rest")
    case False
    then show ?thesis using step by (simp add: make_page_def Let_def)
  next
    case True
    define p where "p = rest ! (l - 1)"
    have kept: "take l rest = take (l - 1) rest @ [p]"
      using True l(1) take_Suc_conv_app_nth [of "l - 1" rest] by (simp add: p_def)
    have split: "user_conversations u d = (pre @ take (l - 1) rest) @ p # drop l rest"
      using Suc.prems(3) kept append_take_drop_id [of l rest] by (metis append.assoc append_Cons append_Nil)
    have "p \<in> set (user_conversations u d)" using split by (metis in_set_conv_decomp)
    with assms(2) have p: "0 < cr_id (fst p)" "in_int64 (cr_id (fst p))" "in_int64 (conv_order_ts (fst p))" by auto
    let ?next = "encodeCursor (cr_id (fst p)) (conv_order_ts (fst p))"
    have parse: "parseCursor ?next = Some (cr_id (fst p), conv_order_ts (fst p))"
      using p by (simp add: parseCursor_encodeCursor)
    have ne: "?next \<noteq> []" by (rule encodeCursor_ne)
    have rest: "filter (after_cursor (cr_id (fst p)) (conv_order_ts (fst p))) (user_conversations u d) = drop l rest"
      using filter_suffix [of "pre @ take (l - 1) rest" p "drop l rest"] assms(1) p(1) unfolding split by simp
    have "list_walk n u ?next limit (d, []) = map (set_unread \<circ> list_row) (drop l rest)"
      using Suc.IH [of ?next "cr_id (fst p)" "conv_order_ts (fst p)" "drop l rest" "pre @ take l rest"]
        parse ne rest Suc.prems(3,4) l(1) True by simp
    moreover have "make_page (int l) (map list_row (take (l + 1) rest)) =
        \<lparr>cp_items = map (set_unread \<circ> list_row) (take l rest), cp_next = ?next, cp_has_more = True\<rparr>"
      using True l kept by (simp add: make_page_def Let_def take_map min_def)
    ultimately show ?thesis using step
      by (simp add: map_append [symmetric] del: map_append)
  qed
qed

text \<open>In a process whose generator keeps its contract, new conversations get increasing identifiers.\<close>

context id_generator
begin

lemma Create_draws:
  assumes "conv_Create mx now draw cmd (ms, g) = (r, (ms', g'))" and "sound g"
  shows "sound g' \<and> position g \<le> position g'
    \<and> (\<forall>c. r = Inr (c, True) \<longrightarrow> position g \<le> co_id c \<and> co_id c < position g')"
proof -
  have new: "sound g' \<and> position g \<le> position g'
    \<and> (\<forall>c. r = Inr (c, True) \<longrightarrow> position g \<le> co_id c \<and> co_id c < position g')"
    if c: "conv_create_new mx now draw cmd mem (msx, g) = (r, (ms', g'))" for mem msx
  proof -
    obtain x g1 where d: "draw g = (x, g1)" by fastforce
    have "g' = g1 \<and> (\<forall>c. r = Inr (c, True) \<longrightarrow> x = Inr (co_id c))"
      using c d
      by (auto simp: conv_create_new_def bindE_def on_ids_def on_db_def Let_def new_conversation_def
          split: sum.splits if_splits prod.splits list.splits option.splits)
    with draw_sound [OF assms(2) d] draw_fresh [OF assms(2)] d show ?thesis by blast
  qed
  show ?thesis
  proof (cases "\<exists>mem msx. conv_create_new mx now draw cmd mem (msx, g) = (r, (ms', g'))")
    case True
    with new show ?thesis by blast
  next
    case False
    with assms(1) have "g' = g \<and> (\<forall>c. r \<noteq> Inr (c, True))"
      by (cases ms) (auto simp: conv_Create_def bindE_def on_db_def Let_def
          split: sum.splits if_splits prod.splits list.splits option.splits)
    with assms(2) show ?thesis by auto
  qed
qed

end

section \<open>Properties\<close>


text \<open>Identifiers counted up, for the examples.\<close>

definition count_ids :: "(int, int) svc" where
  "count_ids g = (Inr g, g + 1)"

definition demo_direct :: "int \<Rightarrow> int list \<Rightarrow> create_cmd" where
  "demo_direct u ms = \<lparr>cc_sender = u, cc_type = TypeSingle, cc_name = [], cc_members = ms\<rparr>"

definition created_id :: "(gerr + conversation \<times> bool) \<times> 'w \<Rightarrow> (int \<times> bool) option" where
  "created_id r = (case fst r of Inl e \<Rightarrow> None | Inr (c, new) \<Rightarrow> Some (co_id c, new))"


text \<open>
  The direct pair is taken from the owner and the first member id, so a creator who lists the
  own id first gets a conversation that is stored under the pair of the creator with itself. The
  other user does not find it and creates a second direct conversation for the same two people;
  and the creator's next attempt with any third user in the same form fails, because the pair is
  taken.
\<close>

theorem creator_listed_first_breaks_uniqueness:
  "let w0 = ((empty_db, []), 10);
       r1 = conv_Create 1024 0 count_ids (demo_direct 1 [1, 2]) w0;
       r2 = conv_Create 1024 1 count_ids (demo_direct 2 [1]) (snd r1);
       r3 = conv_Create 1024 2 count_ids (demo_direct 1 [1, 3]) (snd r1)
   in created_id r1 = Some (10, True) \<and> created_id r2 = Some (11, True)
      \<and> map (\<lambda>c. (cr_low c, cr_high c)) (d_convs (fst (fst (snd r2)))) = [(Some 1, Some 1), (Some 1, Some 2)]
      \<and> fst r3 = Inl (New InternalError ''conversation creation is inconsistent'')"
  by code_simp

text \<open>
  C26: Only members see a conversation, and the unread count is exact: \<open>Get\<close> never changes the
  tables, answers a conversation only to a user whose membership is normal and only while the
  conversation is, and the count it answers is the number of stored messages beyond the read
  cursor of that user.
\<close>

theorem Get_members_only:
  assumes "store_inv d" and "conv_Get u c (d, fs) = (r, ms')"
  shows "fst ms' = d \<and> (\<forall>conv. r = Inr conv \<longrightarrow>
     (\<exists>m \<in> set (d_members d). mb_conv m = c \<and> mb_user m = u \<and> mb_status m = MemberStatusNormal
        \<and> co_read_seq conv = mb_read_seq m
        \<and> co_unread conv = int (length (filter (\<lambda>x. mb_read_seq m < mr_seq x) (messages_of c d))))
     \<and> co_id conv = c \<and> co_status conv = 1)"
proof (intro conjI allI impI)
  show "fst ms' = d" using conv_Get_state [OF assms(2)] by simp
  fix conv assume "r = Inr conv"
  with assms(2) have "conv_Get u c (d, fs) = (Inr conv, ms')" by simp
  from conv_Get_ok [OF this] obtain m cv where m: "find (\<lambda>r. mb_conv r = c \<and> mb_user r = u) (d_members d) = Some m"
    "mb_status m = MemberStatusNormal" and cv: "find (\<lambda>r. cr_id r = c) (d_convs d) = Some cv" "cr_status cv = 1"
    and conv: "conv = (toDomainConversation cv)\<lparr>co_read_seq := mb_read_seq m, co_received_seq := mb_received_seq m,
               co_unread := maxInt64 0 (cr_last_seq cv - mb_read_seq m)\<rparr>"
    by auto
  note ms = find_Some_set [OF m(1)] and cs = find_Some_set [OF cv(1)]
  have ci: "convs_inv d" and mi: "members_inv d" using assms(1) by (simp_all add: store_inv_def)
  obtain cw where cw: "cw \<in> set (d_convs d)" "cr_id cw = mb_conv m" "mb_read_seq m \<le> cr_last_seq cw" "0 \<le> mb_read_seq m"
    using mi ms by (auto simp: members_inv_def member_bound_def)
  have "cw = cv" using convs_inv_find [OF ci cw(1), of cv] cs cw(2) ms by simp
  with beyond_count [OF ci, of cv "mb_read_seq m"] cs cw
  have "co_unread conv = int (length (filter (\<lambda>x. mb_read_seq m < mr_seq x) (messages_of c d)))"
    by (simp add: conv maxInt64_def)
  with ms m(2) show "\<exists>m \<in> set (d_members d). mb_conv m = c \<and> mb_user m = u \<and> mb_status m = MemberStatusNormal
        \<and> co_read_seq conv = mb_read_seq m
        \<and> co_unread conv = int (length (filter (\<lambda>x. mb_read_seq m < mr_seq x) (messages_of c d)))"
    by (intro bexI [of _ m]) (simp_all add: conv)
  show "co_id conv = c" "co_status conv = 1" using cs cv(2) by (simp_all add: conv toDomainConversation_def)
qed

text \<open>
  C27: The pages of the conversation list are complete: a client that follows the cursors until
  \<open>has_more\<close> is false receives every conversation of the user exactly once, newest first, whatever
  page size it asks for, and it needs no more requests than there are conversations plus one.
\<close>

theorem conversation_list_complete:
  assumes "store_inv d"
    and "\<forall>c \<in> set (d_convs d). 0 < cr_id c \<and> in_int64 (cr_id c) \<and> in_int64 (conv_order_ts c)"
    and "length (user_conversations u d) < n"
  shows "list_walk n u [] limit (d, []) = map (set_unread \<circ> list_row) (user_conversations u d)"
proof (rule list_walk_rest [OF user_conversations_sorted [OF assms(1)]])
  show "\<forall>p \<in> set (user_conversations u d). 0 < cr_id (fst p) \<and> in_int64 (cr_id (fst p)) \<and> in_int64 (conv_order_ts (fst p))"
    using assms(2) user_conversations_rows by blast
qed (use assms(3) in \<open>auto simp: after_cursor_def intro: filter_True\<close>)

lemma conversation_list_complete_witness:
  "list_walk 2 7 [] 1 (demo_db6, []) = map (set_unread \<circ> list_row) (user_conversations 7 demo_db6)
   \<and> map co_id (list_walk 2 7 [] 1 (demo_db6, [])) = [5]"
proof -
  have "list_all (\<lambda>c. 0 < cr_id c \<and> in_int64 (cr_id c) \<and> in_int64 (conv_order_ts c)) (d_convs demo_db6)
      \<and> length (user_conversations 7 demo_db6) < 2" by code_simp
  moreover have "map co_id (map (set_unread \<circ> list_row) (user_conversations 7 demo_db6)) = [5]" by code_simp
  ultimately show ?thesis
    using conversation_list_complete [OF store_reachable_inv [OF demo_reachable(1)], of 7 2 1]
    by (simp add: list_all_iff)
qed

lemma Get_members_only_witness:
  "(\<exists>conv. fst (conv_Get 7 5 (demo_db6, [])) = Inr conv \<and> co_unread conv = 2 \<and> co_id conv = 5)
   \<and> fst (conv_Get 8 5 (demo_db6, [])) = Inl forbidden"
proof -
  let ?r = "conv_Get 7 5 (demo_db6, [])"
  have e: "(case fst ?r of Inr conv \<Rightarrow> co_unread conv = 2 | Inl e \<Rightarrow> False) \<and> fst (conv_Get 8 5 (demo_db6, [])) = Inl forbidden"
    by code_simp
  then obtain conv where c: "fst ?r = Inr conv" "co_unread conv = 2" by (auto split: sum.splits)
  then have "?r = (Inr conv, snd ?r)" by (metis prod.collapse)
  from Get_members_only [OF store_reachable_inv [OF demo_reachable(1)] this] c e show ?thesis by blast
qed

end
