(* ===== verification/Kafka.thy ===== *)
theory Kafka
  imports Svc Resilience Db
begin

text \<open>
  \<open>internal/infrastructure/kafka\<close>: topics, the event envelope, the producer with its breakers, the
  consumer with its queue of fetched records and its offset commits. The client library franz-go
  is third-party code: a produced record reaches the log or not (\<open>fault\<close>), a poll answers records
  or an error, a commit stores offsets or fails.
\<close>

section \<open>Events\<close>

record ingress_event =
  ie_sender :: int
  ie_client_id :: string
  ie_conv :: int
  ie_type :: int
  ie_content :: raw
  ie_client_sent :: "int option"

record push_event =
  pu_mid :: int
  pu_seq :: int
  pu_sender :: int
  pu_client_id :: string
  pu_conv :: int
  pu_type :: int
  pu_content :: raw
  pu_preview :: runes
  pu_created :: int
  pu_targets :: "int list"

text \<open>
  The JSON on the wire, by what it unmarshals into: the data of an envelope is one of the event
  types, \<open>null\<close>, or something that is none of them; a value is an envelope, the raw outbox
  payload (kept as the original of a dead letter), nothing, or bytes that do not unmarshal, with
  what the attempt leaves in the structure. A field of type \<open>json.RawMessage\<close> is the type parameter
  of its structure.
\<close>

datatype 'd wire_envelope = Envelope (schema_version: int) (event_id: string) (event_type: string)
    (occurred_at: int) (producer: string) (conversation_id: string) (event_data: 'd)

datatype 'v wire_dlq = DLQPayload (failed_topic: string) (failed_partition: int) (failed_offset: int)
    (retry_count: int) (error_code: string) (error_message: string) (failed_at: int)
    (original_event: 'v)

datatype kdata = DIngress ingress_event | DPush push_event | DDlq "kvalue wire_dlq" | DNull | DBad string
and kvalue = KEnv "kdata wire_envelope" | KPayload payload | KNone | KBad string "kdata wire_envelope"

type_synonym envelope = "kdata wire_envelope"
type_synonym dlq_payload = "kvalue wire_dlq"

definition EventInbox :: string where "EventInbox = ''message.inbox''"
definition EventPush :: string where "EventPush = ''message.push''"
definition EventDLQ :: string where "EventDLQ = ''message.dlq''"
definition SchemaVersion :: int where "SchemaVersion = 1"

definition zero_ingress :: ingress_event where
  "zero_ingress = \<lparr>ie_sender = 0, ie_client_id = [], ie_conv = 0, ie_type = 0, ie_content = Raw_none,
     ie_client_sent = None\<rparr>"

definition zero_push :: "int \<Rightarrow> push_event" where
  "zero_push zt = \<lparr>pu_mid = 0, pu_seq = 0, pu_sender = 0, pu_client_id = [], pu_conv = 0, pu_type = 0,
     pu_content = Raw_none, pu_preview = [], pu_created = zt, pu_targets = []\<rparr>"

text \<open>
  \<open>json.Unmarshal\<close> into one event structure: unknown fields are ignored and missing ones stay zero,
  so the JSON of another event unmarshals too. \<open>zt\<close> is the zero time.
\<close>

fun as_ingress :: "kdata \<Rightarrow> ingress_event option" where
  "as_ingress (DIngress e) = Some e"
| "as_ingress (DPush p) = Some \<lparr>ie_sender = pu_sender p, ie_client_id = pu_client_id p, ie_conv = pu_conv p,
     ie_type = pu_type p, ie_content = pu_content p, ie_client_sent = None\<rparr>"
| "as_ingress (DDlq d) = Some zero_ingress"
| "as_ingress DNull = Some zero_ingress"
| "as_ingress (DBad b) = None"

fun as_push :: "int \<Rightarrow> kdata \<Rightarrow> push_event option" where
  "as_push zt (DPush p) = Some p"
| "as_push zt (DIngress e) = Some ((zero_push zt)\<lparr>pu_sender := ie_sender e, pu_client_id := ie_client_id e,
     pu_conv := ie_conv e, pu_type := ie_type e, pu_content := ie_content e\<rparr>)"
| "as_push zt (DDlq d) = Some (zero_push zt)"
| "as_push zt DNull = Some (zero_push zt)"
| "as_push zt (DBad b) = None"

definition zero_dlq :: "int \<Rightarrow> dlq_payload" where
  "zero_dlq zt = DLQPayload [] 0 0 0 [] [] zt KNone"

fun as_dlq :: "int \<Rightarrow> kdata \<Rightarrow> dlq_payload option" where
  "as_dlq zt (DDlq d) = Some d"
| "as_dlq zt (DBad b) = None"
| "as_dlq zt _ = Some (zero_dlq zt)"

text \<open>
  \<open>NewEnvelope\<close>: marshalling fails when a raw content is not JSON. The event id is drawn outside
  the model (\<open>uuid.NewString\<close>).
\<close>

fun raw_ok :: "raw \<Rightarrow> bool" where
  "raw_ok (Raw_bad b) \<longleftrightarrow> False"
| "raw_ok _ \<longleftrightarrow> True"

fun data_ok :: "kdata \<Rightarrow> bool" where
  "data_ok (DIngress e) \<longleftrightarrow> raw_ok (ie_content e)"
| "data_ok (DPush p) \<longleftrightarrow> raw_ok (pu_content p)"
| "data_ok _ \<longleftrightarrow> True"

definition NewEnvelope :: "string \<Rightarrow> int \<Rightarrow> string \<Rightarrow> string \<Rightarrow> int \<Rightarrow> kdata \<Rightarrow> gerr + envelope" where
  "NewEnvelope uuid now ty source c dat =
     (if data_ok dat
      then Inr (Envelope SchemaVersion (''evt_'' @ uuid) ty now source (FormatInt c) dat)
      else Inl (OtherError ''json: invalid raw message''))"

definition zero_envelope :: envelope where
  "zero_envelope = Envelope 0 [] [] zero_time [] [] DNull"

text \<open>
  \<open>json.Unmarshal\<close> of the value into an envelope: \<open>Inl\<close> carries what a failed attempt leaves. The
  conversation id of a raw outbox payload is a number, which does not fit the envelope.
\<close>

fun decode_envelope :: "kvalue \<Rightarrow> envelope + envelope" where
  "decode_envelope (KEnv e) = Inr e"
| "decode_envelope (KBad b e) = Inl e"
| "decode_envelope (KPayload p) = Inl zero_envelope"
| "decode_envelope KNone = Inl zero_envelope"

section \<open>Topics\<close>

definition trim_dots :: "string \<Rightarrow> string" where
  "trim_dots s = rev (dropWhile (\<lambda>c. c = CHR ''.'') (rev (dropWhile (\<lambda>c. c = CHR ''.'') s)))"

text \<open>\<open>NewTopics\<close> keeps the trimmed suffix.\<close>

definition NewTopics :: "string \<Rightarrow> string" where
  "NewTopics prefix = trim_dots prefix"

definition withSuffix :: "string \<Rightarrow> string \<Rightarrow> string" where
  "withSuffix prefix name = (if prefix = [] then name else name @ ''.'' @ prefix)"

definition InboxTopic :: "string \<Rightarrow> string" where
  "InboxTopic prefix = withSuffix prefix ''im.message.inbox''"
definition PushTopic :: "string \<Rightarrow> string" where
  "PushTopic prefix = withSuffix prefix ''im.message.push''"
definition DLQTopic :: "string \<Rightarrow> string" where
  "DLQTopic prefix = withSuffix prefix ''im.message.dlq''"

definition KeyOf :: "int \<Rightarrow> string" where
  "KeyOf c = FormatInt c"

text \<open>\<open>parseID\<close> is the same loop as \<open>parseConvID\<close> of the persist worker.\<close>

definition parseID :: "string \<Rightarrow> int" where
  "parseID s = parseConvID_loop 0 s"

section \<open>The producer\<close>

text \<open>The log of all topics, in the order of the appends. The partition is \<open>None\<close> when the key decides.\<close>

record krecord =
  k_topic :: string
  k_key :: string
  k_partition :: "int option"
  k_value :: envelope

record broker =
  bk_log :: "krecord list"
  bk_faults :: "gerr fault list"

definition produce :: "krecord \<Rightarrow> broker call" where
  "produce r b =
     (case pop_fault (bk_faults b) of (f, fs) \<Rightarrow>
        (fault_error f,
         b\<lparr>bk_log := (if fault_applied f then bk_log b @ [r] else bk_log b), bk_faults := fs\<rparr>))"

text \<open>
  The state of the producer: the breakers by name (none when it is built without breakers) and
  the broker. \<open>cb\<close> is gobreaker's \<open>Execute\<close>.
\<close>

type_synonym 's kafka = "(string \<rightharpoonup> 's) \<times> broker"

definition record_of :: "string \<Rightarrow> int \<Rightarrow> envelope \<Rightarrow> krecord" where
  "record_of topic part env =
     \<lparr>k_topic = topic, k_key = KeyOf (parseID (conversation_id env)),
      k_partition = (if 0 \<le> part then Some part else None), k_value = env\<rparr>"

definition kafka_publish ::
  "('s, broker) cb_execute \<Rightarrow> string \<Rightarrow> int \<Rightarrow> envelope \<Rightarrow> string \<Rightarrow> 's kafka \<Rightarrow> gerr option \<times> 's kafka"
where
  "kafka_publish cb topic part env breakerName k =
     (case ExecuteByName cb breakerName (produce (record_of topic part env)) k of
        (Some err, k') \<Rightarrow> (Some (Wrap KafkaUnavailable ''kafka publish failed'' (Some err)), k')
      | (None, k') \<Rightarrow> (None, k'))"

definition producer_PublishIngress ::
  "('s, broker) cb_execute \<Rightarrow> string \<Rightarrow> envelope \<Rightarrow> 's kafka \<Rightarrow> gerr option \<times> 's kafka" where
  "producer_PublishIngress cb prefix env = kafka_publish cb (InboxTopic prefix) (-1) env ''kafka:inbox_publish''"

definition PublishPush ::
  "('s, broker) cb_execute \<Rightarrow> string \<Rightarrow> int \<Rightarrow> envelope \<Rightarrow> 's kafka \<Rightarrow> gerr option \<times> 's kafka" where
  "PublishPush cb prefix part env k =
     (if part < 0 then (Some (New InvalidArgument ''negative push partition''), k)
      else kafka_publish cb (PushTopic prefix) part env ''kafka:push_publish'' k)"

definition PublishDLQ ::
  "('s, broker) cb_execute \<Rightarrow> string \<Rightarrow> envelope \<Rightarrow> 's kafka \<Rightarrow> gerr option \<times> 's kafka" where
  "PublishDLQ cb prefix env = kafka_publish cb (DLQTopic prefix) (-1) env ''kafka:dlq_publish''"

text \<open>\<open>Publisher.PublishIngress\<close>.\<close>

definition PublishIngress ::
  "('s, broker) cb_execute \<Rightarrow> string \<Rightarrow> string \<Rightarrow> int \<Rightarrow> string \<Rightarrow> ingress_event \<Rightarrow> 's kafka
     \<Rightarrow> gerr option \<times> 's kafka" where
  "PublishIngress cb prefix uuid now producerName event k =
     (case NewEnvelope uuid now EventInbox producerName (ie_conv event) (DIngress event) of
        Inl e \<Rightarrow> (Some (Internal (Some e)), k)
      | Inr env \<Rightarrow> producer_PublishIngress cb prefix env k)"

section \<open>The consumer\<close>

record kmessage =
  km_topic :: string
  km_partition :: int
  km_offset :: int
  km_key :: string
  km_value :: kvalue

record consumer_config =
  cg_brokers :: "string list"
  cg_topic :: string
  cg_group :: string
  cg_partition :: int
  cg_start :: string
  cg_max_bytes :: int
  cg_max_poll :: int
  cg_session :: int
  cg_rebalance :: int

text \<open>The options of the client library that the constructors choose (loggers left out).\<close>

datatype start_offset = AtStart | AtEnd | AtOffset int int

datatype client_opt =
    SeedBrokers "string list"
  | FetchMaxBytes int
  | ConsumeTopics string
  | ConsumerGroup string
  | DisableAutoCommit
  | ConsumeResetOffset start_offset
  | SessionTimeout int
  | RebalanceTimeout int
  | ConsumePartitions string int start_offset
  | RequiredAcksAll
  | RequiredAcksLeader
  | ProducerLinger int
  | ProducerBatchMaxBytes int
  | ProduceRequestTimeout int
  | RecordDeliveryTimeout int
  | StickyKeyPartitioner
  | ManualPartitioner

record consumer =
  cs_topic :: string
  cs_group :: string
  cs_max_poll :: int
  cs_direct :: bool
  cs_partition :: int
  cs_pending :: "kmessage list"

definition int32 :: "int \<Rightarrow> int" where
  "int32 x = (x + 2 ^ 31) mod 2 ^ 32 - 2 ^ 31"

definition validateConsumerConfig :: "consumer_config \<Rightarrow> gerr option" where
  "validateConsumerConfig cfg =
     (if cg_brokers cfg = [] then Some (OtherError ''kafka brokers must not be empty'')
      else if cg_topic cfg = [] then Some (OtherError ''kafka topic must not be empty'')
      else None)"

definition consumerBaseOptions :: "consumer_config \<Rightarrow> client_opt list" where
  "consumerBaseOptions cfg =
     SeedBrokers (cg_brokers cfg) #
     (if 0 < cg_max_bytes cfg then [FetchMaxBytes (int32 (cg_max_bytes cfg))] else [])"

definition resetOffset :: "string \<Rightarrow> start_offset" where
  "resetOffset v = (if v = ''latest'' then AtEnd else AtStart)"

text \<open>
  The answer of the offset store: the request failed, the group does not exist, or for each
  topic and partition an error or an offset with its leader epoch.
\<close>

datatype fetch_offsets =
    FetchFailed gerr
  | GroupIDNotFound
  | Fetched "string \<Rightarrow> int \<Rightarrow> (gerr + int \<times> int) option"

text \<open>\<open>newClient\<close> is \<open>kgo.NewClient\<close>, \<open>fetch\<close> is \<open>FetchOffsets\<close> for a group.\<close>

definition loadCommittedOffset ::
  "(client_opt list \<Rightarrow> gerr option) \<Rightarrow> (string \<Rightarrow> fetch_offsets) \<Rightarrow> consumer_config \<Rightarrow> gerr + start_offset" where
  "loadCommittedOffset newClient fetch cfg =
     (case newClient (consumerBaseOptions cfg) of
        Some e \<Rightarrow> Inl (Wrapped ''create kafka offset client'' e)
      | None \<Rightarrow>
          (case fetch (cg_group cfg) of
             FetchFailed e \<Rightarrow> Inl (Wrapped ''fetch kafka offset'' e)
           | GroupIDNotFound \<Rightarrow> Inr (resetOffset (cg_start cfg))
           | Fetched f \<Rightarrow>
               (case f (cg_topic cfg) (int32 (cg_partition cfg)) of
                  Some (Inl e) \<Rightarrow> Inl (Wrapped ''fetch kafka offset for partition'' e)
                | Some (Inr (a, epoch)) \<Rightarrow>
                    if 0 \<le> a then Inr (AtOffset a epoch) else Inr (resetOffset (cg_start cfg))
                | None \<Rightarrow> Inr (resetOffset (cg_start cfg)))))"

definition NewConsumer :: "(client_opt list \<Rightarrow> gerr option) \<Rightarrow> consumer_config \<Rightarrow> gerr + consumer" where
  "NewConsumer newClient cfg =
     (case validateConsumerConfig cfg of
        Some e \<Rightarrow> Inl e
      | None \<Rightarrow>
          if cg_group cfg = [] then Inl (OtherError ''kafka consumer group must not be empty'')
          else
            let opts = consumerBaseOptions cfg
                  @ [ConsumeTopics (cg_topic cfg), ConsumerGroup (cg_group cfg), DisableAutoCommit,
                     ConsumeResetOffset (resetOffset (cg_start cfg))]
                  @ (if 0 < cg_session cfg then [SessionTimeout (cg_session cfg)] else [])
                  @ (if 0 < cg_rebalance cfg then [RebalanceTimeout (cg_rebalance cfg)] else [])
            in case newClient opts of
                 Some e \<Rightarrow> Inl (Wrapped ''create kafka group consumer'' e)
               | None \<Rightarrow> Inr \<lparr>cs_topic = cg_topic cfg, cs_group = cg_group cfg, cs_max_poll = cg_max_poll cfg,
                             cs_direct = False, cs_partition = 0, cs_pending = []\<rparr>)"

definition NewPartitionConsumer ::
  "(client_opt list \<Rightarrow> gerr option) \<Rightarrow> (string \<Rightarrow> fetch_offsets) \<Rightarrow> consumer_config \<Rightarrow> gerr + consumer" where
  "NewPartitionConsumer newClient fetch cfg =
     (case validateConsumerConfig cfg of
        Some e \<Rightarrow> Inl e
      | None \<Rightarrow>
          if cg_group cfg = [] then Inl (OtherError ''kafka partition offset group must not be empty'')
          else if cg_partition cfg < 0 then Inl (OtherError ''kafka partition must not be negative'')
          else
            case loadCommittedOffset newClient fetch cfg of
              Inl e \<Rightarrow> Inl e
            | Inr start \<Rightarrow>
                (case newClient (consumerBaseOptions cfg
                         @ [ConsumePartitions (cg_topic cfg) (int32 (cg_partition cfg)) start]) of
                   Some e \<Rightarrow> Inl (Wrapped ''create kafka partition consumer'' e)
                 | None \<Rightarrow> Inr \<lparr>cs_topic = cg_topic cfg, cs_group = cg_group cfg, cs_max_poll = cg_max_poll cfg,
                               cs_direct = True, cs_partition = int32 (cg_partition cfg), cs_pending = []\<rparr>))"

text \<open>
  \<open>NewProducer\<close>: one client for the inbox and dead letter topics, partitioned by key, and one for the
  push topic, where the publisher names the partition. The logger option is left out.
\<close>

record producer_config =
  pg_brokers :: "string list"
  pg_timeout :: int
  pg_acks_all :: bool
  pg_topic_suffix :: string

record producer =
  pn_suffix :: string
  pn_inbox :: "client_opt list"
  pn_push :: "client_opt list"
  pn_timeout :: int

definition producerBaseOptions :: "producer_config \<Rightarrow> client_opt list" where
  "producerBaseOptions cfg =
     [SeedBrokers (pg_brokers cfg), if pg_acks_all cfg then RequiredAcksAll else RequiredAcksLeader,
      ProducerLinger 5, ProducerBatchMaxBytes (2 ^ 20), ProduceRequestTimeout (pg_timeout cfg),
      RecordDeliveryTimeout (pg_timeout cfg)]"

definition NewProducer :: "(client_opt list \<Rightarrow> gerr option) \<Rightarrow> producer_config \<Rightarrow> gerr + producer" where
  "NewProducer newClient cfg0 =
     (if pg_brokers cfg0 = [] then Inl (OtherError ''kafka brokers must not be empty'')
      else
        let cfg = (if pg_timeout cfg0 \<le> 0 then cfg0\<lparr>pg_timeout := 3000\<rparr> else cfg0);
            inbox = producerBaseOptions cfg @ [StickyKeyPartitioner];
            push = producerBaseOptions cfg @ [ManualPartitioner]
        in case newClient inbox of
             Some e \<Rightarrow> Inl (Wrapped ''create inbox producer'' e)
           | None \<Rightarrow>
               (case newClient push of
                  Some e \<Rightarrow> Inl (Wrapped ''create push producer'' e)
                | None \<Rightarrow> Inr \<lparr>pn_suffix = pg_topic_suffix cfg, pn_inbox = inbox, pn_push = push,
                                pn_timeout = pg_timeout cfg\<rparr>))"

text \<open>\<open>Consumer.Partition\<close>.\<close>

definition consumer_Partition :: "consumer \<Rightarrow> int" where
  "consumer_Partition c = (if \<not> cs_direct c then - 1 else cs_partition c)"

definition popPending :: "kmessage list \<Rightarrow> kmessage option \<times> kmessage list" where
  "popPending pending = (case pending of [] \<Rightarrow> (None, []) | m # rest \<Rightarrow> (Some m, rest))"

text \<open>
  \<open>FetchMessage\<close>: the pending queue first; when it is empty, poll. \<open>polls\<close> are the answers of the
  polls to come: the first fetch error if there is one (a closed client included) and the records
  of the partitions that did answer. When they run out the call blocks (\<open>None\<close>).
\<close>

type_synonym poll = "gerr option \<times> kmessage list"

function FetchMessage ::
  "kmessage list \<Rightarrow> poll list \<Rightarrow> ((gerr + kmessage) \<times> kmessage list \<times> poll list) option" where
  "FetchMessage pending polls =
     (case popPending pending of
        (Some m, rest) \<Rightarrow> Some (Inr m, rest, polls)
      | (None, rest) \<Rightarrow>
          (case polls of
             [] \<Rightarrow> None
           | (Some e, recs) # later \<Rightarrow> Some (Inl e, rest, later)
           | (None, recs) # later \<Rightarrow> FetchMessage (rest @ recs) later))"
  by pat_completeness auto

termination
  by (relation "measure (length \<circ> snd)") auto

declare FetchMessage.simps [simp del]

lemma FetchMessage_simps [simp]:
  "FetchMessage (m # pending) polls = Some (Inr m, pending, polls)"
  "FetchMessage [] [] = None"
  "FetchMessage [] ((Some e, recs) # polls) = Some (Inl e, [], polls)"
  "FetchMessage [] ((None, recs) # polls) = FetchMessage recs polls"
  by (subst FetchMessage.simps; simp add: popPending_def)+

text \<open>
  Committed offsets, by topic and partition. \<open>commitDirect\<close> keeps the highest next offset of each
  partition of the batch; the group commit of franz-go does the same with the records.
\<close>

type_synonym offsets = "(string \<times> int) \<rightharpoonup> int"

fun next_offsets :: "kmessage list \<Rightarrow> offsets \<Rightarrow> offsets" where
  "next_offsets [] m = m"
| "next_offsets (x # xs) m =
     (let k = (km_topic x, km_partition x); up = km_offset x + 1 in
      case m k of
        Some old \<Rightarrow> if up \<le> old then next_offsets xs m else next_offsets xs (m(k \<mapsto> up))
      | None \<Rightarrow> next_offsets xs (m(k \<mapsto> up)))"

record offset_store =
  os_committed :: offsets
  os_faults :: "gerr fault list"

definition CommitMessages :: "kmessage list \<Rightarrow> offset_store \<Rightarrow> gerr option \<times> offset_store" where
  "CommitMessages msgs st =
     (if msgs = [] then (None, st)
      else
        case pop_fault (os_faults st) of (f, fs) \<Rightarrow>
          (case fault_error f of
             Some e \<Rightarrow> Some (Wrap KafkaUnavailable ''offset commit failed'' (Some e))
           | None \<Rightarrow> None,
           st\<lparr>os_committed := (if fault_applied f then os_committed st ++ next_offsets msgs Map.empty
                               else os_committed st),
              os_faults := fs\<rparr>))"

section \<open>Facts\<close>

lemma produce_quiet: "bk_faults b = [] \<Longrightarrow> produce r b = (None, b\<lparr>bk_log := bk_log b @ [r]\<rparr>)"
  by (simp add: produce_def)

lemma record_key:
  assumes "NewEnvelope uuid now ty source c dat = Inr env" and "0 \<le> c" and "c \<le> int64_max"
  shows "k_key (record_of topic part env) = FormatInt c"
  using assms parseConvID_FormatInt [of c]
  by (auto simp: NewEnvelope_def record_of_def KeyOf_def parseID_def parseConvID_def split: if_splits)

lemma NewEnvelope_ok:
  "NewEnvelope uuid now ty source c dat = Inr env \<Longrightarrow>
     schema_version env = SchemaVersion \<and> event_type env = ty \<and> conversation_id env = FormatInt c \<and> event_data env = dat"
  by (auto simp: NewEnvelope_def split: if_splits)

text \<open>
  With breakers that keep their contract, a publish either answers an error, or the record was
  handed to the client library, whose answer was none or an error that the breaker hides.
\<close>

lemma kafka_publish_None:
  assumes "cb_contract cb" and "kafka_publish cb topic part env name (m, b) = (None, (m', b'))"
  shows "b' = snd (produce (record_of topic part env) b)
    \<and> \<not> IsTechnical (fst (produce (record_of topic part env) b))"
proof -
  let ?fn = "produce (record_of topic part env)"
  from assms(2) have e: "ExecuteByName cb name ?fn (m, b) = (None, (m', b'))"
    by (auto simp: kafka_publish_def split: prod.splits option.splits)
  show ?thesis
  proof (cases "m name")
    case None
    with e show ?thesis by (auto simp: ExecuteByName_def split: prod.splits)
  next
    case (Some s)
    with e obtain s' where "breaker_Execute cb ?fn (s, b) = (None, (s', b'))"
      by (auto simp: ExecuteByName_def split: prod.splits)
    with breaker_Execute_cases [OF assms(1), of ?fn s b] show ?thesis
      by (cases "IsTechnical (fst (?fn b))") (auto split: if_splits)
  qed
qed

text \<open>
  A reader that fetches until the polls run out: what it is handed, and the properties of that
  stream that the workers rely on.
\<close>

definition delivered_of :: "poll \<Rightarrow> kmessage list" where
  "delivered_of p = (case p of (Some e, recs) \<Rightarrow> [] | (None, recs) \<Rightarrow> recs)"

function fetch_all :: "kmessage list \<Rightarrow> poll list \<Rightarrow> (gerr + kmessage) list" where
  "fetch_all pending polls =
     (case FetchMessage pending polls of
        None \<Rightarrow> []
      | Some (r, pending', polls') \<Rightarrow> r # fetch_all pending' polls')"
  by pat_completeness auto

lemma FetchMessage_consumes:
  "FetchMessage pending polls = Some (r, pending', polls') \<Longrightarrow>
     length pending' + (\<Sum>p \<leftarrow> polls'. Suc (length (snd p))) < length pending + (\<Sum>p \<leftarrow> polls. Suc (length (snd p)))"
proof (induction polls arbitrary: pending)
  case Nil
  then show ?case by (cases pending) auto
next
  case (Cons p polls)
  obtain e recs where p: "p = (e, recs)" by fastforce
  from Cons show ?case by (cases pending; cases e) (fastforce simp: p)+
qed

termination fetch_all
  by (relation "measure (\<lambda>(pending, polls). length pending + (\<Sum>p \<leftarrow> polls. Suc (length (snd p))))")
    (auto dest: FetchMessage_consumes)

declare fetch_all.simps [simp del]

definition fetched :: "(gerr + kmessage) list \<Rightarrow> kmessage list" where
  "fetched rs = concat (map (\<lambda>r. case r of Inl e \<Rightarrow> [] | Inr m \<Rightarrow> [m]) rs)"

lemma FetchMessage_keeps:
  "FetchMessage pending polls = Some (r, pending', polls') \<Longrightarrow>
     pending @ concat (map delivered_of polls)
     = fetched [r] @ pending' @ concat (map delivered_of polls')"
proof (induction polls arbitrary: pending)
  case Nil
  then show ?case by (cases pending) (auto simp: fetched_def)
next
  case (Cons p polls)
  obtain e recs where p: "p = (e, recs)" by fastforce
  from Cons show ?case by (cases pending; cases e) (auto simp: p fetched_def delivered_of_def)
qed

lemma FetchMessage_None: "FetchMessage pending polls = None \<Longrightarrow> pending = [] \<and> concat (map delivered_of polls) = []"
proof (induction polls arbitrary: pending)
  case Nil
  then show ?case by (cases pending) auto
next
  case (Cons p polls)
  obtain e recs where p: "p = (e, recs)" by fastforce
  from Cons show ?case by (cases pending; cases e) (auto simp: p delivered_of_def)
qed

section \<open>Properties\<close>

text \<open>
  The consumer hands out the records of a partition in order and none twice: over any sequence
  of polls, what \<open>FetchMessage\<close> returns is exactly the queue followed by the records of the polls
  that reported no error, in the order of the polls.
\<close>

theorem consumer_in_order:
  "fetched (fetch_all pending polls) = pending @ concat (map delivered_of polls)"
proof (induction pending polls rule: fetch_all.induct)
  case (1 pending polls)
  show ?case
  proof (cases "FetchMessage pending polls")
    case None
    then show ?thesis using FetchMessage_None [OF None] by (simp add: fetch_all.simps fetched_def)
  next
    case (Some s)
    obtain r pending' polls' where s: "s = (r, pending', polls')" by (metis prod.collapse)
    have "fetched (fetch_all pending polls) = fetched [r] @ fetched (fetch_all pending' polls')"
      by (subst fetch_all.simps) (simp add: Some s fetched_def)
    also have "fetched (fetch_all pending' polls') = pending' @ concat (map delivered_of polls')"
      using 1 Some s by blast
    finally show ?thesis using FetchMessage_keeps [of pending polls r pending' polls'] Some s by simp
  qed
qed

definition demo_record :: "int \<Rightarrow> int \<Rightarrow> kmessage" where
  "demo_record p i = \<lparr>km_topic = ''t'', km_partition = p, km_offset = i, km_key = [], km_value = KNone\<rparr>"

text \<open>
  A poll that reports an error for one partition loses the records of the others: the consumer
  returns the error and drops the records it got. The client library has moved past them, so the
  next poll continues behind them; committing the next record of that partition stores an offset
  beyond the records that were never handed out.
\<close>

theorem poll_error_drops_records:
  "let polls = [(Some (OtherError ''partition 1 failed''), [demo_record 0 4]), (None, [demo_record 0 5])];
       rs = fetch_all [] polls
   in rs = [Inl (OtherError ''partition 1 failed''), Inr (demo_record 0 5)]
      \<and> os_committed (snd (CommitMessages (fetched rs) \<lparr>os_committed = Map.empty, os_faults = []\<rparr>)) (''t'', 0) = Some 6"
  by code_simp

end
