(* ===== verification/MessageService.thy ===== *)
theory MessageService
  imports ConversationService Kafka RedisStore
begin

text \<open>
  \<open>internal/message/service.go\<close>: the send path of the gateway (validation, rate limit, membership,
  fast idempotency, publish), history and offline synchronisation, delivery and read receipts;
  with the adapter of \<open>bootstrap/app.go\<close> that puts the rate limiter behind the service.
\<close>

section \<open>The world of the service\<close>

record ('l, 's) msg_world =
  mw_db :: mysql
  mw_redis :: redis
  mw_local :: 'l
  mw_nonce :: nat
  mw_kafka :: "'s kafka"

text \<open>
  \<open>Dependencies\<close> and the configuration behind them. \<open>md_idem\<close> and \<open>md_cursors\<close> say whether the
  optional stores are there; \<open>md_local\<close> is the local limiter of \<open>x/time/rate\<close>, \<open>md_cb\<close> gobreaker.
\<close>

record ('l, 's) msg_deps =
  md_uuid :: uuid_lib
  md_idem :: "idem_conf option"
  md_idem_fallback :: bool
  md_cursors :: bool
  md_local :: "'l local_limiter"
  md_cb :: "('s, broker) cb_execute"
  md_topic_prefix :: string
  md_send_burst :: rat
  md_send_rate :: rat
  md_conv_burst :: rat
  md_conv_rate :: rat
  md_history_burst :: rat
  md_history_rate :: rat

definition at_db :: "(mysql \<Rightarrow> 'a \<times> mysql) \<Rightarrow> ('l, 's) msg_world \<Rightarrow> 'a \<times> ('l, 's) msg_world" where
  "at_db = zoomE mw_db (\<lambda>p w. w\<lparr>mw_db := p\<rparr>)"

definition at_redis :: "(redis \<Rightarrow> 'a \<times> redis) \<Rightarrow> ('l, 's) msg_world \<Rightarrow> 'a \<times> ('l, 's) msg_world" where
  "at_redis = zoomE mw_redis (\<lambda>p w. w\<lparr>mw_redis := p\<rparr>)"

definition at_idem :: "(nat \<times> redis \<Rightarrow> 'a \<times> (nat \<times> redis)) \<Rightarrow> ('l, 's) msg_world \<Rightarrow> 'a \<times> ('l, 's) msg_world" where
  "at_idem = zoomE (\<lambda>w. (mw_nonce w, mw_redis w)) (\<lambda>p w. w\<lparr>mw_nonce := fst p, mw_redis := snd p\<rparr>)"

definition at_limits :: "(redis \<times> 'l \<Rightarrow> 'a \<times> (redis \<times> 'l)) \<Rightarrow> ('l, 's) msg_world \<Rightarrow> 'a \<times> ('l, 's) msg_world" where
  "at_limits = zoomE (\<lambda>w. (mw_redis w, mw_local w)) (\<lambda>p w. w\<lparr>mw_redis := fst p, mw_local := snd p\<rparr>)"

definition at_kafka :: "('s kafka \<Rightarrow> 'a \<times> 's kafka) \<Rightarrow> ('l, 's) msg_world \<Rightarrow> 'a \<times> ('l, 's) msg_world" where
  "at_kafka = zoomE mw_kafka (\<lambda>p w. w\<lparr>mw_kafka := p\<rparr>)"

text \<open>\<open>rateLimiterAdapter\<close>.\<close>

definition AllowSend :: "('l, 's) msg_deps \<Rightarrow> int \<Rightarrow> int \<Rightarrow> redis \<times> 'l \<Rightarrow> gerr option \<times> (redis \<times> 'l)" where
  "AllowSend D u c st =
     (case AllowSendUser (md_local D) u (md_send_burst D) (md_send_rate D) st of
        ((ok, wait), st1) \<Rightarrow>
          if \<not> ok then (Some (Retryable RateLimited ''sending too often'' wait), st1)
          else
            (case AllowSendConversation (md_local D) c (md_conv_burst D) (md_conv_rate D) st1 of
               ((ok, wait), st2) \<Rightarrow>
                 if \<not> ok then (Some (Retryable RateLimited ''conversation is too busy'' wait), st2)
                 else (None, st2)))"

definition adapter_AllowHistory ::
  "('l, 's) msg_deps \<Rightarrow> int \<Rightarrow> int \<Rightarrow> redis \<times> 'l \<Rightarrow> gerr option \<times> (redis \<times> 'l)" where
  "adapter_AllowHistory D u c st =
     (case AllowHistory (md_local D) u c (md_history_burst D) (md_history_rate D) st of
        ((ok, wait), st1) \<Rightarrow>
          if \<not> ok then (Some (Retryable RateLimited ''querying too often'' wait), st1) else (None, st1))"

section \<open>Sending\<close>

record send_cmd =
  sc_sender :: int
  sc_client_id :: string
  sc_conv :: int
  sc_type :: int
  sc_content :: raw
  sc_client_sent :: "int option"

record send_result =
  sr_client_id :: string
  sr_conv :: int
  sr_accepted :: bool

definition ingress_of :: "send_cmd \<Rightarrow> ingress_event" where
  "ingress_of cmd = \<lparr>ie_sender = sc_sender cmd, ie_client_id = sc_client_id cmd, ie_conv = sc_conv cmd,
     ie_type = sc_type cmd, ie_content = sc_content cmd, ie_client_sent = sc_client_sent cmd\<rparr>"

definition accepted_result :: "send_cmd \<Rightarrow> send_result" where
  "accepted_result cmd = \<lparr>sr_client_id = sc_client_id cmd, sr_conv = sc_conv cmd, sr_accepted = True\<rparr>"

definition kafka_unavailable :: gerr where
  "kafka_unavailable = Retryable KafkaUnavailable ''message entry unavailable, retry with the same client_msg_id'' 1000"

text \<open>
  The end of \<open>Send\<close>: publish; on failure give the claim back, on success mark it accepted. Errors
  of \<open>Release\<close> and \<open>MarkAccepted\<close> are dropped. \<open>uuid\<close> and \<open>now\<close> are drawn for the envelope.
\<close>

definition send_publish ::
  "('l, 's) msg_deps \<Rightarrow> string \<Rightarrow> int \<Rightarrow> send_cmd \<Rightarrow> string \<Rightarrow> (('l, 's) msg_world, send_result) svc" where
  "send_publish D uuid now cmd nonce w =
     (case at_kafka (PublishIngress (md_cb D) (md_topic_prefix D) uuid now ''ws-gateway'' (ingress_of cmd)) w of
        (Some err, w1) \<Rightarrow>
          (Inl kafka_unavailable,
           if nonce \<noteq> [] \<and> md_idem D \<noteq> None
           then snd (at_redis (Release (sc_sender cmd) (sc_client_id cmd) nonce) w1) else w1)
      | (None, w1) \<Rightarrow>
          (Inr (accepted_result cmd),
           case md_idem D of
             Some conf \<Rightarrow>
               if nonce \<noteq> []
               then snd (at_redis (MarkAccepted conf (sc_sender cmd) (sc_client_id cmd) nonce) w1) else w1
           | None \<Rightarrow> w1))"

definition send_claimed ::
  "('l, 's) msg_deps \<Rightarrow> string \<Rightarrow> int \<Rightarrow> send_cmd \<Rightarrow> (('l, 's) msg_world, send_result) svc" where
  "send_claimed D uuid now cmd =
     (case md_idem D of
        None \<Rightarrow> send_publish D uuid now cmd []
      | Some conf \<Rightarrow>
          bindE (tryE (at_idem (Acquire conf (sc_sender cmd) (sc_client_id cmd)))) (\<lambda>r.
            case r of
              Inl err \<Rightarrow>
                if \<not> md_idem_fallback D
                then failE (Wrap RedisUnavailable ''idempotency check unavailable'' (Some err))
                else send_publish D uuid now cmd []
            | Inr (IdemAlreadyAccepted, _) \<Rightarrow> returnE (accepted_result cmd)
            | Inr (IdemProcessing, _) \<Rightarrow> failE (Retryable SystemBusy ''message is being processed'' 500)
            | Inr (IdemTaken, n) \<Rightarrow> send_publish D uuid now cmd n))"

definition Send ::
  "('l, 's) msg_deps \<Rightarrow> string \<Rightarrow> int \<Rightarrow> send_cmd \<Rightarrow> (('l, 's) msg_world, send_result) svc" where
  "Send D uuid now cmd =
     (if sc_client_id cmd = [] then failE (New InvalidArgument ''client_msg_id is empty'')
      else if uuid_parse (md_uuid D) (sc_client_id cmd) = None
      then failE (New InvalidArgument ''client_msg_id is no UUID'')
      else
        case ValidateContent (sc_type cmd) (sc_content cmd) of
          Some err \<Rightarrow> failE err
        | None \<Rightarrow>
            bindE (errE (at_limits (AllowSend D (sc_sender cmd) (sc_conv cmd)))) (\<lambda>_.
            bindE (at_db (CheckMember (sc_conv cmd) (sc_sender cmd))) (\<lambda>_.
            bindE (at_db (conv_Get (sc_sender cmd) (sc_conv cmd))) (\<lambda>conv.
              if co_status conv \<noteq> 1
              then failE (New ConversationNotFound ''conversation missing or dismissed'')
              else send_claimed D uuid now cmd))))"

section \<open>Queries\<close>

definition GetByClientMessageID ::
  "('l, 's) msg_deps \<Rightarrow> int \<Rightarrow> string \<Rightarrow> (('l, 's) msg_world, message) svc" where
  "GetByClientMessageID D s cid =
     (if cid = [] then failE (New InvalidArgument ''client_msg_id is empty'')
      else
        bindE (at_db (FindByClientMessageID (md_uuid D) s cid)) (\<lambda>m.
          case m of
            None \<Rightarrow> failE (New MessageNotFound ''message not persisted yet'')
          | Some m \<Rightarrow> returnE m))"

record history_query =
  hq_actor :: int
  hq_conv :: int
  hq_before :: int
  hq_after :: int
  hq_limit :: int

record message_page =
  mp_items :: "message list"
  mp_next_before :: int
  mp_next_after :: int
  mp_has_more :: bool
  mp_resync :: bool

text \<open>\<open>nextBefore\<close> and \<open>nextAfter\<close>: the last sequence number of the page, 0 for an empty one.\<close>

definition nextBefore :: "message list \<Rightarrow> int" where
  "nextBefore items = (if items = [] then 0 else m_seq (last items))"

definition nextAfter :: "message list \<Rightarrow> int" where
  "nextAfter items = (if items = [] then 0 else m_seq (last items))"

definition listBefore ::
  "('l, 's) msg_deps \<Rightarrow> history_query \<Rightarrow> int \<Rightarrow> (('l, 's) msg_world, message_page) svc" where
  "listBefore D q visibleAfter =
     bindE (at_db (ListBefore (md_uuid D) (hq_conv q) (hq_before q) (hq_limit q))) (\<lambda>items.
       let filtered = filter (\<lambda>m. visibleAfter < m_seq m) items in
       returnE \<lparr>mp_items = filtered, mp_next_before = nextBefore filtered, mp_next_after = 0,
                mp_has_more = (int (length filtered) = hq_limit q), mp_resync = False\<rparr>)"

definition recordCursor ::
  "('l, 's) msg_deps \<Rightarrow> history_query \<Rightarrow> message_page \<Rightarrow> ('l, 's) msg_world \<Rightarrow> ('l, 's) msg_world" where
  "recordCursor D q page w =
     (if \<not> md_cursors D \<or> mp_resync page then w
      else
        let synced = (if mp_next_after page = 0 then hq_after q else mp_next_after page) in
        if synced \<le> 0 then w
        else snd (at_redis (cursor_Advance (hq_conv q) (hq_actor q) synced) w))"

definition listAfter ::
  "('l, 's) msg_deps \<Rightarrow> history_query \<Rightarrow> int \<Rightarrow> (('l, 's) msg_world, message_page) svc" where
  "listAfter D q visibleAfter =
     bindE (at_db (ListAfter (md_uuid D) (hq_conv q)
              (if hq_after q < visibleAfter then visibleAfter else hq_after q) (hq_limit q))) (\<lambda>items w.
       let page = \<lparr>mp_items = items, mp_next_before = 0, mp_next_after = nextAfter items,
                   mp_has_more = (int (length items) = hq_limit q),
                   mp_resync = (hq_after q < visibleAfter)\<rparr>
       in returnE page (recordCursor D q page w))"

definition visible_after :: "member \<Rightarrow> int" where
  "visible_after m = (if me_joined_seq m < me_clear_before_seq m then me_clear_before_seq m else me_joined_seq m)"

definition ListHistory ::
  "('l, 's) msg_deps \<Rightarrow> history_query \<Rightarrow> (('l, 's) msg_world, message_page) svc" where
  "ListHistory D query =
     (let q = query\<lparr>hq_limit := page_limit (hq_limit query)\<rparr> in
      if 0 < hq_before q \<and> 0 < hq_after q
      then failE (New InvalidArgument ''before_seq and after_seq exclude each other'')
      else
        bindE (at_db (CheckMember (hq_conv q) (hq_actor q))) (\<lambda>m.
          if 0 < hq_after q then listAfter D q (visible_after m) else listBefore D q (visible_after m)))"

section \<open>Receipts\<close>

definition AckReceived :: "int \<Rightarrow> int \<Rightarrow> int \<Rightarrow> (('l, 's) msg_world, unit) svc" where
  "AckReceived u c seq =
     (if seq \<le> 0 then failE (New InvalidArgument ''invalid received_seq'')
      else bindE (at_db (CheckMember c u)) (\<lambda>_. errE (at_db (AdvanceReceivedCursor c u seq))))"

definition MarkRead :: "int \<Rightarrow> int \<Rightarrow> int \<Rightarrow> (('l, 's) msg_world, unit) svc" where
  "MarkRead u c seq =
     (if seq \<le> 0 then failE (New InvalidArgument ''invalid read_seq'')
      else
        bindE (at_db (CheckMember c u)) (\<lambda>_.
        bindE (at_db (conv_Get u c)) (\<lambda>conv.
          if co_last_seq conv < seq
          then failE (New InvalidArgument ''read_seq is beyond last_seq'')
          else errE (at_db (AdvanceReadCursor c u seq)))))"

section \<open>Facts about sending\<close>

lemmas at_defs = at_db_def at_redis_def at_idem_def at_limits_def at_kafka_def zoomE_def

lemma at_db_iff: "at_db m w = (x, w') \<longleftrightarrow> (\<exists>ms. m (mw_db w) = (x, ms) \<and> w' = w\<lparr>mw_db := ms\<rparr>)"
  by (auto simp: at_db_def zoomE_def split: prod.splits)

lemma CheckMember_state: "CheckMember c u ms = (r, ms') \<Longrightarrow> fst ms' = fst ms"
  by (auto simp: CheckMember_def bindE_def split: option.splits if_splits prod.splits sum.splits dest!: GetMember_state)

lemma redis_call_str:
  assumes "redis_call cmd r = (x, r')" and "\<And>r0 a r1. cmd r0 = (a, r1) \<Longrightarrow> rd_str r1 = rd_str r0 \<and> rd_now r1 = rd_now r0"
  shows "rd_str r' = rd_str r \<and> rd_now r' = rd_now r"
  using assms(1) assms(2) [of "r\<lparr>rd_faults := snd (pop_fault (rd_faults r))\<rparr>"]
  by (auto simp: redis_call_def Let_def split: prod.splits fault.splits)

lemma token_bucket_str: "token_bucket cap rate ttl k r = (a, r') \<Longrightarrow> rd_str r' = rd_str r \<and> rd_now r' = rd_now r"
  by (auto simp: token_bucket_def Let_def split: prod.splits)

lemma Allow_str: "Allow loc k cap rate ttl st = (res, st') \<Longrightarrow> rd_str (fst st') = rd_str (fst st) \<and> rd_now (fst st') = rd_now (fst st)"
  by (auto simp: Allow_def allowL2_def allowL1_def Let_def split: prod.splits sum.splits bool.splits
      dest!: redis_call_str [OF _ token_bucket_str])

lemma AllowSend_str: "AllowSend D u c st = (res, st') \<Longrightarrow> rd_str (fst st') = rd_str (fst st) \<and> rd_now (fst st') = rd_now (fst st)"
  by (auto simp: AllowSend_def AllowSendUser_def AllowSendConversation_def split: prod.splits if_splits
      dest!: Allow_str)

lemma get_str_eq: "rd_str r' = rd_str r \<Longrightarrow> rd_now r' = rd_now r \<Longrightarrow> get_str k r' = get_str k r"
  by (simp add: get_str_def split: option.split)

text \<open>What has passed when \<open>Send\<close> reaches the claim.\<close>

lemma Send_reaches_claim:
  assumes "Send D uuid now cmd w = (Inr res, w')"
  obtains w1 conv where "uuid_parse (md_uuid D) (sc_client_id cmd) \<noteq> None"
    "ValidateContent (sc_type cmd) (sc_content cmd) = None"
    "fst (mw_db w1) = fst (mw_db w)" "mw_kafka w1 = mw_kafka w" "mw_nonce w1 = mw_nonce w"
    "rd_str (mw_redis w1) = rd_str (mw_redis w)" "rd_now (mw_redis w1) = rd_now (mw_redis w)"
    "send_claimed D uuid now cmd w1 = (Inr res, w')"
    "\<exists>m \<in> set (d_members (fst (mw_db w))). mb_conv m = sc_conv cmd \<and> mb_user m = sc_sender cmd
       \<and> mb_status m = MemberStatusNormal"
    "\<exists>c \<in> set (d_convs (fst (mw_db w))). cr_id c = sc_conv cmd \<and> cr_status c = 1"
proof -
  from assms have u: "uuid_parse (md_uuid D) (sc_client_id cmd) \<noteq> None"
    and v: "ValidateContent (sc_type cmd) (sc_content cmd) = None"
    and rest: "bindE (errE (at_limits (AllowSend D (sc_sender cmd) (sc_conv cmd)))) (\<lambda>_.
            bindE (at_db (CheckMember (sc_conv cmd) (sc_sender cmd))) (\<lambda>_.
            bindE (at_db (conv_Get (sc_sender cmd) (sc_conv cmd))) (\<lambda>conv.
              if co_status conv \<noteq> 1
              then failE (New ConversationNotFound ''conversation missing or dismissed'')
              else send_claimed D uuid now cmd))) w = (Inr res, w')"
    by (auto simp: Send_def split: if_splits option.splits)
  obtain u0 wa where a0: "errE (at_limits (AllowSend D (sc_sender cmd) (sc_conv cmd))) w = (Inr u0, wa)"
    and rest1: "bindE (at_db (CheckMember (sc_conv cmd) (sc_sender cmd))) (\<lambda>_.
            bindE (at_db (conv_Get (sc_sender cmd) (sc_conv cmd))) (\<lambda>conv.
              if co_status conv \<noteq> 1
              then failE (New ConversationNotFound ''conversation missing or dismissed'')
              else send_claimed D uuid now cmd)) wa = (Inr res, w')"
    using rest by (rule bindE_okE)
  from a0 have a: "at_limits (AllowSend D (sc_sender cmd) (sc_conv cmd)) w = (None, wa)" by (simp add: errE_ok)
  obtain m wb where b: "at_db (CheckMember (sc_conv cmd) (sc_sender cmd)) wa = (Inr m, wb)"
    and rest2: "bindE (at_db (conv_Get (sc_sender cmd) (sc_conv cmd))) (\<lambda>conv.
              if co_status conv \<noteq> 1
              then failE (New ConversationNotFound ''conversation missing or dismissed'')
              else send_claimed D uuid now cmd) wb = (Inr res, w')"
    using rest1 by (rule bindE_okE)
  obtain conv wc where c: "at_db (conv_Get (sc_sender cmd) (sc_conv cmd)) wb = (Inr conv, wc)"
    and st0: "(if co_status conv \<noteq> 1
              then failE (New ConversationNotFound ''conversation missing or dismissed'')
              else send_claimed D uuid now cmd) wc = (Inr res, w')"
    using rest2 by (rule bindE_okE)
  from st0 have st: "send_claimed D uuid now cmd wc = (Inr res, w')" by (simp split: if_splits)
  have wa: "mw_db wa = mw_db w" "mw_kafka wa = mw_kafka w" "mw_nonce wa = mw_nonce w"
    "rd_str (mw_redis wa) = rd_str (mw_redis w)" "rd_now (mw_redis wa) = rd_now (mw_redis w)"
    using a by (auto simp: at_defs split: prod.splits dest!: AllowSend_str)
  have wb: "fst (mw_db wb) = fst (mw_db wa)" "mw_kafka wb = mw_kafka wa" "mw_nonce wb = mw_nonce wa" "mw_redis wb = mw_redis wa"
    using b by (auto simp: at_db_iff dest!: CheckMember_state)
  from c obtain msx where g: "conv_Get (sc_sender cmd) (sc_conv cmd) (mw_db wb) = (Inr conv, msx)"
    and wc: "wc = wb\<lparr>mw_db := msx\<rparr>" by (auto simp: at_defs split: prod.splits)
  have f1: "\<exists>m \<in> set (d_members (fst (mw_db w))). mb_conv m = sc_conv cmd \<and> mb_user m = sc_sender cmd
       \<and> mb_status m = MemberStatusNormal"
    and f2: "\<exists>c \<in> set (d_convs (fst (mw_db w))). cr_id c = sc_conv cmd \<and> cr_status c = 1"
    using conv_Get_ok [OF g] wa(1) wb(1) by (auto dest!: find_Some_set)
  have "fst (mw_db wc) = fst (mw_db w)" using conv_Get_state [OF g] wa(1) wb(1) by (simp add: wc)
  moreover have "mw_kafka wc = mw_kafka w" "mw_nonce wc = mw_nonce w"
    "rd_str (mw_redis wc) = rd_str (mw_redis w)" "rd_now (mw_redis wc) = rd_now (mw_redis w)"
    using wa(2-5) wb(2-4) by (simp_all add: wc)
  ultimately show ?thesis by (rule that [OF u v _ _ _ _ _ st f1 f2])
qed

definition inbox_record :: "('l, 's) msg_deps \<Rightarrow> string \<Rightarrow> int \<Rightarrow> send_cmd \<Rightarrow> krecord" where
  "inbox_record D uuid now cmd = record_of (InboxTopic (md_topic_prefix D)) (-1)
     (Envelope SchemaVersion (''evt_'' @ uuid) EventInbox now ''ws-gateway'' (FormatInt (sc_conv cmd))
       (DIngress (ingress_of cmd)))"

lemma PublishIngress_None:
  assumes "cb_contract cb" and "md_cb D = cb"
    and "PublishIngress cb (md_topic_prefix D) uuid now ''ws-gateway'' (ingress_of cmd) (m, b) = (None, (m', b'))"
  shows "b' = snd (produce (inbox_record D uuid now cmd) b) \<and> \<not> IsTechnical (fst (produce (inbox_record D uuid now cmd) b))"
  using assms(3) kafka_publish_None [OF assms(1)]
  by (auto simp: PublishIngress_def producer_PublishIngress_def NewEnvelope_def inbox_record_def ingress_of_def
      split: if_splits)

lemma send_publish_ok:
  assumes "cb_contract (md_cb D)" and "send_publish D uuid now cmd nonce w = (Inr res, w')"
  shows "res = accepted_result cmd \<and> snd (mw_kafka w') = snd (produce (inbox_record D uuid now cmd) (snd (mw_kafka w)))
    \<and> \<not> IsTechnical (fst (produce (inbox_record D uuid now cmd) (snd (mw_kafka w))))"
proof -
  obtain m b where k: "mw_kafka w = (m, b)" by fastforce
  from assms(2) obtain m' b' where
    p: "PublishIngress (md_cb D) (md_topic_prefix D) uuid now ''ws-gateway'' (ingress_of cmd) (m, b) = (None, (m', b'))"
    and res: "res = accepted_result cmd" and w': "snd (mw_kafka w') = b'"
    by (auto simp: send_publish_def at_defs k split: prod.splits option.splits if_splits)
  from PublishIngress_None [OF assms(1) refl p] res w' show ?thesis by (simp add: k)
qed

lemma send_claimed_ok:
  assumes "cb_contract (md_cb D)" and "send_claimed D uuid now cmd w = (Inr res, w')"
  shows "res = accepted_result cmd
    \<and> (get_str (IdemKey (sc_sender cmd) (sc_client_id cmd)) (mw_redis w) = Some (RText idemAcceptedValue)
       \<or> (snd (mw_kafka w') = snd (produce (inbox_record D uuid now cmd) (snd (mw_kafka w)))
          \<and> \<not> IsTechnical (fst (produce (inbox_record D uuid now cmd) (snd (mw_kafka w))))))"
proof (cases "md_idem D")
  case None
  with assms(2) send_publish_ok [OF assms(1)] show ?thesis by (auto simp: send_claimed_def)
next
  case (Some conf)
  obtain r p where a: "Acquire conf (sc_sender cmd) (sc_client_id cmd) (mw_nonce w, mw_redis w) = (r, p)"
    by (metis prod.collapse)
  let ?w1 = "w\<lparr>mw_nonce := fst p, mw_redis := snd p\<rparr>"
  have t: "tryE (at_idem (Acquire conf (sc_sender cmd) (sc_client_id cmd))) w = (Inr r, ?w1)"
    by (simp add: tryE_def at_defs a)
  have k: "mw_kafka ?w1 = mw_kafka w" by simp
  show ?thesis
  proof (cases r)
    case (Inl e)
    then have "send_publish D uuid now cmd [] ?w1 = (Inr res, w')"
      using assms(2) Some t by (auto simp: send_claimed_def bindE_def split: if_splits)
    from send_publish_ok [OF assms(1) this] show ?thesis by simp
  next
    case (Inr v)
    obtain g n where v: "v = (g, n)" by fastforce
    show ?thesis
    proof (cases g)
      case IdemTaken
      then have "send_publish D uuid now cmd n ?w1 = (Inr res, w')"
        using assms(2) Some t Inr v by (simp add: send_claimed_def bindE_def)
      from send_publish_ok [OF assms(1) this] show ?thesis by simp
    next
      case IdemAlreadyAccepted
      then have "res = accepted_result cmd"
        using assms(2) Some t Inr v by (simp add: send_claimed_def bindE_def)
      moreover have "get_str (IdemKey (sc_sender cmd) (sc_client_id cmd)) (mw_redis w) = Some (RText idemAcceptedValue)"
        using a Inr v IdemAlreadyAccepted
        by (auto simp: Acquire_def newNonce_def redis_call_def acquire_message_idem_def Let_def get_str_def set_str_def
            split: prod.splits sum.splits option.splits if_splits fault.splits)
      ultimately show ?thesis by simp
    next
      case IdemProcessing
      then show ?thesis using assms(2) Some t Inr v by (simp add: send_claimed_def bindE_def)
    qed
  qed
qed

lemma send_publish_db: "mw_db (snd (send_publish D uuid now cmd nonce w)) = mw_db w"
  by (auto simp: send_publish_def at_defs split: prod.splits option.splits)

lemma send_claimed_db: "send_claimed D uuid now cmd w = (r, w') \<Longrightarrow> mw_db w' = mw_db w"
proof -
  have "mw_db (snd (send_claimed D uuid now cmd w)) = mw_db w"
    by (cases "md_idem D") (simp_all add: send_claimed_def bindE_def tryE_def at_idem_def zoomE_def case_prod_beta
        send_publish_db split: sum.split IdemResult.split)
  then show "send_claimed D uuid now cmd w = (r, w') \<Longrightarrow> mw_db w' = mw_db w" by simp
qed

section \<open>Properties\<close>


text \<open>A gateway with a closed breaker on the inbox topic, for the examples.\<close>

definition demo_breaker :: breaker_config where
  "demo_breaker = \<lparr>bc_name = ''kafka:inbox_publish'', bc_interval = 10000, bc_min_requests = 20,
     bc_failure_ratio = 1 / 2, bc_open_timeout = 5000, bc_half_open_max = 5\<rparr>"

definition demo_deps :: "(unit, counting_breaker) msg_deps" where
  "demo_deps = \<lparr>md_uuid = demo_uuid, md_idem = Some demo_idem, md_idem_fallback = True, md_cursors = True,
     md_local = (\<lambda>_ _ _ l. (True, l)), md_cb = counting_execute demo_breaker, md_topic_prefix = [],
     md_send_burst = 20, md_send_rate = 10, md_conv_burst = 200, md_conv_rate = 100,
     md_history_burst = 20, md_history_rate = 10\<rparr>"

definition demo_gateway :: "gerr fault list \<Rightarrow> (unit, counting_breaker) msg_world" where
  "demo_gateway faults = \<lparr>mw_db = (demo_db1, []), mw_redis = empty_redis, mw_local = (), mw_nonce = 0,
     mw_kafka = (Map.empty(''kafka:inbox_publish'' \<mapsto> \<lparr>cnt_open = False, cnt_requests = 0, cnt_failures = 0\<rparr>),
                 \<lparr>bk_log = [], bk_faults = faults\<rparr>)\<rparr>"

definition demo_send :: send_cmd where
  "demo_send = \<lparr>sc_sender = 7, sc_client_id = ''c'', sc_conv = 5, sc_type = 1, sc_content = demo_content,
     sc_client_sent = None\<rparr>"

definition inbox_log :: "('l, 's) msg_world \<Rightarrow> krecord list" where
  "inbox_log w = bk_log (snd (mw_kafka w))"


text \<open>
  A message can be accepted and lost. The client library times out without having written the
  record; the breaker hides the error because a deadline is not technical, so \<open>Send\<close> answers
  accepted and marks the client id accepted. Nothing is written to the inbox topic, no failure is
  left over, and the retries of the client are answered from that mark.
\<close>

theorem accepted_but_lost:
  "let w0 = demo_gateway [Lost (Sentinel ContextDeadlineExceeded)];
       (r1, w1) = Send demo_deps ''u1'' 0 demo_send w0
   in r1 = Inr (accepted_result demo_send) \<and> inbox_log w1 = [] \<and> bk_faults (snd (mw_kafka w1)) = []
      \<and> get_str (IdemKey (sc_sender demo_send) (sc_client_id demo_send)) (mw_redis w1) = Some (RText idemAcceptedValue)"
  by code_simp


section \<open>Rejections\<close>

lemma Allow_reliable: "Allow loc k cap rate ttl st = (res, st') \<Longrightarrow> rd_faults (fst st) = [] \<Longrightarrow> rd_faults (fst st') = []"
  by (auto simp: Allow_def allowL2_def allowL1_def Let_def redis_call_ok token_bucket_def split: prod.splits sum.splits bool.splits)

lemma AllowSend_reliable: "AllowSend D u c st = (res, st') \<Longrightarrow> rd_faults (fst st) = [] \<Longrightarrow> rd_faults (fst st') = []"
  by (auto simp: AllowSend_def AllowSendUser_def AllowSendConversation_def split: prod.splits if_splits dest!: Allow_reliable)

text \<open>The tables, the strings of Redis and its reliability, as a call found them.\<close>

definition undisturbed :: "('l, 's) msg_world \<Rightarrow> ('l, 's) msg_world \<Rightarrow> bool" where
  "undisturbed w w' \<longleftrightarrow> fst (mw_db w') = fst (mw_db w) \<and> (\<forall>k. get_str k (mw_redis w') = get_str k (mw_redis w))
     \<and> (rd_faults (mw_redis w) = [] \<longrightarrow> rd_faults (mw_redis w') = [])"

lemma undisturbed_refl [simp]: "undisturbed w w"
  by (simp add: undisturbed_def)

lemma undisturbed_trans [trans]: "undisturbed w w1 \<Longrightarrow> undisturbed w1 w2 \<Longrightarrow> undisturbed w w2"
  by (simp add: undisturbed_def)

lemma undisturbed_steps:
  "at_limits (AllowSend D u c) w = (x, w') \<Longrightarrow> undisturbed w w' \<and> mw_kafka w' = mw_kafka w"
  "at_db (CheckMember c u) w = (y, w') \<Longrightarrow> undisturbed w w' \<and> mw_kafka w' = mw_kafka w"
  "at_db (conv_Get u c) w = (z, w') \<Longrightarrow> undisturbed w w' \<and> mw_kafka w' = mw_kafka w"
  by (auto simp: at_defs undisturbed_def split: prod.splits
      dest: AllowSend_str AllowSend_reliable CheckMember_state conv_Get_state intro!: get_str_eq)

lemma send_claimed_err:
  assumes "send_claimed D uuid now cmd w = (Inl err, w')" and "rd_faults (mw_redis w) = []"
  shows "undisturbed w w' \<and> (mw_kafka w' = mw_kafka w \<or> err = kafka_unavailable)"
proof (cases "md_idem D")
  case None
  then show ?thesis using assms(1)
    by (auto simp: send_claimed_def send_publish_def at_defs undisturbed_def split: prod.splits option.splits)
next
  case (Some conf)
  show ?thesis
  proof (cases "get_str (IdemKey (sc_sender cmd) (sc_client_id cmd)) (mw_redis w)")
    case None
    then show ?thesis using assms Some
      by (auto simp: send_claimed_def send_publish_def at_defs undisturbed_def bindE_def tryE_def Acquire_def newNonce_def
          redis_call_ok acquire_message_idem_def Release_def release_message_idem_def set_str_def del_str_def get_str_def
          split: prod.splits option.splits if_splits)
  next
    case (Some v)
    then show ?thesis using assms \<open>md_idem D = Some conf\<close>
      by (auto simp: send_claimed_def at_defs undisturbed_def bindE_def tryE_def Acquire_def newNonce_def
          redis_call_ok acquire_message_idem_def split: prod.splits option.splits if_splits)
  qed
qed

lemma undisturbedD: "undisturbed w w' \<Longrightarrow> rd_faults (mw_redis w) = [] \<Longrightarrow> rd_faults (mw_redis w') = []"
  by (simp add: undisturbed_def)




end
