(* ===== verification/History.thy ===== *)
theory History
  imports MessageService "HOL-Library.Multiset"
begin

text \<open>
  The history interface seen by a client that follows its cursors: scrolling back with
  \<open>before_seq\<close> and offline synchronisation with \<open>after_seq\<close>, page after page, both through
  \<open>ListHistory\<close> of \<open>message/service.go\<close>. Both walks are complete and stop.
\<close>

section \<open>Rows and sequence numbers\<close>

lemma filter_key_distinct: "distinct (map f xs) \<Longrightarrow> k \<in> set xs \<Longrightarrow> filter (\<lambda>x. f k = f x) xs = [k]"
  by (induction xs) (auto simp: filter_empty_conv image_iff)

lemma sort_key_neg_rev:
  assumes "sorted_wrt (<) (map f xs)"
  shows "sort_key (\<lambda>r. - f r :: int) xs = rev xs"
proof (rule properties_for_sort_key)
  show "mset (rev xs) = mset xs" by simp
  have d: "distinct (map (\<lambda>r. - f r) xs)" "distinct (map (\<lambda>r. - f r) (rev xs))"
    using assms by (auto simp: strict_sorted_iff distinct_map inj_on_def)
  show "filter (\<lambda>x. - f k = - f x) (rev xs) = filter (\<lambda>x. - f k = - f x) xs" if "k \<in> set (rev xs)" for k
    using filter_key_distinct [OF d(1), of k] filter_key_distinct [OF d(2), of k] that by simp
  show "sorted (map (\<lambda>r. - f r) (rev xs))"
    using assms by (simp add: sorted_wrt_map sorted_wrt_rev) (auto elim: sorted_wrt_mono_rel [rotated])
qed

lemma filter_upto_above: "filter ((<) a) [1..b] = [max 1 (a + 1)..b]" for a b :: int
proof (cases "a < 1 \<or> b < a")
  case True
  then show ?thesis
  proof
    assume "a < 1"
    then have "max 1 (a + 1) = 1" "filter ((<) a) [1..b] = [1..b]" by (auto simp: filter_id_conv)
    then show ?thesis by simp
  qed (auto simp: filter_empty_conv)
next
  case False
  then have "[1..b] = [1..a] @ [a + 1..b]" by (intro upto_split2) auto
  moreover have "filter ((<) a) [1..a] = []" "filter ((<) a) [a + 1..b] = [a + 1..b]"
    by (auto simp: filter_id_conv filter_empty_conv)
  ultimately show ?thesis using False by (simp add: max_def)
qed

lemma filter_upto_below: "filter (\<lambda>x. x < c) [a..b] = [a..min b (c - 1)]" for a b c :: int
proof (cases "c \<le> a \<or> b < c")
  case True
  then show ?thesis by (auto simp: filter_id_conv filter_empty_conv min_def)
next
  case False
  then have "[a..b] = [a..c - 1] @ [c..b]" using upto_split1 [of a c b] by simp
  moreover have "filter (\<lambda>x. x < c) [a..c - 1] = [a..c - 1]" "filter (\<lambda>x. x < c) [c..b] = []"
    by (auto simp: filter_id_conv filter_empty_conv)
  ultimately show ?thesis using False by (simp add: min_def)
qed

lemma map_filter_eq: "map f (filter (\<lambda>x. P (f x)) xs) = filter P (map f xs)"
  by (induction xs) auto

lemma seqs_sorted:
  assumes "convs_inv d" and "cv \<in> set (d_convs d)"
  shows "sorted_wrt (<) (map mr_seq (filter P (messages_of (cr_id cv) d)))"
proof -
  have "sorted_wrt (<) (map mr_seq (messages_of (cr_id cv) d))"
    using assms by (auto simp: convs_inv_def)
  then show ?thesis by (rule sorted_wrt_filter_map)
qed

lemma rows_after_seqs:
  assumes "convs_inv d" and "cv \<in> set (d_convs d)" and "1 \<le> l"
  shows "map mr_seq (rows_after (cr_id cv) after l d) = take (nat l) [max 1 (after + 1)..cr_last_seq cv]"
proof -
  have "filter (\<lambda>r. mr_conv r = cr_id cv \<and> after < mr_seq r) (d_msgs d) = filter (\<lambda>r. after < mr_seq r) (messages_of (cr_id cv) d)"
    by (simp add: messages_of_def conj_commute)
  moreover have "sort_key mr_seq (filter (\<lambda>r. after < mr_seq r) (messages_of (cr_id cv) d))
      = filter (\<lambda>r. after < mr_seq r) (messages_of (cr_id cv) d)"
    using seqs_sorted [OF assms(1,2), of "\<lambda>r. after < mr_seq r"]
    by (intro sort_key_id_if_sorted) (simp add: strict_sorted_iff)
  moreover have "map mr_seq (filter (\<lambda>r. after < mr_seq r) (messages_of (cr_id cv) d)) = [max 1 (after + 1)..cr_last_seq cv]"
    using assms(1,2) by (simp add: map_filter_eq [of mr_seq "(<) after"] filter_upto_above convs_inv_def)
  ultimately show ?thesis using assms(3) by (simp add: rows_after_def sql_limit_def take_map [symmetric])
qed

lemma rows_before_seqs:
  assumes "convs_inv d" and "cv \<in> set (d_convs d)" and "1 \<le> l"
  shows "map mr_seq (rows_before (cr_id cv) bef l d)
    = take (nat l) (rev [1..if 0 < bef then min (cr_last_seq cv) (bef - 1) else cr_last_seq cv])"
proof -
  let ?P = "\<lambda>s. 0 < bef \<longrightarrow> s < bef"
  have "filter (\<lambda>r. mr_conv r = cr_id cv \<and> (0 < bef \<longrightarrow> mr_seq r < bef)) (d_msgs d) = filter (\<lambda>r. ?P (mr_seq r)) (messages_of (cr_id cv) d)"
    by (simp add: messages_of_def conj_commute)
  moreover have "sort_key (\<lambda>r. - mr_seq r) (filter (\<lambda>r. ?P (mr_seq r)) (messages_of (cr_id cv) d))
      = rev (filter (\<lambda>r. ?P (mr_seq r)) (messages_of (cr_id cv) d))"
    by (rule sort_key_neg_rev [OF seqs_sorted [OF assms(1,2)]])
  moreover have "map mr_seq (filter (\<lambda>r. ?P (mr_seq r)) (messages_of (cr_id cv) d))
      = [1..if 0 < bef then min (cr_last_seq cv) (bef - 1) else cr_last_seq cv]"
    using assms(1,2) by (auto simp: map_filter_eq [of mr_seq ?P] filter_upto_below convs_inv_def)
  ultimately show ?thesis using assms(3) by (simp add: rows_before_def sql_limit_def take_map [symmetric] rev_map [symmetric])
qed

lemma filter_take_decreasing:
  "sorted_wrt (\<lambda>x y. P y \<longrightarrow> P x) xs \<Longrightarrow> filter P (take n xs) = take n (filter P xs)"
proof (induction xs arbitrary: n)
  case (Cons a xs)
  then show ?case
  proof (cases "P a")
    case False
    with Cons.prems have "filter P xs = []" by (auto simp: filter_empty_conv)
    moreover from this have "filter P (take (n - 1) xs) = []" by (auto simp: filter_empty_conv dest: in_set_takeD)
    ultimately show ?thesis using False by (cases n) simp_all
  qed (cases n, simp_all)
qed simp

lemma visible_seqs:
  "filter ((<) v) (take n (rev [1..hi])) = take n (rev [max 1 (v + 1)..hi])" for v hi :: int
proof -
  have "sorted_wrt (\<lambda>x y. v < y \<longrightarrow> v < x) (rev [1..hi])"
    by (simp add: sorted_wrt_rev) (rule sorted_wrt_mono_rel [OF _ sorted_upto], auto)
  then show ?thesis by (simp add: filter_take_decreasing rev_filter [symmetric] filter_upto_above)
qed

lemma take_rev_upto:
  assumes "int n \<le> hi - lo + 1" and "0 < n"
  shows "rev [lo..hi] = take n (rev [lo..hi]) @ rev [lo..hi - int n]" "last (take n (rev [lo..hi])) = hi - int n + 1"
proof -
  have "[lo..hi] = [lo..hi - int n] @ [hi - int n + 1..hi]" 
  proof (cases "lo \<le> hi - int n")
    case False
    with assms have "int n = hi - lo + 1" by simp
    then show ?thesis by simp
  qed (use assms upto_split2 [of lo "hi - int n" hi] in simp)
  moreover have "[hi - int n + 1..hi] = (hi - int n + 1) # [hi - int n + 1 + 1..hi]"
    using assms(2) upto_rec1 [of "hi - int n + 1" hi] by simp
  ultimately have "rev [lo..hi] = (rev [hi - int n + 1 + 1..hi] @ [hi - int n + 1]) @ rev [lo..hi - int n]" by simp
  moreover from this assms have "take n (rev [lo..hi]) = rev [hi - int n + 1 + 1..hi] @ [hi - int n + 1]"
    by (cases n) simp_all
  ultimately show "rev [lo..hi] = take n (rev [lo..hi]) @ rev [lo..hi - int n]"
    "last (take n (rev [lo..hi])) = hi - int n + 1" by simp_all
qed

lemma take_upto:
  assumes "int n \<le> hi - lo + 1" and "0 < n"
  shows "[lo..hi] = take n [lo..hi] @ [lo + int n..hi]" "last (take n [lo..hi]) = lo + int n - 1"
proof -
  have "[lo..hi] = [lo..lo + int n - 1] @ [lo + int n..hi]" 
  proof (cases "lo + int n \<le> hi")
    case False
    with assms have "int n = hi - lo + 1" by simp
    then show ?thesis by simp
  qed (use assms upto_split1 [of lo "lo + int n" hi] in simp)
  moreover from this assms have t: "take n [lo..hi] = [lo..lo + int n - 1]" by simp
  ultimately show "[lo..hi] = take n [lo..hi] @ [lo + int n..hi]" by simp
  show "last (take n [lo..hi]) = lo + int n - 1"
    unfolding t using assms(2) upto_rec2 [of lo "lo + int n - 1"] by simp
qed

lemma toDomainMessage_seq [simp]: "m_seq (toDomainMessage U r) = mr_seq r"
  by (simp add: toDomainMessage_def)

lemma map_seq_domain: "map m_seq (map (toDomainMessage U) rows) = map mr_seq rows"
  by simp

lemma CheckMember_quiet: "fst (CheckMember c u (d, [])) = Inr m \<Longrightarrow> CheckMember c u (d, []) = (Inr m, (d, []))"
  by (auto simp: CheckMember_def GetMember_def bindE_def split: option.splits if_splits)

lemma same_db: "mw_db w = x \<Longrightarrow> w\<lparr>mw_db := x\<rparr> = w"
  by auto

text \<open>One request of a client that scrolls back, and one of a client that synchronises.\<close>

lemma ListHistory_back:
  assumes "convs_inv d" and "cv \<in> set (d_convs d)" and "fst (CheckMember (cr_id cv) u (d, [])) = Inr m"
    and "mw_db w = (d, [])" and "l = nat (page_limit limit)"
  shows "\<exists>p w'. ListHistory D \<lparr>hq_actor = u, hq_conv = cr_id cv, hq_before = b, hq_after = 0, hq_limit = limit\<rparr> w = (Inr p, w')
    \<and> mw_db w' = (d, [])
    \<and> map m_seq (mp_items p) = take l (rev [max 1 (visible_after m + 1)..if 0 < b then min (cr_last_seq cv) (b - 1) else cr_last_seq cv])
    \<and> mp_next_before p = (if mp_items p = [] then 0 else last (map m_seq (mp_items p)))
    \<and> mp_has_more p = (length (mp_items p) = l)"
proof -
  have l: "1 \<le> page_limit limit" "page_limit limit = int l" using page_limit_bounds(1) [of limit] assms(5) by simp_all
  let ?q = "\<lparr>hq_actor = u, hq_conv = cr_id cv, hq_before = b, hq_after = 0, hq_limit = page_limit limit\<rparr>"
  let ?items = "filter (\<lambda>x. visible_after m < m_seq x) (map (toDomainMessage (md_uuid D)) (rows_before (cr_id cv) b (page_limit limit) d))"
  let ?p = "\<lparr>mp_items = ?items, mp_next_before = nextBefore ?items, mp_next_after = 0,
                mp_has_more = (int (length ?items) = page_limit limit), mp_resync = False\<rparr>"
  note c = CheckMember_quiet [OF assms(3)]
  have "at_db (CheckMember (cr_id cv) u) w = (Inr m, w)"
    using c same_db [OF assms(4)] by (simp add: at_db_def zoomE_def assms(4))
  moreover have "at_db (ListBefore (md_uuid D) (cr_id cv) b (page_limit limit)) w
      = (Inr (map (toDomainMessage (md_uuid D)) (rows_before (cr_id cv) b (page_limit limit) d)), w)"
    using same_db [OF assms(4)] by (simp add: at_db_def zoomE_def ListBefore_def assms(4))
  ultimately have r: "ListHistory D \<lparr>hq_actor = u, hq_conv = cr_id cv, hq_before = b, hq_after = 0, hq_limit = limit\<rparr> w = (Inr ?p, w)"
    by (simp add: ListHistory_def listBefore_def Let_def bindE_def)
  have s: "map m_seq ?items = take l (rev [max 1 (visible_after m + 1)..if 0 < b then min (cr_last_seq cv) (b - 1) else cr_last_seq cv])"
    unfolding map_filter_eq map_seq_domain rows_before_seqs [OF assms(1,2) l(1)] visible_seqs using assms(5) by simp
  show ?thesis
    
  proof (intro exI conjI)
    show "mp_next_before ?p = (if mp_items ?p = [] then 0 else last (map m_seq (mp_items ?p)))"
      by (simp add: nextBefore_def last_map del: map_map)
    show "map m_seq (mp_items ?p) = take l (rev [max 1 (visible_after m + 1)..if 0 < b then min (cr_last_seq cv) (b - 1) else cr_last_seq cv])"
      using s by simp
  qed (use r assms(4) l(2) in simp_all)
qed

lemma ListHistory_sync:
  assumes "convs_inv d" and "cv \<in> set (d_convs d)" and "fst (CheckMember (cr_id cv) u (d, [])) = Inr m"
    and "mw_db w = (d, [])" and "l = nat (page_limit limit)" and "0 < a"
  shows "\<exists>p w'. ListHistory D \<lparr>hq_actor = u, hq_conv = cr_id cv, hq_before = 0, hq_after = a, hq_limit = limit\<rparr> w = (Inr p, w')
    \<and> mw_db w' = (d, [])
    \<and> map m_seq (mp_items p) = take l [max a (visible_after m) + 1..cr_last_seq cv]
    \<and> mp_next_after p = (if mp_items p = [] then 0 else last (map m_seq (mp_items p)))
    \<and> mp_has_more p = (length (mp_items p) = l) \<and> mp_resync p = (a < visible_after m)"
proof -
  have l: "1 \<le> page_limit limit" "page_limit limit = int l" using page_limit_bounds(1) [of limit] assms(5) by simp_all
  let ?q = "\<lparr>hq_actor = u, hq_conv = cr_id cv, hq_before = 0, hq_after = a, hq_limit = page_limit limit\<rparr>"
  let ?a = "max a (visible_after m)"
  let ?items = "map (toDomainMessage (md_uuid D)) (rows_after (cr_id cv) ?a (page_limit limit) d)"
  let ?p = "\<lparr>mp_items = ?items, mp_next_before = 0, mp_next_after = nextAfter ?items,
                mp_has_more = (int (length ?items) = page_limit limit), mp_resync = (a < visible_after m)\<rparr>"
  have a: "(if a < visible_after m then visible_after m else a) = ?a" by simp
  note c = CheckMember_quiet [OF assms(3)]
  have "at_db (CheckMember (cr_id cv) u) w = (Inr m, w)"
    using c same_db [OF assms(4)] by (simp add: at_db_def zoomE_def assms(4))
  moreover have "at_db (ListAfter (md_uuid D) (cr_id cv) ?a (page_limit limit)) w = (Inr ?items, w)"
    using same_db [OF assms(4)] by (simp add: at_db_def zoomE_def ListAfter_def assms(4))
  ultimately have r: "ListHistory D \<lparr>hq_actor = u, hq_conv = cr_id cv, hq_before = 0, hq_after = a, hq_limit = limit\<rparr> w
      = (Inr ?p, recordCursor D ?q ?p w)"
    using assms(6) by (cases "a < visible_after m") (simp_all add: ListHistory_def listAfter_def Let_def bindE_def)
  have s: "map m_seq ?items = take l [?a + 1..cr_last_seq cv]"
    unfolding map_seq_domain rows_after_seqs [OF assms(1,2) l(1)] using assms(5,6) by simp
  have d: "mw_db (recordCursor D ?q ?p w) = (d, [])"
    using assms(4) by (auto simp: recordCursor_def Let_def at_redis_def zoomE_def split: prod.split)
  show ?thesis
    
  proof (intro exI conjI)
    show "mp_next_after ?p = (if mp_items ?p = [] then 0 else last (map m_seq (mp_items ?p)))"
      by (simp add: nextAfter_def last_map del: map_map)
  qed (use r s d l(2) in simp_all)
qed

fun back_walk ::
  "nat \<Rightarrow> ('l, 's) msg_deps \<Rightarrow> int \<Rightarrow> int \<Rightarrow> int \<Rightarrow> int \<Rightarrow> ('l, 's) msg_world \<Rightarrow> message list" where
  "back_walk 0 D u c b limit w = []"
| "back_walk (Suc n) D u c b limit w =
     (case ListHistory D \<lparr>hq_actor = u, hq_conv = c, hq_before = b, hq_after = 0, hq_limit = limit\<rparr> w of
        (Inl e, w') \<Rightarrow> []
      | (Inr p, w') \<Rightarrow>
          mp_items p @ (if mp_has_more p then back_walk n D u c (mp_next_before p) limit w' else []))"

fun sync_walk ::
  "nat \<Rightarrow> ('l, 's) msg_deps \<Rightarrow> int \<Rightarrow> int \<Rightarrow> int \<Rightarrow> int \<Rightarrow> ('l, 's) msg_world \<Rightarrow> message list" where
  "sync_walk 0 D u c a limit w = []"
| "sync_walk (Suc n) D u c a limit w =
     (case ListHistory D \<lparr>hq_actor = u, hq_conv = c, hq_before = 0, hq_after = a, hq_limit = limit\<rparr> w of
        (Inl e, w') \<Rightarrow> []
      | (Inr p, w') \<Rightarrow>
          mp_items p @ (if mp_has_more p then sync_walk n D u c (mp_next_after p) limit w' else []))"

lemma back_walk_seqs:
  assumes "convs_inv d" and "cv \<in> set (d_convs d)" and "fst (CheckMember (cr_id cv) u (d, [])) = Inr m"
    and "mw_db w = (d, [])" and "hi = (if 0 < b then min (cr_last_seq cv) (b - 1) else cr_last_seq cv)"
    and "hi < int n" and "0 \<le> hi"
  shows "map m_seq (back_walk n D u (cr_id cv) b limit w) = rev [max 1 (visible_after m + 1)..hi]"
  using assms(4-7)
proof (induction n arbitrary: b hi w)
  case (Suc n)
  define l where "l = nat (page_limit limit)"
  have l: "0 < l" using page_limit_bounds(1) [of limit] by (simp add: l_def)
  let ?lo = "max 1 (visible_after m + 1)"
  obtain p w' where r: "ListHistory D \<lparr>hq_actor = u, hq_conv = cr_id cv, hq_before = b, hq_after = 0, hq_limit = limit\<rparr> w = (Inr p, w')"
    and w': "mw_db w' = (d, [])" and seqs: "map m_seq (mp_items p) = take l (rev [?lo..hi])"
    and nb: "mp_next_before p = (if mp_items p = [] then 0 else last (map m_seq (mp_items p)))"
    and more: "mp_has_more p = (length (mp_items p) = l)"
    using ListHistory_back [OF assms(1-3) Suc.prems(1) l_def, of D b] unfolding Suc.prems(2) by blast
  have len: "length (mp_items p) = min l (nat (hi - ?lo + 1))"
    using arg_cong [OF seqs, of length] by simp
  show ?case
  proof (cases "int l \<le> hi - ?lo + 1")
    case False
    then have "nat (hi - ?lo + 1) < l" using l by (simp add: nat_less_iff)
    then have "\<not> mp_has_more p \<and> map m_seq (mp_items p) = rev [?lo..hi]" using more len seqs by simp
    then show ?thesis using r by simp
  next
    case True
    then have m: "mp_has_more p" and ne: "mp_items p \<noteq> []" using more len l by auto
    from nb ne seqs have b': "mp_next_before p = hi - int l + 1"
      using take_rev_upto(2) [OF True l] by simp
    have "map m_seq (back_walk n D u (cr_id cv) (mp_next_before p) limit w') = rev [?lo..hi - int l]"
    proof (rule Suc.IH [OF w'])
      show "hi - int l = (if 0 < mp_next_before p then min (cr_last_seq cv) (mp_next_before p - 1) else cr_last_seq cv)"
        using True Suc.prems(2) l unfolding b' by (auto split: if_splits)
    qed (use True Suc.prems l in auto)
    then show ?thesis using r m seqs take_rev_upto(1) [OF True l] by simp
  qed
qed simp

lemma sync_walk_seqs:
  assumes "convs_inv d" and "cv \<in> set (d_convs d)" and "fst (CheckMember (cr_id cv) u (d, [])) = Inr m"
    and "mw_db w = (d, [])" and "0 < a" and "cr_last_seq cv < max a (visible_after m) + int n"
  shows "map m_seq (sync_walk n D u (cr_id cv) a limit w) = [max a (visible_after m) + 1..cr_last_seq cv]"
  using assms(4-6)
proof (induction n arbitrary: a w)
  case (Suc n)
  define l where "l = nat (page_limit limit)"
  have l: "0 < l" using page_limit_bounds(1) [of limit] by (simp add: l_def)
  let ?lo = "max a (visible_after m) + 1"
  let ?hi = "cr_last_seq cv"
  obtain p w' where r: "ListHistory D \<lparr>hq_actor = u, hq_conv = cr_id cv, hq_before = 0, hq_after = a, hq_limit = limit\<rparr> w = (Inr p, w')"
    and w': "mw_db w' = (d, [])" and seqs: "map m_seq (mp_items p) = take l [?lo..?hi]"
    and na: "mp_next_after p = (if mp_items p = [] then 0 else last (map m_seq (mp_items p)))"
    and more: "mp_has_more p = (length (mp_items p) = l)"
    using ListHistory_sync [OF assms(1-3) Suc.prems(1) l_def Suc.prems(2), of D] by blast
  have len: "length (mp_items p) = min l (nat (?hi - ?lo + 1))"
    using arg_cong [OF seqs, of length] by simp
  show ?case
  proof (cases "int l \<le> ?hi - ?lo + 1")
    case False
    then have "nat (?hi - ?lo + 1) < l" using l by (simp add: nat_less_iff)
    then have "\<not> mp_has_more p \<and> map m_seq (mp_items p) = [?lo..?hi]" using more len seqs by simp
    then show ?thesis using r by simp
  next
    case True
    then have m: "mp_has_more p" and ne: "mp_items p \<noteq> []" using more len l by auto
    from na ne seqs have a': "mp_next_after p = ?lo + int l - 1"
      using take_upto(2) [OF True l] by simp
    have v: "max (mp_next_after p) (visible_after m) = ?lo + int l - 1" using l unfolding a' by auto
    have "map m_seq (sync_walk n D u (cr_id cv) (mp_next_after p) limit w') = [?lo + int l..?hi]"
      using Suc.IH [OF w', of "mp_next_after p"] Suc.prems l unfolding v by (simp add: a' ac_simps)
    then show ?thesis using r m seqs take_upto(1) [OF True l] by simp
  qed
qed simp

section \<open>Properties\<close>

text \<open>
  C28: Scrolling back is complete: a member who starts without a cursor and follows \<open>next_before\<close>
  until \<open>has_more\<close> is false receives every message of the conversation that is visible to the
  member - beyond the sequence number at which the member joined or cleared the history - exactly
  once, newest first, for every page size, with at most one request more than there are messages.
\<close>

theorem history_walk_complete:
  assumes "store_inv d" and "cv \<in> set (d_convs d)" and "fst (CheckMember (cr_id cv) u (d, [])) = Inr m"
    and "mw_db w = (d, [])" and "cr_last_seq cv < int n"
  shows "map m_seq (back_walk n D u (cr_id cv) 0 limit w) = rev [max 1 (visible_after m + 1)..cr_last_seq cv]"
proof -
  have "convs_inv d" "0 \<le> cr_last_seq cv" using assms(1,2) by (auto simp: store_inv_def convs_inv_def)
  then show ?thesis using back_walk_seqs [of d cv u m w "cr_last_seq cv" 0 n D limit] assms(2-5) by simp
qed

text \<open>
  C29: Offline synchronisation is complete: a member whose last known sequence number is \<open>a\<close> and who
  follows \<open>next_after\<close> receives exactly the messages beyond \<open>a\<close> that are visible to the member, in
  order and without a gap; the sync cursor that every page records does not disturb the walk.
\<close>

theorem sync_walk_complete:
  assumes "store_inv d" and "cv \<in> set (d_convs d)" and "fst (CheckMember (cr_id cv) u (d, [])) = Inr m"
    and "mw_db w = (d, [])" and "0 < a" and "cr_last_seq cv < int n"
  shows "map m_seq (sync_walk n D u (cr_id cv) a limit w) = [max a (visible_after m) + 1..cr_last_seq cv]"
proof -
  have "convs_inv d" using assms(1) by (simp add: store_inv_def)
  then show ?thesis using sync_walk_seqs [of d cv u m w a n D limit] assms(2-6) by simp
qed

definition quiet_gateway :: "db \<Rightarrow> (unit, counting_breaker) msg_world" where
  "quiet_gateway d = (demo_gateway [])\<lparr>mw_db := (d, [])\<rparr>"

lemma demo_member:
  "\<exists>c \<in> set (d_convs demo_db6). \<exists>m. cr_id c = 5 \<and> cr_last_seq c = 2
     \<and> fst (CheckMember (cr_id c) 7 (demo_db6, [])) = Inr m \<and> visible_after m = 0"
proof -
  have "list_ex (\<lambda>c. cr_id c = 5 \<and> cr_last_seq c = 2) (d_convs demo_db6)
    \<and> (case fst (CheckMember 5 7 (demo_db6, [])) of Inr m \<Rightarrow> visible_after m = 0 | Inl e \<Rightarrow> False)" by code_simp
  then show ?thesis by (auto simp: list_ex_iff split: sum.splits)
qed

lemma history_walk_complete_witness:
  "map m_seq (back_walk 3 demo_deps 7 5 0 1 (quiet_gateway demo_db6)) = [2, 1]"
proof -
  obtain c m where c: "c \<in> set (d_convs demo_db6)" "cr_id c = 5" "cr_last_seq c = 2"
    "fst (CheckMember (cr_id c) 7 (demo_db6, [])) = Inr m" "visible_after m = 0" using demo_member by blast
  have "rev [max 1 (0 + 1)..2 :: int] = [2, 1]" by code_simp
  with history_walk_complete [OF store_reachable_inv [OF demo_reachable(1)] c(1,4), of "quiet_gateway demo_db6" 3 demo_deps 1] c
  show ?thesis by (simp add: quiet_gateway_def)
qed

lemma sync_walk_complete_witness:
  "map m_seq (sync_walk 3 demo_deps 7 5 1 50 (quiet_gateway demo_db6)) = [2]"
proof -
  obtain c m where c: "c \<in> set (d_convs demo_db6)" "cr_id c = 5" "cr_last_seq c = 2"
    "fst (CheckMember (cr_id c) 7 (demo_db6, [])) = Inr m" "visible_after m = 0" using demo_member by blast
  have "[max 1 0 + 1..2 :: int] = [2]" by code_simp
  with sync_walk_complete [OF store_reachable_inv [OF demo_reachable(1)] c(1,4), of "quiet_gateway demo_db6" 1 3 demo_deps 50] c
  show ?thesis by (simp add: quiet_gateway_def)
qed

end
