(* ===== verification/PersistWorker.thy ===== *)
theory PersistWorker
  imports ConversationService Kafka "HOL-Library.Sublist"
begin

text \<open>
  \<open>worker/persist/worker.go\<close>: the worker that turns the records of the inbox topic into stored
  messages. One goroutine fetches and routes by partition, one goroutine per partition handles its
  queue: decode, check, look for the message, draw an identifier, persist with retries, commit the
  offset; what cannot be stored goes to the dead letter topic.
\<close>

section \<open>The world of the worker\<close>

record ('g, 's) persist_world =
  pw_db :: mysql
  pw_ids :: 'g
  pw_kafka :: "'s kafka"
  pw_offsets :: offset_store

text \<open>
  The dependencies with \<open>Config\<close>: the UUID library, the port of the id generator, gobreaker, the
  topic prefix, the retry limit and the number of queues. Delays and the transaction timeout only
  decide which faults the calls meet.
\<close>

record ('g, 's) persist_deps =
  pd_uuid :: uuid_lib
  pd_draw :: "('g, int) svc"
  pd_cb :: "('s, broker) cb_execute"
  pd_prefix :: string
  pd_max_retries :: int
  pd_partitions :: int

text \<open>What one call of \<open>handle\<close> takes from outside: the clock of each attempt, the context in each backoff.\<close>

record call_env =
  ce_now :: "nat \<Rightarrow> int"
  ce_ctx :: "nat \<Rightarrow> gerr option"
  ce_dlq_now :: int
  ce_uuid :: string
  ce_stop :: "gerr option"

definition worker_New :: "('g, 's) persist_deps \<Rightarrow> ('g, 's) persist_deps" where
  "worker_New cfg = (if pd_partitions cfg \<le> 0 then cfg\<lparr>pd_partitions := 3\<rparr> else cfg)"

definition pw_at_db :: "(mysql \<Rightarrow> 'a \<times> mysql) \<Rightarrow> ('g, 's) persist_world \<Rightarrow> 'a \<times> ('g, 's) persist_world" where
  "pw_at_db = zoomE pw_db (\<lambda>p w. w\<lparr>pw_db := p\<rparr>)"

definition pw_at_ids :: "('g \<Rightarrow> 'a \<times> 'g) \<Rightarrow> ('g, 's) persist_world \<Rightarrow> 'a \<times> ('g, 's) persist_world" where
  "pw_at_ids = zoomE pw_ids (\<lambda>p w. w\<lparr>pw_ids := p\<rparr>)"

definition pw_at_kafka :: "('s kafka \<Rightarrow> 'a \<times> 's kafka) \<Rightarrow> ('g, 's) persist_world \<Rightarrow> 'a \<times> ('g, 's) persist_world" where
  "pw_at_kafka = zoomE pw_kafka (\<lambda>p w. w\<lparr>pw_kafka := p\<rparr>)"

definition pw_at_offsets ::
  "(offset_store \<Rightarrow> 'a \<times> offset_store) \<Rightarrow> ('g, 's) persist_world \<Rightarrow> 'a \<times> ('g, 's) persist_world" where
  "pw_at_offsets = zoomE pw_offsets (\<lambda>p w. w\<lparr>pw_offsets := p\<rparr>)"

section \<open>Classification and dead letters\<close>

definition isTransient :: "gerr option \<Rightarrow> bool" where
  "isTransient err =
     (case err of
        None \<Rightarrow> False
      | Some e \<Rightarrow>
          if errors_Is e ContextDeadlineExceeded \<or> errors_Is e ContextCanceled then True
          else
            (case As e of
               Some (Biz c m r a k) \<Rightarrow> c \<notin> {ConversationNotFound, InvalidArgument, ConversationForbidden}
             | _ \<Rightarrow> True))"

definition safeErrorMessage :: "gerr option \<Rightarrow> string" where
  "safeErrorMessage err = (case err of None \<Rightarrow> [] | Some e \<Rightarrow> Error e)"

text \<open>\<open>errs.As(err).Code\<close> and \<open>.Message\<close> of an error that is known to carry a business error.\<close>

definition as_code :: "gerr option \<Rightarrow> string" where
  "as_code err = (case err of None \<Rightarrow> code_string InternalError
     | Some e \<Rightarrow> (case As e of Some (Biz c m r a k) \<Rightarrow> code_string c | _ \<Rightarrow> code_string InternalError))"

definition as_message :: "gerr \<Rightarrow> string" where
  "as_message e = (case As e of Some (Biz c m r a k) \<Rightarrow> m | _ \<Rightarrow> [])"

text \<open>Commit the offset of one record; the answer of \<open>handle\<close> is (committed, error).\<close>

definition commit_one :: "kmessage \<Rightarrow> ('g, 's) persist_world \<Rightarrow> (bool \<times> gerr option) \<times> ('g, 's) persist_world" where
  "commit_one m w =
     (case pw_at_offsets (CommitMessages [m]) w of
        (Some e, w') \<Rightarrow> ((False, Some e), w')
      | (None, w') \<Rightarrow> ((True, None), w'))"

text \<open>The original event is the re-marshalled envelope: what the parse kept, not the bytes.\<close>

definition dlq_of :: "call_env \<Rightarrow> kmessage \<Rightarrow> envelope \<Rightarrow> string \<Rightarrow> string \<Rightarrow> int \<Rightarrow> dlq_payload" where
  "dlq_of E m env code errMsg retries =
     DLQPayload (km_topic m) (km_partition m) (km_offset m) retries code errMsg (ce_dlq_now E) (KEnv env)"

definition dlqAndCommit ::
  "('g, 's) persist_deps \<Rightarrow> call_env \<Rightarrow> kmessage \<Rightarrow> envelope \<Rightarrow> string \<Rightarrow> string \<Rightarrow> int
     \<Rightarrow> ('g, 's) persist_world \<Rightarrow> (bool \<times> gerr option) \<times> ('g, 's) persist_world" where
  "dlqAndCommit D E m env code errMsg retries w =
     (case NewEnvelope (ce_uuid E) (ce_dlq_now E) EventDLQ ''persist-worker''
             (parseConvID (conversation_id env)) (DDlq (dlq_of E m env code errMsg retries)) of
        Inl e \<Rightarrow> ((False, Some e), w)
      | Inr dlqEnv \<Rightarrow>
          (case pw_at_kafka (PublishDLQ (pd_cb D) (pd_prefix D) dlqEnv) w of
             (Some e, w1) \<Rightarrow> ((False, Some e), w1)
           | (None, w1) \<Rightarrow> commit_one m w1))"

section \<open>Handling one record\<close>

text \<open>The checks of the event: the code and the message of the dead letter, when one fails.\<close>

definition ingress_error :: "uuid_lib \<Rightarrow> ingress_event \<Rightarrow> (string \<times> string) option" where
  "ingress_error U e =
     (if ie_sender e \<le> 0 \<or> ie_client_id e = [] \<or> ie_conv e \<le> 0
      then Some (''INVALID_ARGUMENT'', ''ingress misses a required field'')
      else if uuid_parse U (ie_client_id e) = None
      then Some (''INVALID_ARGUMENT'', ''client_msg_id is no UUID'')
      else
        (case ValidateContent (ie_type e) (ie_content e) of
           Some err \<Rightarrow> Some (as_code (Some err), as_message err)
         | None \<Rightarrow> None))"

definition new_message :: "ingress_event \<Rightarrow> int \<Rightarrow> message" where
  "new_message e mid =
     \<lparr>m_id = mid, m_client_id = ie_client_id e, m_conv = ie_conv e, m_seq = 0, m_sender = ie_sender e,
      m_type = ie_type e, m_content = ie_content e, m_preview = Preview (ie_content e) (ie_type e),
      m_status = StatusNormal, m_recalled_by = None, m_recalled_at = None,
      m_client_sent = ie_client_sent e, m_created = zero_time\<rparr>"

datatype attempt_end = Persisted message | Cancelled gerr | GaveUp "gerr option"

text \<open>The retry loop: \<open>n\<close> attempts are left, \<open>k\<close> is the number of the next one, \<open>err\<close> the last error.\<close>

fun persist_attempts ::
  "('g, 's) persist_deps \<Rightarrow> call_env \<Rightarrow> message \<Rightarrow> int list \<Rightarrow> nat \<Rightarrow> nat \<Rightarrow> gerr option
     \<Rightarrow> ('g, 's) persist_world \<Rightarrow> attempt_end \<times> ('g, 's) persist_world" where
  "persist_attempts D E md members 0 k err w = (GaveUp err, w)"
| "persist_attempts D E md members (Suc n) k err w =
     (case (if 0 < k then ce_ctx E k else None) of
        Some c \<Rightarrow> (Cancelled c, w)
      | None \<Rightarrow>
          (case pw_at_db (Persist (pd_uuid D) (ce_now E k) md members) w of
             (Inr res, w') \<Rightarrow> (Persisted res, w')
           | (Inl e, w') \<Rightarrow>
               if \<not> isTransient (Some e) then (GaveUp (Some e), w')
               else persist_attempts D E md members n (Suc k) (Some e) w'))"

definition handle_valid ::
  "('g, 's) persist_deps \<Rightarrow> call_env \<Rightarrow> kmessage \<Rightarrow> envelope \<Rightarrow> ingress_event
     \<Rightarrow> ('g, 's) persist_world \<Rightarrow> (bool \<times> gerr option) \<times> ('g, 's) persist_world" where
  "handle_valid D E m env e w =
     (case pw_at_db (ListMemberIDs (ie_conv e)) w of
        (Inl err, w1) \<Rightarrow> ((False, Some err), w1)
      | (Inr members, w1) \<Rightarrow>
     (case pw_at_db (FindByClientMessageID (pd_uuid D) (ie_sender e) (ie_client_id e)) w1 of
        (Inl err, w2) \<Rightarrow> ((False, Some err), w2)
      | (Inr (Some existing), w2) \<Rightarrow> commit_one m w2
      | (Inr None, w2) \<Rightarrow>
     (case pw_at_ids (pd_draw D) w2 of
        (Inl err, w3) \<Rightarrow> ((False, Some err), w3)
      | (Inr mid, w3) \<Rightarrow>
     (case persist_attempts D E (new_message e mid) members (nat (pd_max_retries D + 1)) 0 None w3 of
        (Persisted res, w4) \<Rightarrow> commit_one m w4
      | (Cancelled c, w4) \<Rightarrow> ((False, Some c), w4)
      | (GaveUp err, w4) \<Rightarrow>
          dlqAndCommit D E m env (as_code err) (safeErrorMessage err) (pd_max_retries D) w4))))"

definition handle ::
  "('g, 's) persist_deps \<Rightarrow> call_env \<Rightarrow> kmessage
     \<Rightarrow> ('g, 's) persist_world \<Rightarrow> (bool \<times> gerr option) \<times> ('g, 's) persist_world" where
  "handle D E m w =
     (case decode_envelope (km_value m) of
        Inl env \<Rightarrow> dlqAndCommit D E m env ''SCHEMA_ERROR'' ''envelope does not parse'' 0 w
      | Inr env \<Rightarrow>
          if schema_version env \<noteq> SchemaVersion
          then dlqAndCommit D E m env ''SCHEMA_ERROR'' ''unsupported schema_version'' 0 w
          else
            (case as_ingress (event_data env) of
               None \<Rightarrow> dlqAndCommit D E m env ''SCHEMA_ERROR'' ''ingress payload does not parse'' 0 w
             | Some e \<Rightarrow>
                 (case ingress_error (pd_uuid D) e of
                    Some (code, msg) \<Rightarrow> dlqAndCommit D E m env code msg 0 w
                  | None \<Rightarrow> handle_valid D E m env e w)))"

section \<open>Queues\<close>

text \<open>
  \<open>handleWithRetry\<close> with \<open>n\<close> rounds at most (\<open>None\<close>: still retrying): \<open>Some (None, w)\<close> when the
  record is done, \<open>Some (Some err, w)\<close> when the context ended in a backoff.
\<close>

fun handleWithRetry ::
  "('g, 's) persist_deps \<Rightarrow> (nat \<Rightarrow> call_env) \<Rightarrow> kmessage \<Rightarrow> nat \<Rightarrow> nat
     \<Rightarrow> ('g, 's) persist_world \<Rightarrow> (gerr option \<times> ('g, 's) persist_world) option" where
  "handleWithRetry D Es m 0 k w = None"
| "handleWithRetry D Es m (Suc n) k w =
     (case handle D (Es k) m w of
        ((committed, None), w') \<Rightarrow> Some (None, w')
      | ((committed, Some e), w') \<Rightarrow>
          (case ce_stop (Es k) of
             Some c \<Rightarrow> Some (Some c, w')
           | None \<Rightarrow> handleWithRetry D Es m n (Suc k) w'))"

text \<open>The dispatcher: the queue of a record, and the queue of one worker goroutine.\<close>

definition route_index :: "('g, 's) persist_deps \<Rightarrow> kmessage \<Rightarrow> int" where
  "route_index D m = km_partition m mod pd_partitions D"

definition queue_of :: "('g, 's) persist_deps \<Rightarrow> int \<Rightarrow> kmessage list \<Rightarrow> kmessage list" where
  "queue_of D p msgs = filter (\<lambda>m. route_index D m = p) msgs"

text \<open>A worker goroutine on its queue; it stops early when the context ends.\<close>

fun run_queue ::
  "('g, 's) persist_deps \<Rightarrow> (kmessage \<Rightarrow> nat \<Rightarrow> call_env) \<Rightarrow> nat \<Rightarrow> kmessage list
     \<Rightarrow> ('g, 's) persist_world \<Rightarrow> ('g, 's) persist_world option" where
  "run_queue D Es n [] w = Some w"
| "run_queue D Es n (m # q) w =
     (case handleWithRetry D (Es m) m n 0 w of
        None \<Rightarrow> None
      | Some (Some e, w') \<Rightarrow> Some w'
      | Some (None, w') \<Rightarrow> run_queue D Es n q w')"

section \<open>What one record does to the tables\<close>

lemmas pw_defs = pw_at_db_def pw_at_ids_def pw_at_kafka_def pw_at_offsets_def zoomE_def

text \<open>The tables are as they were, or the message of the event was not stored and is now the last row.\<close>

definition stores :: "uuid_lib \<Rightarrow> ingress_event \<Rightarrow> db \<Rightarrow> db \<Rightarrow> bool" where
  "stores U e d d' \<longleftrightarrow> d' = d \<or>
     (\<exists>raw row. uuid_parse U (ie_client_id e) = Some raw \<and> msg_by_client (ie_sender e) raw d = None
        \<and> d_msgs d' = d_msgs d @ [row] \<and> mr_sender row = ie_sender e \<and> mr_client row = raw
        \<and> mr_conv row = ie_conv e \<and> mr_type row = ie_type e \<and> mr_content row = ie_content e)"

lemma stores_refl [simp]: "stores U e d d"
  by (simp add: stores_def)

lemma stores_trans: "stores U e d d1 \<Longrightarrow> stores U e d1 d2 \<Longrightarrow> stores U e d d2"
  by (auto simp: stores_def msg_by_client_def find_None_iff)

lemma new_message_simps [simp]:
  "m_client_id (new_message e mid) = ie_client_id e" "m_sender (new_message e mid) = ie_sender e"
  "m_conv (new_message e mid) = ie_conv e"
  by (simp_all add: new_message_def)

lemma Persist_stores:
  assumes "Persist U now (new_message e mid) members (d, fs) = (r, (d', fs'))"
  shows "stores U e d d'"
proof (cases "d' = d")
  case False
  with Persist_at_state [of U now d "new_message e mid" members d fs r d' fs'] assms
  obtain raw a where raw: "uuid_parse U (ie_client_id e) = Some raw"
    and p: "persist_tx U now d raw (new_message e mid) members d = (Inr a, d')"
    by (auto simp: Persist_def)
  from p show ?thesis
  proof (cases rule: persist_tx_cases)
    case (reused r)
    with False show ?thesis by simp
  next
    case (inserted c)
    then show ?thesis using raw by (auto simp: stores_def message_row_def new_message_def)
  qed
qed simp

lemma Persist_step: "Persist U now m members ms = (r, ms') \<Longrightarrow> store_step U (fst ms) (fst ms')"
  by (cases ms; cases ms') (auto simp: Persist_def intro: store_step.persist)

lemma persist_attempts_effect:
  assumes "persist_attempts D E (new_message e mid) members n k err w = (r, w')" and "store_inv (fst (pw_db w))"
  shows "stores (pd_uuid D) e (fst (pw_db w)) (fst (pw_db w')) \<and> store_inv (fst (pw_db w'))
    \<and> pw_kafka w' = pw_kafka w \<and> pw_offsets w' = pw_offsets w \<and> pw_ids w' = pw_ids w
    \<and> (\<forall>res. r = Persisted res \<longrightarrow>
         (\<exists>raw. uuid_parse (pd_uuid D) (ie_client_id e) = Some raw \<and> msg_by_client (ie_sender e) raw (fst (pw_db w')) \<noteq> None))"
  using assms
proof (induction n arbitrary: k err w)
  case 0
  then show ?case by auto
next
  case (Suc n)
  show ?case
  proof (cases "if 0 < k then ce_ctx E k else None")
    case (Some c)
    with Suc.prems show ?thesis by auto
  next
    case None
    obtain x ms where p: "Persist (pd_uuid D) (ce_now E k) (new_message e mid) members (pw_db w) = (x, ms)" by (rule prod.exhaust)
    let ?w1 = "w\<lparr>pw_db := ms\<rparr>"
    have at: "pw_at_db (Persist (pd_uuid D) (ce_now E k) (new_message e mid) members) w = (x, ?w1)"
      by (simp add: pw_defs p)
    have st: "stores (pd_uuid D) e (fst (pw_db w)) (fst ms)"
      using p by (cases "pw_db w"; cases ms) (auto intro: Persist_stores)
    have inv: "store_inv (fst ms)" using store_step_inv [OF Persist_step [OF p] Suc.prems(2)] .
    show ?thesis
    proof (cases x)
      case (Inr res)
      have "\<exists>raw. uuid_parse (pd_uuid D) (ie_client_id e) = Some raw \<and> msg_by_client (ie_sender e) raw (fst ms) \<noteq> None"
        using p Inr Persist_ok_cases [of "pd_uuid D" "ce_now E k" "new_message e mid" members "fst (pw_db w)" "snd (pw_db w)" res "fst ms" "snd ms"] Suc.prems(2)
        by auto
      moreover from Inr Suc.prems None at have "r = Persisted res" "w' = ?w1" by simp_all
      ultimately show ?thesis using st inv by simp
    next
      case (Inl er)
      show ?thesis
      proof (cases "isTransient (Some er)")
        case False
        with Inl Suc.prems None at have "r = GaveUp (Some er)" "w' = ?w1" by simp_all
        with st inv show ?thesis by simp
      next
        case True
        with Inl Suc.prems None at have "persist_attempts D E (new_message e mid) members n (Suc k) (Some er) ?w1 = (r, w')" by simp
        from Suc.IH [OF this] inv st show ?thesis by (auto intro: stores_trans)
      qed
    qed
  qed
qed

lemma commit_one_effect:
  "commit_one m w = (r, w') \<Longrightarrow> pw_db w' = pw_db w \<and> pw_kafka w' = pw_kafka w \<and> pw_ids w' = pw_ids w"
  by (auto simp: commit_one_def pw_defs split: prod.splits option.splits)

lemma dlqAndCommit_effect:
  assumes "dlqAndCommit D E m env code msg n w = (r, w')"
  shows "pw_db w' = pw_db w \<and> pw_ids w' = pw_ids w"
  using assms
  by (auto simp: dlqAndCommit_def pw_defs split: sum.splits prod.splits option.splits dest!: commit_one_effect)

lemma ListMemberIDs_state: "ListMemberIDs c ms = (r, ms') \<Longrightarrow> fst ms' = fst ms"
  by (auto simp: ListMemberIDs_def split: prod.splits dest!: db_query_cases)

lemma FindByClientMessageID_db:
  assumes "FindByClientMessageID U s cid ms = (r, ms')"
  shows "fst ms' = fst ms \<and> (\<forall>m. r = Inr (Some m) \<longrightarrow>
     (\<exists>raw. uuid_parse U cid = Some raw \<and> msg_by_client s raw (fst ms) \<noteq> None))"
  using assms
  by (auto simp: FindByClientMessageID_def split: option.splits prod.splits dest!: db_query_cases)

text \<open>The outcome of a record that is done: stored, or handed to the dead letter topic.\<close>

definition stored_in :: "uuid_lib \<Rightarrow> ingress_event \<Rightarrow> db \<Rightarrow> bool" where
  "stored_in U e d \<longleftrightarrow> (\<exists>raw. uuid_parse U (ie_client_id e) = Some raw \<and> msg_by_client (ie_sender e) raw d \<noteq> None)"

definition dead_lettered :: "('g, 's) persist_deps \<Rightarrow> call_env \<Rightarrow> kmessage \<Rightarrow> broker \<Rightarrow> broker \<Rightarrow> bool" where
  "dead_lettered D E m b b' \<longleftrightarrow> (\<exists>rec env code msg n. k_topic rec = DLQTopic (pd_prefix D)
     \<and> event_data (k_value rec) = DDlq (dlq_of E m env code msg n)
     \<and> b' = snd (produce rec b) \<and> \<not> IsTechnical (fst (produce rec b)))"

lemma dlqAndCommit_outcome:
  assumes "dlqAndCommit D E m env code msg n w = (r, w')" and "cb_contract (pd_cb D)"
    and "os_committed (pw_offsets w') \<noteq> os_committed (pw_offsets w) \<or> fst r"
  shows "dead_lettered D E m (snd (pw_kafka w)) (snd (pw_kafka w'))"
proof -
  obtain k0 b0 where k0: "pw_kafka w = (k0, b0)" by (rule prod.exhaust)
  obtain env' where ne: "NewEnvelope (ce_uuid E) (ce_dlq_now E) EventDLQ ''persist-worker''
             (parseConvID (conversation_id env)) (DDlq (dlq_of E m env code msg n)) = Inr env'"
    by (simp add: NewEnvelope_def)
  obtain x k1 b1 where p: "PublishDLQ (pd_cb D) (pd_prefix D) env' (k0, b0) = (x, (k1, b1))"
    by (metis prod.collapse)
  have at: "pw_at_kafka (PublishDLQ (pd_cb D) (pd_prefix D) env') w = (x, w\<lparr>pw_kafka := (k1, b1)\<rparr>)"
    by (simp add: pw_defs k0 p)
  have "x = None"
    using assms(1,3) by (cases x) (auto simp: dlqAndCommit_def ne at)
  then have c: "commit_one m (w\<lparr>pw_kafka := (k1, b1)\<rparr>) = (r, w')" using assms(1) by (simp add: dlqAndCommit_def ne at)
  let ?rec = "record_of (DLQTopic (pd_prefix D)) (-1) env'"
  from kafka_publish_None [OF assms(2)] p \<open>x = None\<close>
  have "b1 = snd (produce ?rec b0) \<and> \<not> IsTechnical (fst (produce ?rec b0))" by (simp add: PublishDLQ_def)
  moreover have "pw_kafka w' = (k1, b1)" using commit_one_effect [OF c] by simp
  moreover have "k_topic ?rec = DLQTopic (pd_prefix D)" "event_data (k_value ?rec) = DDlq (dlq_of E m env code msg n)"
    using NewEnvelope_ok [OF ne] by (simp_all add: record_of_def)
  ultimately show ?thesis unfolding dead_lettered_def k0
    by (intro exI [of _ ?rec] exI [of _ env] exI [of _ code] exI [of _ msg] exI [of _ n]) simp
qed

lemma handle_valid_cases:
  assumes "handle_valid D E m env e w = (r, w')"
    and l: "ListMemberIDs (ie_conv e) (pw_db w) = (x1, ms1)"
    and f: "FindByClientMessageID (pd_uuid D) (ie_sender e) (ie_client_id e) ms1 = (x2, ms2)"
    and i: "pd_draw D (pw_ids w) = (x3, g3)"
  obtains (list) er where "x1 = Inl er" "r = (False, Some er)" "w' = w\<lparr>pw_db := ms1\<rparr>"
    | (find) er where "x2 = Inl er" "r = (False, Some er)" "w' = w\<lparr>pw_db := ms2\<rparr>"
    | (found) y where "x2 = Inr (Some y)" "commit_one m (w\<lparr>pw_db := ms2\<rparr>) = (r, w')"
    | (ids) er where "x3 = Inl er" "r = (False, Some er)" "w' = w\<lparr>pw_db := ms2, pw_ids := g3\<rparr>"
    | (stored) mid members res w4 where
        "persist_attempts D E (new_message e mid) members (nat (pd_max_retries D + 1)) 0 None (w\<lparr>pw_db := ms2, pw_ids := g3\<rparr>)
           = (Persisted res, w4)" "commit_one m w4 = (r, w')"
    | (cancelled) mid members c where
        "persist_attempts D E (new_message e mid) members (nat (pd_max_retries D + 1)) 0 None (w\<lparr>pw_db := ms2, pw_ids := g3\<rparr>)
           = (Cancelled c, w')" "r = (False, Some c)"
    | (gave_up) mid members er w4 where
        "persist_attempts D E (new_message e mid) members (nat (pd_max_retries D + 1)) 0 None (w\<lparr>pw_db := ms2, pw_ids := g3\<rparr>)
           = (GaveUp er, w4)"
        "dlqAndCommit D E m env (as_code er) (safeErrorMessage er) (pd_max_retries D) w4 = (r, w')"
proof (cases x1)
  case (Inl er)
  with assms list show ?thesis by (simp add: handle_valid_def pw_defs)
next
  case (Inr members)
  note x1 = Inr
  show ?thesis
  proof (cases x2)
    case (Inl er)
    with assms x1 find show ?thesis by (simp add: handle_valid_def pw_defs)
  next
    case (Inr y)
    note x2 = Inr
    show ?thesis
    proof (cases y)
      case (Some z)
      with assms x1 x2 found show ?thesis by (simp add: handle_valid_def pw_defs)
    next
      case None
      note y = None
      show ?thesis
      proof (cases x3)
        case (Inl er)
        with assms x1 x2 y ids show ?thesis by (simp add: handle_valid_def pw_defs)
      next
        case (Inr mid)
        obtain x4 w4 where p: "persist_attempts D E (new_message e mid) members (nat (pd_max_retries D + 1)) 0 None
            (w\<lparr>pw_db := ms2, pw_ids := g3\<rparr>) = (x4, w4)" by (rule prod.exhaust)
        have h: "(case x4 of Persisted res \<Rightarrow> commit_one m w4 | Cancelled c \<Rightarrow> ((False, Some c), w4)
            | GaveUp er \<Rightarrow> dlqAndCommit D E m env (as_code er) (safeErrorMessage er) (pd_max_retries D) w4) = (r, w')"
          using assms x1 x2 y Inr p by (simp add: handle_valid_def pw_defs)
        show ?thesis
        proof (cases x4)
          case (Persisted res)
          with h p stored show ?thesis by simp
        next
          case (Cancelled c)
          with h p cancelled show ?thesis by auto
        next
          case (GaveUp er)
          with h p gave_up show ?thesis by simp
        qed
      qed
    qed
  qed
qed

lemma handle_valid_effect:
  assumes "handle_valid D E m env e w = (r, w')" and "store_inv (fst (pw_db w))"
  shows "stores (pd_uuid D) e (fst (pw_db w)) (fst (pw_db w')) \<and> store_inv (fst (pw_db w'))
    \<and> (cb_contract (pd_cb D) \<and> (os_committed (pw_offsets w') \<noteq> os_committed (pw_offsets w) \<or> fst r) \<longrightarrow>
         stored_in (pd_uuid D) e (fst (pw_db w')) \<or> dead_lettered D E m (snd (pw_kafka w)) (snd (pw_kafka w')))"
proof -
  obtain x1 ms1 where l: "ListMemberIDs (ie_conv e) (pw_db w) = (x1, ms1)" by (rule prod.exhaust)
  note d1 = ListMemberIDs_state [OF l]
  obtain x2 ms2 where f: "FindByClientMessageID (pd_uuid D) (ie_sender e) (ie_client_id e) ms1 = (x2, ms2)" by (rule prod.exhaust)
  note d2 = FindByClientMessageID_db [OF f]
  obtain x3 g3 where i: "pd_draw D (pw_ids w) = (x3, g3)" by (rule prod.exhaust)
  let ?w3 = "w\<lparr>pw_db := ms2, pw_ids := g3\<rparr>"
  have db: "fst (pw_db ?w3) = fst (pw_db w)" "store_inv (fst (pw_db ?w3))" using d1 d2 assms(2) by simp_all
  from assms(1) l f i show ?thesis
  proof (cases rule: handle_valid_cases)
    case (found y)
    with d1 d2 commit_one_effect [OF found(2)] assms(2) show ?thesis by (auto simp: stored_in_def)
  next
    case (stored mid members res w4)
    from persist_attempts_effect [OF stored(1) db(2)] commit_one_effect [OF stored(2)] db show ?thesis
      by (auto simp: stored_in_def)
  next
    case (cancelled mid members c)
    from persist_attempts_effect [OF cancelled(1) db(2)] cancelled(2) db show ?thesis by simp
  next
    case (gave_up mid members er w4)
    from persist_attempts_effect [OF gave_up(1) db(2)] dlqAndCommit_outcome [OF gave_up(2)]
      dlqAndCommit_effect [OF gave_up(2)] db show ?thesis by auto
  qed (use d1 d2 assms(2) in auto)
qed

text \<open>The valid event of a record, when it has one.\<close>

definition valid_event :: "uuid_lib \<Rightarrow> kmessage \<Rightarrow> ingress_event option" where
  "valid_event U m =
     (case decode_envelope (km_value m) of
        Inl env \<Rightarrow> None
      | Inr env \<Rightarrow>
          if schema_version env \<noteq> SchemaVersion then None
          else
            (case as_ingress (event_data env) of
               None \<Rightarrow> None
             | Some e \<Rightarrow> if ingress_error U e = None then Some e else None))"

lemma handle_cases:
  obtains (valid) env e where "valid_event (pd_uuid D) m = Some e" "handle D E m w = handle_valid D E m env e w"
    | (poison) env code msg where "valid_event (pd_uuid D) m = None"
        "handle D E m w = dlqAndCommit D E m env code msg 0 w"
proof (cases "decode_envelope (km_value m)")
  case (Inl env)
  then show ?thesis by (intro poison) (simp_all add: valid_event_def handle_def)
next
  case (Inr env)
  note dec = Inr
  show ?thesis
  proof (cases "schema_version env = SchemaVersion")
    case False
    with dec show ?thesis by (intro poison) (simp_all add: valid_event_def handle_def)
  next
    case True
    note ver = True
    show ?thesis
    proof (cases "as_ingress (event_data env)")
      case None
      with dec ver show ?thesis by (intro poison) (simp_all add: valid_event_def handle_def)
    next
      case (Some e)
      with dec ver show ?thesis
        by (cases "ingress_error (pd_uuid D) e") (auto simp: valid_event_def handle_def intro: poison valid)
    qed
  qed
qed

lemma handle_effect:
  assumes "handle D E m w = (r, w')" and "store_inv (fst (pw_db w))"
  shows "store_inv (fst (pw_db w'))
    \<and> (case valid_event (pd_uuid D) m of
         None \<Rightarrow> pw_db w' = pw_db w
       | Some e \<Rightarrow> stores (pd_uuid D) e (fst (pw_db w)) (fst (pw_db w')))
    \<and> (cb_contract (pd_cb D) \<and> (os_committed (pw_offsets w') \<noteq> os_committed (pw_offsets w) \<or> fst r) \<longrightarrow>
         (\<exists>e. valid_event (pd_uuid D) m = Some e \<and> stored_in (pd_uuid D) e (fst (pw_db w')))
         \<or> dead_lettered D E m (snd (pw_kafka w)) (snd (pw_kafka w')))"
proof (cases rule: handle_cases [of D m E w])
  case (valid env e)
  with handle_valid_effect [of D E m env e w r w'] assms show ?thesis by auto
next
  case (poison env code msg)
  then have d: "dlqAndCommit D E m env code msg 0 w = (r, w')" using assms(1) by simp
  from poison(1) dlqAndCommit_effect [OF d] dlqAndCommit_outcome [OF d] assms(2) show ?thesis by auto
qed

definition stores_of :: "uuid_lib \<Rightarrow> kmessage \<Rightarrow> db \<Rightarrow> db \<Rightarrow> bool" where
  "stores_of U m d d' \<longleftrightarrow> (case valid_event U m of None \<Rightarrow> d' = d | Some e \<Rightarrow> stores U e d d')"

lemma handleWithRetry_stores:
  "handleWithRetry D Es m n k w = Some (r, w') \<Longrightarrow> store_inv (fst (pw_db w)) \<Longrightarrow>
     store_inv (fst (pw_db w')) \<and> stores_of (pd_uuid D) m (fst (pw_db w)) (fst (pw_db w'))"
proof (induction n arbitrary: k w)
  case (Suc n)
  obtain x w1 where h: "handle D (Es k) m w = (x, w1)" by (rule prod.exhaust)
  have e: "store_inv (fst (pw_db w1)) \<and> stores_of (pd_uuid D) m (fst (pw_db w)) (fst (pw_db w1))"
    using handle_effect [OF h Suc.prems(2)] by (auto simp: stores_of_def split: option.splits)
  consider "w' = w1" | "handleWithRetry D Es m n (Suc k) w1 = Some (r, w')"
    using Suc.prems(1) h by (cases x) (auto split: option.splits)
  then show ?case
  proof cases
    case 2
    with Suc.IH [OF 2] e show ?thesis by (auto simp: stores_of_def split: option.splits intro: stores_trans)
  qed (use e in simp)
qed simp

text \<open>What is compared along a queue: sender, client id, conversation, type and body.\<close>

definition row_ident :: "msg_row \<Rightarrow> int \<times> nat list option \<times> int \<times> int \<times> raw" where
  "row_ident r = (mr_sender r, Some (mr_client r), mr_conv r, mr_type r, mr_content r)"

definition event_ident :: "uuid_lib \<Rightarrow> ingress_event \<Rightarrow> int \<times> nat list option \<times> int \<times> int \<times> raw" where
  "event_ident U e = (ie_sender e, uuid_parse U (ie_client_id e), ie_conv e, ie_type e, ie_content e)"

definition idents_of :: "uuid_lib \<Rightarrow> kmessage list \<Rightarrow> (int \<times> nat list option \<times> int \<times> int \<times> raw) list" where
  "idents_of U q = map (event_ident U) (List.map_filter (valid_event U) q)"

lemma idents_of_Cons:
  "idents_of U (m # q) = (case valid_event U m of None \<Rightarrow> [] | Some e \<Rightarrow> [event_ident U e]) @ idents_of U q"
  by (simp add: idents_of_def map_filter_def split: option.split)

lemma stores_of_rows:
  assumes "stores_of U m d d'"
  shows "\<exists>rows. d_msgs d' = d_msgs d @ rows \<and> subseq (map row_ident rows) (idents_of U [m])"
proof (cases "d' = d")
  case True
  then show ?thesis by simp
next
  case False
  with assms obtain e raw row where "valid_event U m = Some e" "uuid_parse U (ie_client_id e) = Some raw"
    "d_msgs d' = d_msgs d @ [row]" "mr_sender row = ie_sender e" "mr_client row = raw" "mr_conv row = ie_conv e"
    "mr_type row = ie_type e" "mr_content row = ie_content e"
    by (auto simp: stores_of_def stores_def split: option.splits)
  then show ?thesis
    by (intro exI [of _ "[row]"]) (simp add: idents_of_Cons row_ident_def event_ident_def idents_of_def map_filter_def)
qed

lemma run_queue_rows:
  "run_queue D Es n q w = Some w' \<Longrightarrow> store_inv (fst (pw_db w)) \<Longrightarrow>
     store_inv (fst (pw_db w')) \<and>
     (\<exists>rows. d_msgs (fst (pw_db w')) = d_msgs (fst (pw_db w)) @ rows \<and> subseq (map row_ident rows) (idents_of (pd_uuid D) q))"
proof (induction q arbitrary: w)
  case Nil
  then show ?case by auto
next
  case (Cons m q)
  obtain r w1 where h: "handleWithRetry D (Es m) m n 0 w = Some (r, w1)"
    and rest: "if r = None then run_queue D Es n q w1 = Some w' else w' = w1"
    using Cons.prems(1) by (auto split: option.splits)
  from handleWithRetry_stores [OF h Cons.prems(2)] have inv: "store_inv (fst (pw_db w1))"
    and st: "stores_of (pd_uuid D) m (fst (pw_db w)) (fst (pw_db w1))" by simp_all
  obtain rows where rows: "d_msgs (fst (pw_db w1)) = d_msgs (fst (pw_db w)) @ rows"
    "subseq (map row_ident rows) (idents_of (pd_uuid D) [m])" using stores_of_rows [OF st] by blast
  have split: "idents_of (pd_uuid D) (m # q) = idents_of (pd_uuid D) [m] @ idents_of (pd_uuid D) q"
    by (simp add: idents_of_Cons idents_of_def map_filter_def)
  show ?case
  proof (cases "r = None")
    case True
    with rest Cons.IH [OF _ inv] obtain rows2 where "store_inv (fst (pw_db w'))"
      "d_msgs (fst (pw_db w')) = d_msgs (fst (pw_db w1)) @ rows2"
      "subseq (map row_ident rows2) (idents_of (pd_uuid D) q)" by auto
    then show ?thesis using rows by (auto simp: split list_emb_append_mono intro!: exI [of _ "rows @ rows2"])
  next
    case False
    then show ?thesis using rest rows inv
      by (auto simp: split intro!: exI [of _ rows] list_emb_prefix)
  qed
qed

section \<open>Progress\<close>

definition faults_left :: "('g, 's) persist_world \<Rightarrow> nat" where
  "faults_left w = length (snd (pw_db w)) + length (bk_faults (snd (pw_kafka w))) + length (os_faults (pw_offsets w))"

lemma pop_fault_length: "pop_fault fs = (f, fs') \<Longrightarrow> length fs' \<le> length fs \<and> (f \<noteq> Reply \<longrightarrow> length fs' < length fs)"
  by (cases fs) auto

lemma db_query_faults:
  "db_query q ms = (r, ms') \<Longrightarrow> length (snd ms') \<le> length (snd ms) \<and> ((\<exists>e. r = Inl e) \<longrightarrow> length (snd ms') < length (snd ms))"
  by (auto simp: db_query_def split: prod.splits option.splits dest!: pop_fault_length)

lemma db_tx_faults: "db_tx body ms = (r, ms') \<Longrightarrow> length (snd ms') \<le> length (snd ms)"
  by (auto simp: db_tx_def split: prod.splits sum.splits fault.splits dest!: pop_fault_length)

lemma Inl_iffs:
  "map_sum id f x = Inl e \<longleftrightarrow> x = Inl e"
  "wrap_internal r = Inl e \<longleftrightarrow> (\<exists>e'. r = Inl e' \<and> e = Internal (Some e'))"
  by (cases x; simp) (cases r; auto)

lemma FindByClientMessageID_faults:
  "FindByClientMessageID U s cid ms = (r, ms') \<Longrightarrow> length (snd ms') \<le> length (snd ms)
     \<and> ((\<exists>e. r = Inl e) \<and> uuid_parse U cid \<noteq> None \<longrightarrow> length (snd ms') < length (snd ms))"
  by (auto simp: FindByClientMessageID_def Inl_iffs split: option.splits prod.splits dest!: db_query_faults)

lemma ListMemberIDs_faults:
  "ListMemberIDs c ms = (r, ms') \<Longrightarrow> length (snd ms') \<le> length (snd ms)
     \<and> ((\<exists>e. r = Inl e) \<longrightarrow> length (snd ms') < length (snd ms))"
  by (auto simp: ListMemberIDs_def Inl_iffs split: prod.splits dest!: db_query_faults)

lemma Persist_faults: "Persist U now m members ms = (r, ms') \<Longrightarrow> length (snd ms') \<le> length (snd ms)"
  by (auto simp: Persist_def Persist_at_def split: option.splits prod.splits sum.splits if_splits
      dest!: db_tx_faults FindByClientMessageID_faults)

lemma persist_attempts_faults:
  assumes "\<And>k. ce_ctx E k = None"
  shows "persist_attempts D E md members n k err w = (r, w') \<Longrightarrow>
     pw_kafka w' = pw_kafka w \<and> pw_offsets w' = pw_offsets w \<and> length (snd (pw_db w')) \<le> length (snd (pw_db w))
     \<and> (\<forall>c. r \<noteq> Cancelled c)"
proof (induction n arbitrary: k err w)
  case (Suc n)
  obtain x ms where p: "Persist (pd_uuid D) (ce_now E k) md members (pw_db w) = (x, ms)" by (rule prod.exhaust)
  have at: "pw_at_db (Persist (pd_uuid D) (ce_now E k) md members) w = (x, w\<lparr>pw_db := ms\<rparr>)" by (simp add: pw_defs p)
  note f = Persist_faults [OF p]
  have none: "(if 0 < k then ce_ctx E k else None) = None" by (simp add: assms)
  show ?case
  proof (cases x)
    case (Inr res)
    with Suc.prems at f none show ?thesis by auto
  next
    case (Inl e)
    with Suc.prems at none have "(r = GaveUp (Some e) \<and> w' = w\<lparr>pw_db := ms\<rparr>)
        \<or> persist_attempts D E md members n (Suc k) (Some e) (w\<lparr>pw_db := ms\<rparr>) = (r, w')"
      by (cases "isTransient (Some e)") simp_all
    then show ?thesis
    proof
      assume "persist_attempts D E md members n (Suc k) (Some e) (w\<lparr>pw_db := ms\<rparr>) = (r, w')"
      from Suc.IH [OF this] f show ?thesis by auto
    qed (use f in auto)
  qed
qed auto

lemma commit_one_faults:
  assumes "commit_one m w = (r, w')"
  shows "faults_left w' \<le> faults_left w \<and> (snd r \<noteq> None \<longrightarrow> faults_left w' < faults_left w)"
  using assms
  by (auto simp: commit_one_def pw_defs CommitMessages_def faults_left_def split: prod.splits option.splits
      dest!: pop_fault_length)

lemma dlqAndCommit_faults:
  assumes "dlqAndCommit D E m env code msg n w = (r, w')" and "fst (pw_kafka w) = Map.empty"
  shows "faults_left w' \<le> faults_left w \<and> (snd r \<noteq> None \<longrightarrow> faults_left w' < faults_left w) \<and> fst (pw_kafka w') = Map.empty"
proof -
  obtain b0 where k0: "pw_kafka w = (Map.empty, b0)" using assms(2) by (cases "pw_kafka w") simp
  obtain env' where ne: "NewEnvelope (ce_uuid E) (ce_dlq_now E) EventDLQ ''persist-worker''
             (parseConvID (conversation_id env)) (DDlq (dlq_of E m env code msg n)) = Inr env'"
    by (simp add: NewEnvelope_def)
  obtain x b1 where p: "produce (record_of (DLQTopic (pd_prefix D)) (-1) env') b0 = (x, b1)" by (rule prod.exhaust)
  have at: "pw_at_kafka (PublishDLQ (pd_cb D) (pd_prefix D) env') w
      = (map_option (\<lambda>e. Wrap KafkaUnavailable ''kafka publish failed'' (Some e)) x, w\<lparr>pw_kafka := (Map.empty, b1)\<rparr>)"
    by (simp add: pw_defs k0 PublishDLQ_def kafka_publish_def ExecuteByName_def p split: option.split)
  have b: "length (bk_faults b1) \<le> length (bk_faults b0) \<and> (x \<noteq> None \<longrightarrow> length (bk_faults b1) < length (bk_faults b0))"
    using p by (auto simp: produce_def split: prod.splits dest!: pop_fault_length)
  show ?thesis
  proof (cases x)
    case None
    then have c: "commit_one m (w\<lparr>pw_kafka := (Map.empty, b1)\<rparr>) = (r, w')" using assms(1) by (simp add: dlqAndCommit_def ne at)
    from commit_one_faults [OF c] commit_one_effect [OF c] b show ?thesis by (auto simp: faults_left_def k0)
  next
    case (Some e)
    then have "w' = w\<lparr>pw_kafka := (Map.empty, b1)\<rparr>" using assms(1) by (simp add: dlqAndCommit_def ne at)
    with b Some show ?thesis by (auto simp: faults_left_def k0)
  qed
qed

lemma handle_faults:
  assumes h: "handle D E m w = (r, w')" and k: "fst (pw_kafka w) = Map.empty"
    and ids: "\<And>g. \<exists>i g'. pd_draw D g = (Inr i, g')" and ctx: "\<And>k. ce_ctx E k = None"
  shows "faults_left w' \<le> faults_left w \<and> (snd r \<noteq> None \<longrightarrow> faults_left w' < faults_left w) \<and> fst (pw_kafka w') = Map.empty"
proof (cases rule: handle_cases [of D m E w])
  case (poison env code msg)
  with dlqAndCommit_faults [OF _ k] h show ?thesis by simp
next
  case (valid env e)
  then have v: "handle_valid D E m env e w = (r, w')" using h by simp
  have u: "uuid_parse (pd_uuid D) (ie_client_id e) \<noteq> None"
    using valid(1) by (auto simp: valid_event_def ingress_error_def split: sum.splits if_splits option.splits)
  obtain x1 ms1 where l: "ListMemberIDs (ie_conv e) (pw_db w) = (x1, ms1)" by (rule prod.exhaust)
  note d1 = ListMemberIDs_faults [OF l]
  obtain x2 ms2 where f: "FindByClientMessageID (pd_uuid D) (ie_sender e) (ie_client_id e) ms1 = (x2, ms2)" by (rule prod.exhaust)
  note d2 = FindByClientMessageID_faults [OF f]
  obtain mid g3 where i: "pd_draw D (pw_ids w) = (Inr mid, g3)" using ids by blast
  let ?w3 = "w\<lparr>pw_db := ms2, pw_ids := g3\<rparr>"
  have attempts: "faults_left w4 \<le> faults_left w \<and> fst (pw_kafka w4) = Map.empty \<and> (\<forall>c. x4 \<noteq> Cancelled c)"
    if "persist_attempts D E md members n 0 None ?w3 = (x4, w4)" for md members n x4 w4
    using persist_attempts_faults [OF ctx that] d1 d2 k by (auto simp: faults_left_def)
  from v l f i show ?thesis
  proof (cases rule: handle_valid_cases)
    case (list er)
    with d1 k show ?thesis by (auto simp: faults_left_def)
  next
    case (find er)
    with d1 d2 u k show ?thesis by (auto simp: faults_left_def)
  next
    case (found y)
    with commit_one_faults [OF found(2)] commit_one_effect [OF found(2)] d1 d2 k show ?thesis
      by (auto simp: faults_left_def)
  next
    case (stored mid members res w4)
    from attempts [OF stored(1)] commit_one_faults [OF stored(2)] commit_one_effect [OF stored(2)] show ?thesis by auto
  next
    case (cancelled mid members c)
    from attempts [OF cancelled(1)] show ?thesis by simp
  next
    case (gave_up mid members er w4)
    from attempts [OF gave_up(1)] dlqAndCommit_faults [OF gave_up(2)] show ?thesis by auto
  qed simp
qed

section \<open>Properties\<close>

text \<open>
  C10: No message is lost and none is stored twice. The offset of a record is committed only after
  its message is in the tables, or after a dead letter with the record's topic, partition and
  offset was handed to the client library without a technical error - whatever calls fail or lose
  their answers. A record changes nothing but its own message, which is appended at most once:
  when a message with the sender and client id is stored already, the tables stay as they are.
\<close>

theorem commit_after_outcome:
  assumes "cb_contract (pd_cb D)" and "store_inv (fst (pw_db w))" and "handle D E m w = (r, w')"
  shows "(os_committed (pw_offsets w') \<noteq> os_committed (pw_offsets w) \<or> fst r \<longrightarrow>
      (\<exists>e. valid_event (pd_uuid D) m = Some e \<and> stored_in (pd_uuid D) e (fst (pw_db w')))
      \<or> dead_lettered D E m (snd (pw_kafka w)) (snd (pw_kafka w')))
    \<and> stores_of (pd_uuid D) m (fst (pw_db w)) (fst (pw_db w'))
    \<and> (\<forall>e. valid_event (pd_uuid D) m = Some e \<and> stored_in (pd_uuid D) e (fst (pw_db w)) \<longrightarrow>
         fst (pw_db w') = fst (pw_db w))"
proof (intro conjI)
  note h = handle_effect [OF assms(3,2)]
  show s: "stores_of (pd_uuid D) m (fst (pw_db w)) (fst (pw_db w'))"
    using h by (auto simp: stores_of_def split: option.splits)
  show "\<forall>e. valid_event (pd_uuid D) m = Some e \<and> stored_in (pd_uuid D) e (fst (pw_db w)) \<longrightarrow>
         fst (pw_db w') = fst (pw_db w)"
    using s by (auto simp: stores_of_def stores_def stored_in_def)
  show "os_committed (pw_offsets w') \<noteq> os_committed (pw_offsets w) \<or> fst r \<longrightarrow>
      (\<exists>e. valid_event (pd_uuid D) m = Some e \<and> stored_in (pd_uuid D) e (fst (pw_db w')))
      \<or> dead_lettered D E m (snd (pw_kafka w)) (snd (pw_kafka w'))"
    using h assms(1) by blast
qed

text \<open>
  C11: Send order is sequence order. All records of one partition reach the same queue in the order
  of the partition; and a worker goroutine that runs a queue - with any failures, retries and
  redeliveries - appends the messages of a subsequence of it, in its order, so that within every
  conversation the sequence numbers increase along the queue.
\<close>

theorem partition_order_is_sequence_order:
  assumes "store_inv (fst (pw_db w))" and "run_queue D Es n (queue_of D p msgs) w = Some w'"
  shows "(\<forall>part. part mod pd_partitions D = p \<longrightarrow>
        filter (\<lambda>m. km_partition m = part) (queue_of D p msgs) = filter (\<lambda>m. km_partition m = part) msgs)
    \<and> (\<exists>rows. d_msgs (fst (pw_db w')) = d_msgs (fst (pw_db w)) @ rows
        \<and> subseq (map row_ident rows) (idents_of (pd_uuid D) (queue_of D p msgs)))
    \<and> (\<forall>c. sorted_wrt (<) (map mr_seq (messages_of c (fst (pw_db w')))))"
proof (intro conjI allI impI)
  fix part assume "part mod pd_partitions D = p"
  then show "filter (\<lambda>m. km_partition m = part) (queue_of D p msgs) = filter (\<lambda>m. km_partition m = part) msgs"
    by (auto simp: queue_of_def route_index_def intro: filter_cong)
next
  show "\<exists>rows. d_msgs (fst (pw_db w')) = d_msgs (fst (pw_db w)) @ rows
        \<and> subseq (map row_ident rows) (idents_of (pd_uuid D) (queue_of D p msgs))"
    using run_queue_rows [OF assms(2,1)] by blast
next
  fix c
  have inv: "convs_inv (fst (pw_db w'))" using run_queue_rows [OF assms(2,1)] by (simp add: store_inv_def)
  show "sorted_wrt (<) (map mr_seq (messages_of c (fst (pw_db w'))))"
  proof (cases "c \<in> cr_id ` set (d_convs (fst (pw_db w')))")
    case True
    with inv show ?thesis by (auto simp: convs_inv_def)
  next
    case False
    with inv have "messages_of c (fst (pw_db w')) = []" by (auto simp: convs_inv_def messages_of_def filter_empty_conv)
    then show ?thesis by simp
  qed
qed

text \<open>
  C12: No record blocks its partition forever. Without breakers, with an id generator that answers
  and a context that lives on, \<open>handleWithRetry\<close> is done with any record - valid, undecodable or
  for a conversation that does not exist - after at most one round more than there are failures of
  the database, of the broker and of the offset commits to come.
\<close>

theorem record_is_finished:
  assumes "fst (pw_kafka w) = Map.empty" and "\<And>g. \<exists>i g'. pd_draw D g = (Inr i, g')"
    and "\<And>j i. ce_ctx (Es j) i = None" and "\<And>j. ce_stop (Es j) = None" and "faults_left w < n"
  shows "\<exists>w'. handleWithRetry D Es m n k w = Some (None, w')"
  using assms(1,5)
proof (induction n arbitrary: k w)
  case (Suc n)
  obtain c er w1 where h: "handle D (Es k) m w = ((c, er), w1)" by (metis prod.collapse)
  note f = handle_faults [OF h Suc.prems(1) assms(2) assms(3)]
  show ?case
  proof (cases er)
    case None
    then show ?thesis using h by simp
  next
    case (Some e)
    with f Suc.prems(2) have "faults_left w1 < n" "fst (pw_kafka w1) = Map.empty" by auto
    from Suc.IH [OF this(2,1)] show ?thesis using h Some assms(4) by simp
  qed
qed simp

text \<open>A worker on the tables of the examples, with a broker that has no breakers.\<close>

definition demo_worker :: "(int, unit) persist_deps" where
  "demo_worker = worker_New \<lparr>pd_uuid = demo_uuid, pd_draw = count_ids, pd_cb = (\<lambda>f (s, b). case f b of (r, b') \<Rightarrow> (r, (s, b'))),
     pd_prefix = [], pd_max_retries = 2, pd_partitions = 0\<rparr>"

definition demo_env :: "(nat \<Rightarrow> gerr option) \<Rightarrow> call_env" where
  "demo_env ctx = \<lparr>ce_now = (\<lambda>k. 2000), ce_ctx = ctx, ce_dlq_now = 3000, ce_uuid = ''u'', ce_stop = None\<rparr>"

definition demo_world :: "db \<Rightarrow> gerr fault list \<Rightarrow> gerr fault list \<Rightarrow> (int, unit) persist_world" where
  "demo_world d dbf osf = \<lparr>pw_db = (d, dbf), pw_ids = 100, pw_kafka = (Map.empty, \<lparr>bk_log = [], bk_faults = []\<rparr>),
     pw_offsets = \<lparr>os_committed = Map.empty, os_faults = osf\<rparr>\<rparr>"

definition inbox_message :: "int \<Rightarrow> string \<Rightarrow> kmessage" where
  "inbox_message off cid = \<lparr>km_topic = ''im.message.inbox'', km_partition = 1, km_offset = off, km_key = ''5'',
     km_value = KEnv (Envelope 1 ''evt_u'' EventInbox 1000 ''ws-gateway'' ''5''
       (DIngress \<lparr>ie_sender = 7, ie_client_id = cid, ie_conv = 5, ie_type = 1, ie_content = demo_content,
                  ie_client_sent = None\<rparr>))\<rparr>"

lemma demo_db1_inv: "store_inv demo_db1"
proof -
  have "store_reachable demo_uuid demo_db1"
    unfolding demo_db1_def
    by (rule store_reachable.step [OF store_reachable.start store_step.create]) (rule state_of_call)
  then show ?thesis by (rule store_reachable_inv)
qed

lemma demo_worker_contract: "cb_contract (pd_cb demo_worker)"
  by (auto simp: cb_contract_def demo_worker_def worker_New_def split: prod.splits)

lemma commit_after_outcome_witness:
  "\<exists>w' e. handle demo_worker (demo_env (\<lambda>k. None)) (inbox_message 8 ''a'') (demo_world demo_db1 [] []) = ((True, None), w')
     \<and> stored_in demo_uuid e (fst (pw_db w')) \<and> ie_client_id e = ''a''"
proof -
  let ?h = "handle demo_worker (demo_env (\<lambda>k. None)) (inbox_message 8 ''a'') (demo_world demo_db1 [] [])"
  have r: "fst ?h = (True, None) \<and> bk_log (snd (pw_kafka (snd ?h))) = []" by code_simp
  then have h: "?h = ((True, None), snd ?h)" by (simp add: prod_eq_iff)
  have v: "map_option ie_client_id (valid_event (pd_uuid demo_worker) (inbox_message 8 ''a'')) = Some ''a''" by code_simp
  have nodlq: "\<not> dead_lettered demo_worker E m (snd (pw_kafka (demo_world demo_db1 [] []))) (snd (pw_kafka (snd ?h)))" for E m
    using r by (auto simp: dead_lettered_def produce_def demo_world_def)
  have inv: "store_inv (fst (pw_db (demo_world demo_db1 [] [])))" by (simp add: demo_world_def demo_db1_inv)
  have U: "pd_uuid demo_worker = demo_uuid" by (simp add: demo_worker_def worker_New_def)
  from commit_after_outcome [OF demo_worker_contract inv h] nodlq
  obtain e where "valid_event (pd_uuid demo_worker) (inbox_message 8 ''a'') = Some e" "stored_in demo_uuid e (fst (pw_db (snd ?h)))"
    by (auto simp: U)
  with v h show ?thesis by (intro exI [of _ "snd ?h"] exI [of _ e]) simp
qed

definition demo_queue :: "kmessage list" where
  "demo_queue = [inbox_message 8 ''a'', inbox_message 9 [], inbox_message 10 ''b'', inbox_message 11 ''a'']"

lemma demo_run:
  "map_option (\<lambda>w. map mr_client (d_msgs (fst (pw_db w))))
     (run_queue demo_worker (\<lambda>m j. demo_env (\<lambda>k. None)) 3 (queue_of demo_worker 1 demo_queue)
        (demo_world demo_db1 [Reply, Reply, AckLost (MySQLError 2013)] [Lost (OtherError ''io'')]))
   = Some [[97], [98]]"
  by code_simp

lemma partition_order_is_sequence_order_witness:
  "\<exists>w' rows. run_queue demo_worker (\<lambda>m j. demo_env (\<lambda>k. None)) 3 (queue_of demo_worker 1 demo_queue)
        (demo_world demo_db1 [Reply, Reply, AckLost (MySQLError 2013)] [Lost (OtherError ''io'')]) = Some w'
     \<and> d_msgs (fst (pw_db w')) = d_msgs demo_db1 @ rows
     \<and> subseq (map row_ident rows) (idents_of demo_uuid demo_queue) \<and> length rows = 2"
proof -
  let ?w = "demo_world demo_db1 [Reply, Reply, AckLost (MySQLError 2013)] [Lost (OtherError ''io'')]"
  obtain w' where r: "run_queue demo_worker (\<lambda>m j. demo_env (\<lambda>k. None)) 3 (queue_of demo_worker 1 demo_queue) ?w = Some w'"
    and l: "map mr_client (d_msgs (fst (pw_db w'))) = [[97], [98]]"
    using demo_run by auto
  have q: "queue_of demo_worker 1 demo_queue = demo_queue" by code_simp
  have inv: "store_inv (fst (pw_db ?w))" "d_msgs (fst (pw_db ?w)) = d_msgs demo_db1"
    by (simp_all add: demo_world_def demo_db1_inv)
  have U: "pd_uuid demo_worker = demo_uuid" by (simp add: demo_worker_def worker_New_def)
  have e: "d_msgs demo_db1 = []" by code_simp
  obtain rows where rows: "d_msgs (fst (pw_db w')) = d_msgs demo_db1 @ rows"
     "subseq (map row_ident rows) (idents_of demo_uuid demo_queue)"
    using partition_order_is_sequence_order [OF inv(1) r] unfolding q U inv(2) by blast
  have "length rows = 2" using arg_cong [OF l, of length] rows(1) e by simp
  with r rows show ?thesis by blast
qed

lemma record_is_finished_witness:
  "\<exists>w'. handleWithRetry demo_worker (\<lambda>j. demo_env (\<lambda>k. None)) (inbox_message 8 ''a'') 4 0
     (demo_world empty_db [Lost (MySQLError 2013), Reply, Reply] []) = Some (None, w')"
proof (rule record_is_finished)
  fix g :: int
  show "\<exists>i g'. pd_draw demo_worker g = (Inr i, g')" by (simp add: demo_worker_def worker_New_def count_ids_def)
qed (simp_all add: demo_world_def demo_env_def faults_left_def)

text \<open>
  A message for a conversation that does not exist is a permanent failure, and the worker means
  to send it to the dead letters at once. But \<open>Persist\<close> hides the code \<open>CONVERSATION_NOT_FOUND\<close>
  behind \<open>INTERNAL_ERROR\<close>, so it is retried as if it were transient - a context that ends in the
  first backoff stops the worker there - and is dead-lettered as an internal error in the end.
\<close>

theorem missing_conversation_is_retried:
  "let w = demo_world empty_db [] [];
       (r1, w1) = handle demo_worker (demo_env (\<lambda>k. if k = 1 then Some (Sentinel ContextCanceled) else None)) (inbox_message 8 ''a'') w;
       (r2, w2) = handle demo_worker (demo_env (\<lambda>k. None)) (inbox_message 8 ''a'') w
   in \<not> isTransient (Some conv_not_found)
      \<and> r1 = (False, Some (Sentinel ContextCanceled)) \<and> bk_log (snd (pw_kafka w1)) = []
      \<and> r2 = (True, None)
      \<and> map (\<lambda>k. case event_data (k_value k) of DDlq p \<Rightarrow> (error_code p, retry_count p) | _ \<Rightarrow> ([], 0)) (bk_log (snd (pw_kafka w2)))
         = [(''INTERNAL_ERROR'', 2)]"
  by code_simp

end
