(* ===== verification/OutboxPublisher.thy ===== *)
theory OutboxPublisher
  imports Store Kafka RedisStore
begin

text \<open>
  \<open>worker/outbox/publisher.go\<close>: the publisher that claims the heads of the conversation queues,
  routes each event to the gateways of its online members, publishes it to their partitions and
  marks the row, with retries and a dead letter; and the worker slots guarded by MySQL named locks.
\<close>

section \<open>Configuration and world\<close>

record publisher_config =
  pc_max_retries :: int
  pc_backoff :: int
  pc_poll :: int
  pc_batch :: int
  pc_workers :: int
  pc_concurrency :: int
  pc_lease :: int

text \<open>\<open>New\<close>: times in milliseconds.\<close>

definition publisher_New :: "publisher_config \<Rightarrow> publisher_config" where
  "publisher_New c0 =
     (let c1 = (if pc_max_retries c0 \<le> 0 then c0\<lparr>pc_max_retries := 10\<rparr> else c0);
          c2 = (if pc_backoff c1 \<le> 0 then c1\<lparr>pc_backoff := 2000\<rparr> else c1);
          c3 = (if pc_poll c2 \<le> 0 then c2\<lparr>pc_poll := 500\<rparr> else c2);
          c4 = (if pc_batch c3 \<le> 0 then c3\<lparr>pc_batch := 100\<rparr> else c3);
          c5 = (if pc_workers c4 \<le> 0 then c4\<lparr>pc_workers := 1\<rparr> else c4);
          c6 = (if pc_concurrency c5 \<le> 0 then c5\<lparr>pc_concurrency := 8\<rparr> else c5);
          c7 = (if pc_batch c6 < pc_concurrency c6 then c6\<lparr>pc_concurrency := pc_batch c6\<rparr> else c6)
      in if pc_lease c7 \<le> 0 then c7\<lparr>pc_lease := 5000\<rparr> else c7)"

record 's outbox_world =
  ow_db :: mysql
  ow_redis :: redis
  ow_kafka :: "'s kafka"

text \<open>
  The dependencies: whether the presence registry and the conversation repository are configured,
  gobreaker, the topic prefix, the number of push partitions, and what a failed \<open>json.Unmarshal\<close>
  leaves of the bytes of a corrupt payload.
\<close>

record 's outbox_deps =
  od_config :: publisher_config
  od_presence :: bool
  od_conv_repo :: bool
  od_cb :: "('s, broker) cb_execute"
  od_prefix :: string
  od_push_partitions :: int
  od_partial :: "string \<Rightarrow> persisted_event"

text \<open>
  What one publication takes from outside: the clocks, the jitter, the drawn event ids, and the
  order in which Go ranges over the map of targets.
\<close>

record publish_env =
  oe_now :: int
  oe_jitter :: int
  oe_uuid :: "int \<Rightarrow> string"
  oe_dlq_uuid :: string
  oe_order :: "(int \<times> int list) list \<Rightarrow> (int \<times> int list) list"

definition ow_at_db :: "(mysql \<Rightarrow> 'a \<times> mysql) \<Rightarrow> 's outbox_world \<Rightarrow> 'a \<times> 's outbox_world" where
  "ow_at_db = zoomE ow_db (\<lambda>p w. w\<lparr>ow_db := p\<rparr>)"

definition ow_at_redis :: "(redis \<Rightarrow> 'a \<times> redis) \<Rightarrow> 's outbox_world \<Rightarrow> 'a \<times> 's outbox_world" where
  "ow_at_redis = zoomE ow_redis (\<lambda>p w. w\<lparr>ow_redis := p\<rparr>)"

definition ow_at_kafka :: "('s kafka \<Rightarrow> 'a \<times> 's kafka) \<Rightarrow> 's outbox_world \<Rightarrow> 'a \<times> 's outbox_world" where
  "ow_at_kafka = zoomE ow_kafka (\<lambda>p w. w\<lparr>ow_kafka := p\<rparr>)"

section \<open>Events and routes\<close>

text \<open>\<open>OutboxRecord.Payload\<close>.\<close>

definition record_event :: "'s outbox_deps \<Rightarrow> outbox_record \<Rightarrow> persisted_event" where
  "record_event D rec = (case or_payload rec of Event e \<Rightarrow> e | Corrupt c s b \<Rightarrow> od_partial D b)"

definition toPushEvent :: "persisted_event \<Rightarrow> int list \<Rightarrow> push_event" where
  "toPushEvent e userIDs =
     \<lparr>pu_mid = pe_mid e, pu_seq = pe_seq e, pu_sender = pe_sender e, pu_client_id = pe_client_id e,
      pu_conv = pe_conv e, pu_type = pe_type e, pu_content = pe_content e, pu_preview = pe_preview e,
      pu_created = pe_created e, pu_targets = userIDs\<rparr>"

text \<open>The users of one partition, in ascending order, and the targets by partition.\<close>

definition users_at :: "(int \<Rightarrow> route list) \<Rightarrow> int list \<Rightarrow> int \<Rightarrow> int list" where
  "users_at routes users p = sort (filter (\<lambda>u. list_ex (\<lambda>r. rt_partition r = p) (routes u)) users)"

definition group_routes :: "int \<Rightarrow> (int \<Rightarrow> route list) \<Rightarrow> int list \<Rightarrow> (int \<times> int list) list" where
  "group_routes partitionCount routes users =
     map (\<lambda>p. (p, users_at routes users p))
       (filter (\<lambda>p. users_at routes users p \<noteq> []) [0..partitionCount - 1])"

definition routeTargets ::
  "'s outbox_deps \<Rightarrow> int \<Rightarrow> persisted_event \<Rightarrow> ('s outbox_world, (int \<times> int list) list) svc" where
  "routeTargets D now event =
     (if \<not> od_presence D then failE (OtherError ''presence registry is not configured'')
      else
        bindE (if pe_members event = []
               then (if \<not> od_conv_repo D then failE (OtherError ''outbox event has no member snapshot'')
                     else ow_at_db (ListMemberIDs (pe_conv event)))
               else returnE (pe_members event)) (\<lambda>memberIDs.
        bindE (ow_at_redis (OnlineConnectionsBatch now memberIDs)) (\<lambda>routes.
        returnE (group_routes (if od_push_partitions D \<le> 0 then 1 else od_push_partitions D)
                   routes (unique_positive [] memberIDs)))))"

section \<open>Dead letters and failures\<close>

definition pushEnvelopeFallback :: "publish_env \<Rightarrow> persisted_event \<Rightarrow> kvalue \<Rightarrow> kvalue" where
  "pushEnvelopeFallback E event fallback =
     (case NewEnvelope (oe_uuid E (-1)) (oe_now E) EventPush ''outbox-publisher'' (pe_conv event)
             (DPush (toPushEvent event [])) of
        Inr env \<Rightarrow> KEnv env
      | Inl e \<Rightarrow> fallback)"

text \<open>The original of the dead letter: the last envelope, else one made from the event, else the payload.\<close>

definition dlq_original :: "'s outbox_deps \<Rightarrow> publish_env \<Rightarrow> outbox_record \<Rightarrow> kvalue \<Rightarrow> kvalue" where
  "dlq_original D E rec original =
     (if original \<noteq> KNone then original
      else if pe_conv (record_event D rec) \<noteq> 0
      then (case NewEnvelope (oe_uuid E (-2)) (oe_now E) EventPush ''outbox-publisher'' (or_conv rec)
                   (DPush (toPushEvent (record_event D rec) [])) of
              Inr env \<Rightarrow> KEnv env
            | Inl e \<Rightarrow> KPayload (or_payload rec))
      else KPayload (or_payload rec))"

definition outbox_dlq :: "'s outbox_deps \<Rightarrow> publish_env \<Rightarrow> outbox_record \<Rightarrow> kvalue \<Rightarrow> dlq_payload" where
  "outbox_dlq D E rec original =
     DLQPayload (PushTopic (od_prefix D)) (-1) (-1) (or_retry_count rec) ''OUTBOX_PUBLISH_FAILED''
       (or_last_error rec) (oe_now E) (dlq_original D E rec original)"

definition outbox_publishDLQ ::
  "'s outbox_deps \<Rightarrow> publish_env \<Rightarrow> string \<Rightarrow> outbox_record \<Rightarrow> kvalue \<Rightarrow> 's outbox_world \<Rightarrow> 's outbox_world" where
  "outbox_publishDLQ D E owner rec original w =
     (let conversationID = (if or_conv rec = 0 then pe_conv (record_event D rec) else or_conv rec) in
      case (case NewEnvelope (oe_dlq_uuid E) (oe_now E) EventDLQ ''outbox-publisher'' conversationID
                   (DDlq (outbox_dlq D E rec original)) of
              Inl e \<Rightarrow> (Some e, w)
            | Inr env \<Rightarrow> ow_at_kafka (PublishDLQ (od_cb D) (od_prefix D) env) w) of
        (Some e, w1) \<Rightarrow>
          snd (ow_at_db (RetryDLQ (oe_now E) (or_mid rec) (or_event rec) (pc_backoff (od_config D)) owner) w1)
      | (None, w1) \<Rightarrow> snd (ow_at_db (MarkDead (or_mid rec) (or_event rec) owner) w1))"

definition outbox_markFailed ::
  "'s outbox_deps \<Rightarrow> publish_env \<Rightarrow> string \<Rightarrow> outbox_record \<Rightarrow> string \<Rightarrow> kvalue
     \<Rightarrow> 's outbox_world \<Rightarrow> 's outbox_world" where
  "outbox_markFailed D E owner rec errMsg original w =
     (case ow_at_db (MarkFailed (oe_now E) (oe_jitter E) (or_mid rec) (or_event rec) errMsg
             (pc_max_retries (od_config D)) (pc_backoff (od_config D)) (pc_lease (od_config D)) owner) w of
        (Inl e, w1) \<Rightarrow> w1
      | (Inr (applied, needsDLQ), w1) \<Rightarrow>
          if \<not> applied then w1
          else if needsDLQ
          then outbox_publishDLQ D E owner
                 (rec\<lparr>or_status := OutboxDLQPending, or_retry_count := or_retry_count rec + 1,
                     or_last_error := errMsg\<rparr>) original w1
          else w1)"

section \<open>Publishing\<close>

definition push_envelope :: "publish_env \<Rightarrow> persisted_event \<Rightarrow> int \<times> int list \<Rightarrow> gerr + envelope" where
  "push_envelope E event t =
     NewEnvelope (oe_uuid E (fst t)) (oe_now E) EventPush ''outbox-publisher'' (pe_conv event)
       (DPush (toPushEvent event (snd t)))"

text \<open>The loop over the targets; \<open>original\<close> is the envelope of the last attempt.\<close>

fun publish_targets ::
  "'s outbox_deps \<Rightarrow> publish_env \<Rightarrow> string \<Rightarrow> outbox_record \<Rightarrow> kvalue \<Rightarrow> (int \<times> int list) list
     \<Rightarrow> 's outbox_world \<Rightarrow> 's outbox_world" where
  "publish_targets D E owner rec original [] w =
     snd (ow_at_db (MarkPublished (oe_now E) (or_mid rec) (or_event rec) owner) w)"
| "publish_targets D E owner rec original (t # ts) w =
     (case push_envelope E (record_event D rec) t of
        Inl e \<Rightarrow> outbox_markFailed D E owner rec (''push envelope: '' @ Error e) original w
      | Inr env \<Rightarrow>
          (case ow_at_kafka (PublishPush (od_cb D) (od_prefix D) (fst t) env) w of
             (Some e, w1) \<Rightarrow> outbox_markFailed D E owner rec (Error e) (KEnv env) w1
           | (None, w1) \<Rightarrow> publish_targets D E owner rec (KEnv env) ts w1))"

definition publishOne ::
  "'s outbox_deps \<Rightarrow> publish_env \<Rightarrow> string \<Rightarrow> outbox_record \<Rightarrow> 's outbox_world \<Rightarrow> 's outbox_world" where
  "publishOne D E owner rec w =
     (if or_status rec = OutboxDLQPending then outbox_publishDLQ D E owner rec KNone w
      else
        (case routeTargets D (oe_now E) (record_event D rec) w of
           (Inl e, w1) \<Rightarrow>
             outbox_markFailed D E owner rec (Error e)
               (pushEnvelopeFallback E (record_event D rec) (KPayload (or_payload rec))) w1
         | (Inr targets, w1) \<Rightarrow> publish_targets D E owner rec KNone (oe_order E targets) w1))"

text \<open>
  \<open>dispatch\<close>: the goroutines of the batch one after the other; they work on different rows. \<open>Es\<close>
  gives each publication its environment.
\<close>

fun publish_all ::
  "'s outbox_deps \<Rightarrow> (outbox_record \<Rightarrow> publish_env) \<Rightarrow> string \<Rightarrow> outbox_record list
     \<Rightarrow> 's outbox_world \<Rightarrow> 's outbox_world" where
  "publish_all D Es owner [] w = w"
| "publish_all D Es owner (r # rs) w = publish_all D Es owner rs (publishOne D (Es r) owner r w)"

definition dispatch ::
  "'s outbox_deps \<Rightarrow> (outbox_record \<Rightarrow> publish_env) \<Rightarrow> int \<Rightarrow> string \<Rightarrow> nat list
     \<Rightarrow> 's outbox_world \<Rightarrow> 's outbox_world" where
  "dispatch D Es now owner shards w =
     (let claimSize = (if pc_concurrency (od_config D) < pc_batch (od_config D)
                       then pc_concurrency (od_config D) else pc_batch (od_config D)) in
      case ow_at_db (Claim now claimSize shards owner (pc_lease (od_config D))) w of
        (Inl e, w1) \<Rightarrow> w1
      | (Inr recs, w1) \<Rightarrow>
          snd (ow_at_db (OldestPendingAge now) (snd (ow_at_db PendingCount (publish_all D Es owner recs w1)))))"

section \<open>Worker slots\<close>

text \<open>
  The named locks of the MySQL server, by name the connection that holds the lock, and the faults of
  the calls to come. \<open>GET_LOCK\<close> with timeout 0 answers 1 when the lock is free or held by the same
  connection, else 0.
\<close>

record lock_server =
  lk_held :: "string \<rightharpoonup> nat"
  lk_faults :: "gerr fault list"

definition get_lock :: "nat \<Rightarrow> string \<Rightarrow> lock_server \<Rightarrow> (gerr + int) \<times> lock_server" where
  "get_lock conn name s =
     (case pop_fault (lk_faults s) of (f, fs) \<Rightarrow>
        let free = (lk_held s name = None \<or> lk_held s name = Some conn);
            held = (if free \<and> fault_applied f then (lk_held s)(name \<mapsto> conn) else lk_held s)
        in (case fault_error f of Some e \<Rightarrow> Inl e | None \<Rightarrow> Inr (if free then 1 else 0),
            s\<lparr>lk_held := held, lk_faults := fs\<rparr>))"

text \<open>
  \<open>Conn.Close\<close> gives the session back to the pool, where it keeps its locks. A session on which a call
  failed in transport is dropped by the driver, and MySQL frees its locks; an error that the server
  answers leaves it alive.
\<close>

definition drop_session :: "nat \<Rightarrow> lock_server \<Rightarrow> lock_server" where
  "drop_session conn s = s\<lparr>lk_held := (\<lambda>n. if lk_held s n = Some conn then None else lk_held s n)\<rparr>"

definition close_conn :: "nat \<Rightarrow> gerr option \<Rightarrow> lock_server \<Rightarrow> lock_server" where
  "close_conn conn err s =
     (case err of
        None \<Rightarrow> s
      | Some (MySQLError n) \<Rightarrow> s
      | Some _ \<Rightarrow> drop_session conn s)"

definition lock_name :: "string \<Rightarrow> int \<Rightarrow> string" where
  "lock_name namespace workerID = ''gochat:outbox:'' @ namespace @ '':'' @ FormatInt workerID"

text \<open>
  \<open>acquireWorkerSlot\<close> on an open connection: \<open>namespace\<close> is the hex of the schema hash; \<open>n\<close> slots are
  left, the next is \<open>k\<close>. The connection is closed on every failure.
\<close>

fun acquire_from :: "string \<Rightarrow> nat \<Rightarrow> nat \<Rightarrow> int \<Rightarrow> lock_server \<Rightarrow> (gerr + int \<times> string) \<times> lock_server" where
  "acquire_from namespace conn 0 k s = (Inl (Sentinel ErrNoWorkerSlot), close_conn conn None s)"
| "acquire_from namespace conn (Suc n) k s =
     (case get_lock conn (lock_name namespace k) s of
        (Inl e, s') \<Rightarrow> (Inl e, close_conn conn (Some e) s')
      | (Inr a, s') \<Rightarrow>
          if a = 1 then (Inr (k, lock_name namespace k), s') else acquire_from namespace conn n (k + 1) s')"

definition acquireWorkerSlot ::
  "publisher_config \<Rightarrow> string \<Rightarrow> nat \<Rightarrow> lock_server \<Rightarrow> (gerr + int \<times> string) \<times> lock_server" where
  "acquireWorkerSlot c namespace conn s = acquire_from namespace conn (nat (pc_workers c)) 0 s"

definition checkWorkerLock :: "nat \<Rightarrow> string \<Rightarrow> lock_server \<Rightarrow> gerr option \<times> lock_server" where
  "checkWorkerLock conn name s =
     (case pop_fault (lk_faults s) of (f, fs) \<Rightarrow>
        (case fault_error f of
           Some e \<Rightarrow> Some e
         | None \<Rightarrow>
             if lk_held s name \<noteq> Some conn
             then Some (OtherError ''MySQL worker slot lock is no longer owned by this connection'') else None,
         s\<lparr>lk_faults := fs\<rparr>))"

text \<open>\<open>RELEASE_LOCK\<close>, then the connection is closed whatever the answer was.\<close>

definition releaseWorkerSlot :: "nat \<Rightarrow> string \<Rightarrow> lock_server \<Rightarrow> lock_server" where
  "releaseWorkerSlot conn name s =
     (case pop_fault (lk_faults s) of (f, fs) \<Rightarrow>
        close_conn conn (fault_error f) (s\<lparr>lk_held := (if fault_applied f \<and> lk_held s name = Some conn
                                       then (lk_held s)(name := None) else lk_held s),
                           lk_faults := fs\<rparr>))"

section \<open>The loop of a publisher\<close>

text \<open>
  What \<open>runSlot\<close> waits for: a tick of the poll timer, a tick of the lock monitor, the cancelled context.
  \<open>Elsewhere\<close> is what other connections, or the server when it drops this one, do to the locks.
\<close>

datatype slot_event =
    Poll int "outbox_record \<Rightarrow> publish_env"
  | Monitor
  | Cancel
  | Elsewhere lock_server

fun slot_loop ::
  "'s outbox_deps \<Rightarrow> string \<Rightarrow> nat list \<Rightarrow> nat \<Rightarrow> string \<Rightarrow> slot_event list
     \<Rightarrow> lock_server \<times> 's outbox_world \<Rightarrow> lock_server \<times> 's outbox_world" where
  "slot_loop D owner shards conn name [] st = st"
| "slot_loop D owner shards conn name (ev # evs) (s, w) =
     (case ev of
        Poll now Es \<Rightarrow> slot_loop D owner shards conn name evs (s, dispatch D Es now owner shards w)
      | Monitor \<Rightarrow>
          (case checkWorkerLock conn name s of
             (Some e, s') \<Rightarrow> (s', w)
           | (None, s') \<Rightarrow> slot_loop D owner shards conn name evs (s', w))
      | Cancel \<Rightarrow> (s, w)
      | Elsewhere s' \<Rightarrow> slot_loop D owner shards conn name evs (s', w))"

definition runSlot ::
  "'s outbox_deps \<Rightarrow> string \<Rightarrow> nat list \<Rightarrow> nat \<Rightarrow> string \<Rightarrow> slot_event list
     \<Rightarrow> lock_server \<times> 's outbox_world \<Rightarrow> lock_server \<times> 's outbox_world" where
  "runSlot D owner shards conn name evs st =
     (case checkWorkerLock conn name (fst st) of
        (Some e, s') \<Rightarrow> (s', snd st)
      | (None, s') \<Rightarrow> slot_loop D owner shards conn name evs (s', snd st))"

text \<open>
  One round of \<open>Publisher.Run\<close> on a fresh connection: a slot, its shards, the loop, the release. A
  round that finds no slot waits for the next one. \<open>uuid\<close> is drawn for the owner id.
\<close>

definition publisher_round ::
  "'s outbox_deps \<Rightarrow> string \<Rightarrow> nat \<Rightarrow> string \<Rightarrow> slot_event list
     \<Rightarrow> lock_server \<times> 's outbox_world \<Rightarrow> lock_server \<times> 's outbox_world" where
  "publisher_round D namespace conn uuid evs st =
     (case acquireWorkerSlot (od_config D) namespace conn (fst st) of
        (Inl e, s') \<Rightarrow> (s', snd st)
      | (Inr (k, name), s') \<Rightarrow>
          (case runSlot D (''obx-'' @ FormatInt k @ ''-'' @ uuid)
                  (map nat (OutboxShardsForWorker k (pc_workers (od_config D)))) conn name evs (s', snd st) of
             (s'', w) \<Rightarrow> (releaseWorkerSlot conn name s'', w)))"

primrec publisher_Run ::
  "'s outbox_deps \<Rightarrow> string \<Rightarrow> (nat \<times> string \<times> slot_event list) list
     \<Rightarrow> lock_server \<times> 's outbox_world \<Rightarrow> lock_server \<times> 's outbox_world" where
  "publisher_Run D namespace [] st = st"
| "publisher_Run D namespace (r # rs) st =
     publisher_Run D namespace rs (publisher_round D namespace (fst r) (fst (snd r)) (snd (snd r)) st)"

text \<open>
  When a round is over its slot is free again, except when the server refused the release; then
  the session goes back to the pool with the lock, and no other session gets the slot.
\<close>

lemma releaseWorkerSlot_frees:
  assumes "lk_held (releaseWorkerSlot conn name s) name = Some conn"
  shows "\<exists>n fs. lk_faults s = Lost (MySQLError n) # fs"
proof (cases "lk_faults s")
  case Nil
  with assms show ?thesis by (simp add: releaseWorkerSlot_def close_conn_def split: if_splits)
next
  case (Cons f fs)
  with assms show ?thesis
    by (cases f) (auto simp: releaseWorkerSlot_def close_conn_def drop_session_def split: if_splits gerr.splits)
qed

lemma publisher_round_frees:
  assumes "publisher_round D namespace conn uuid evs st = (s', w')"
    and "acquireWorkerSlot (od_config D) namespace conn (fst st) = (Inr (k, name), s1)" and "lk_held s' name = Some conn"
  shows "\<exists>s n fs. lk_faults s = Lost (MySQLError n) # fs \<and> s' = releaseWorkerSlot conn name s"
proof -
  obtain s where s: "s' = releaseWorkerSlot conn name s"
    using assms(1) by (auto simp: publisher_round_def assms(2) split: prod.splits)
  with releaseWorkerSlot_frees assms(3) show ?thesis by blast
qed

lemma refused_release_blocks_slot:
  assumes "lk_held s name = Some conn" and "lk_faults s = [Lost (MySQLError n)]" and "conn2 \<noteq> conn"
  shows "fst (get_lock conn2 name (releaseWorkerSlot conn name s)) = Inr 0"
  using assms by (simp add: releaseWorkerSlot_def close_conn_def get_lock_def Let_def)

section \<open>Facts\<close>

lemmas ow_defs = ow_at_db_def ow_at_redis_def ow_at_kafka_def zoomE_def

definition finished :: "int \<Rightarrow> int \<Rightarrow> db \<Rightarrow> bool" where
  "finished mid ev d \<longleftrightarrow> (\<exists>r \<in> set (d_outbox d). same_row mid ev r \<and> \<not> unfinished (ob_status r))"

lemma update_outbox_finished:
  assumes "update_outbox P f ms = (x, ms')" and "finished mid ev (fst ms')" and "\<not> finished mid ev (fst ms)"
  shows "\<exists>r \<in> set (d_outbox (fst ms)). P r \<and> same_row mid ev (f r) \<and> \<not> unfinished (ob_status (f r))"
proof -
  have "d_outbox (fst ms') = d_outbox (fst ms) \<or> d_outbox (fst ms') = update_where P f (d_outbox (fst ms))"
    using assms(1) by (auto simp: update_outbox_def set_outbox_def split: prod.splits dest!: db_exec_cases)
  with assms(2,3) show ?thesis
    by (auto simp: finished_def set_update_where split: if_splits)
qed

lemma MarkFailed_keeps:
  assumes "MarkFailed now j mid0 ev0 msg mx b l owner ms = (x, ms')" and "finished mid ev (fst ms')"
  shows "finished mid ev (fst ms)"
proof (rule ccontr)
  assume n: "\<not> finished mid ev (fst ms)"
  obtain y ms1 where q: "db_query (\<lambda>d. find (owned_row mid0 ev0 owner) (d_outbox d)) ms = (y, ms1)" by (rule prod.exhaust)
  have f: "fst ms1 = fst ms" using db_query_cases [OF q] by simp
  have "ms' = ms1 \<or> (\<exists>n z. update_outbox (owned_row mid0 ev0 owner) (failed_row now msg n mx b l j owner) ms1 = (z, ms'))"
    using assms(1) by (auto simp: MarkFailed_def q Let_def split: sum.splits option.splits prod.splits)
  then show False
  proof (elim disjE exE)
    fix k z assume u: "update_outbox (owned_row mid0 ev0 owner) (failed_row now msg k mx b l j owner) ms1 = (z, ms')"
    from update_outbox_finished [OF u assms(2)] n f show False
      by (auto simp: failed_row_def split: if_splits)
  qed (use assms(2) n f in simp)
qed

lemma RetryDLQ_keeps:
  assumes "RetryDLQ now mid0 ev0 b owner ms = (x, ms')" and "finished mid ev (fst ms')"
  shows "finished mid ev (fst ms)"
proof (rule ccontr)
  assume n: "\<not> finished mid ev (fst ms)"
  from update_outbox_finished [OF assms(1) [unfolded RetryDLQ_def] assms(2) n] n
  show False by (auto simp: finished_def dlq_owned_def owned_row_def same_row_def)
qed

lemma Mark_finishes:
  assumes "MarkPublished now mid0 ev0 owner ms = (x, ms') \<or> MarkDead mid0 ev0 owner ms = (x, ms')"
    and "finished mid ev (fst ms')" and "\<not> finished mid ev (fst ms)"
  shows "mid = mid0 \<and> ev = ev0"
  using assms(1)
proof
  assume "MarkPublished now mid0 ev0 owner ms = (x, ms')"
  from update_outbox_finished [OF this [unfolded MarkPublished_def] assms(2,3)] show ?thesis
    by (auto simp: published_row_def owned_row_def same_row_def)
next
  assume "MarkDead mid0 ev0 owner ms = (x, ms')"
  from update_outbox_finished [OF this [unfolded MarkDead_def] assms(2,3)] show ?thesis
    by (auto simp: dlq_owned_def owned_row_def same_row_def)
qed

text \<open>A producer without breakers reports what the client library reports.\<close>

lemma kafka_publish_plain:
  assumes "kafka_publish cb topic part env name (Map.empty, b) = (x, (m', b'))"
  shows "m' = Map.empty \<and> (x = None \<longrightarrow> bk_log b' = bk_log b @ [record_of topic part env])
    \<and> (\<exists>recs. bk_log b' = bk_log b @ recs)"
  using assms
  by (auto simp: kafka_publish_def ExecuteByName_def produce_def split: prod.splits option.splits fault.splits if_splits)

definition dlq_sent :: "'s outbox_deps \<Rightarrow> publish_env \<Rightarrow> outbox_record \<Rightarrow> krecord list \<Rightarrow> krecord list \<Rightarrow> bool" where
  "dlq_sent D E rec lg lg' \<longleftrightarrow> (\<exists>pre dlq orig rec'. lg' = lg @ pre @ [dlq] \<and> k_topic dlq = DLQTopic (od_prefix D)
     \<and> event_data (k_value dlq) = DDlq (outbox_dlq D E rec' orig) \<and> or_mid rec' = or_mid rec \<and> or_payload rec' = or_payload rec)"

definition ow_log :: "'s outbox_world \<Rightarrow> krecord list" where
  "ow_log w = bk_log (snd (ow_kafka w))"

lemma publishDLQ_finished:
  assumes k: "fst (ow_kafka w) = Map.empty" and n: "\<not> finished mid ev (fst (ow_db w))"
    and f: "finished mid ev (fst (ow_db (outbox_publishDLQ D E owner rec orig w)))"
  shows "mid = or_mid rec \<and> ev = or_event rec \<and> dlq_sent D E rec (ow_log w) (ow_log (outbox_publishDLQ D E owner rec orig w))"
proof -
  obtain b0 where k0: "ow_kafka w = (Map.empty, b0)" using k by (cases "ow_kafka w") simp
  let ?c = "if or_conv rec = 0 then pe_conv (record_event D rec) else or_conv rec"
  obtain env where ne: "NewEnvelope (oe_dlq_uuid E) (oe_now E) EventDLQ ''outbox-publisher'' ?c (DDlq (outbox_dlq D E rec orig)) = Inr env"
    by (simp add: NewEnvelope_def)
  obtain x m1 b1 where p: "PublishDLQ (od_cb D) (od_prefix D) env (Map.empty, b0) = (x, (m1, b1))" by (metis prod.collapse)
  note plain = kafka_publish_plain [OF p [unfolded PublishDLQ_def]]
  have at: "ow_at_kafka (PublishDLQ (od_cb D) (od_prefix D) env) w = (x, w\<lparr>ow_kafka := (m1, b1)\<rparr>)" by (simp add: ow_defs k0 p)
  show ?thesis
  proof (cases x)
    case (Some e)
    obtain y ms where r: "RetryDLQ (oe_now E) (or_mid rec) (or_event rec) (pc_backoff (od_config D)) owner (ow_db w) = (y, ms)" by (rule prod.exhaust)
    have "ow_db (outbox_publishDLQ D E owner rec orig w) = ms"
      by (simp add: outbox_publishDLQ_def Let_def ne at Some ow_at_db_def zoomE_def r)
    with RetryDLQ_keeps [OF r] f n show ?thesis by simp
  next
    case None
    obtain y ms where r: "MarkDead (or_mid rec) (or_event rec) owner (ow_db w) = (y, ms)" by (rule prod.exhaust)
    have w': "outbox_publishDLQ D E owner rec orig w = w\<lparr>ow_kafka := (m1, b1), ow_db := ms\<rparr>"
      by (simp add: outbox_publishDLQ_def Let_def ne at None ow_at_db_def zoomE_def r)
    with Mark_finishes [OF disjI2 [OF r]] f n have key: "mid = or_mid rec \<and> ev = or_event rec" by simp
    have "dlq_sent D E rec (ow_log w) (ow_log (outbox_publishDLQ D E owner rec orig w))"
      using plain None NewEnvelope_ok [OF ne] unfolding dlq_sent_def w' ow_log_def
      by (intro exI [of _ "[]"] exI [of _ "record_of (DLQTopic (od_prefix D)) (-1) env"] exI [of _ orig] exI [of _ rec])
        (simp add: k0 record_of_def)
    with key show ?thesis by simp
  qed
qed

lemma dlq_sent_prefix: "dlq_sent D E rec (lg @ pre) lg' \<Longrightarrow> dlq_sent D E rec lg lg'"
  unfolding dlq_sent_def by (metis append.assoc)

lemma markFailed_finished:
  assumes k: "fst (ow_kafka w) = Map.empty" and n: "\<not> finished mid ev (fst (ow_db w))"
    and f: "finished mid ev (fst (ow_db (outbox_markFailed D E owner rec msg orig w)))"
  shows "mid = or_mid rec \<and> ev = or_event rec \<and> dlq_sent D E rec (ow_log w) (ow_log (outbox_markFailed D E owner rec msg orig w))"
proof -
  obtain y ms where m: "MarkFailed (oe_now E) (oe_jitter E) (or_mid rec) (or_event rec) msg
      (pc_max_retries (od_config D)) (pc_backoff (od_config D)) (pc_lease (od_config D)) owner (ow_db w) = (y, ms)"
    by (rule prod.exhaust)
  let ?w1 = "w\<lparr>ow_db := ms\<rparr>"
  let ?rec = "rec\<lparr>or_status := OutboxDLQPending, or_retry_count := or_retry_count rec + 1, or_last_error := msg\<rparr>"
  have n1: "\<not> finished mid ev (fst (ow_db ?w1))" using MarkFailed_keeps [OF m] n by auto
  have "outbox_markFailed D E owner rec msg orig w \<in> {?w1, outbox_publishDLQ D E owner ?rec orig ?w1}"
    by (simp add: outbox_markFailed_def ow_defs m split: sum.split prod.split)
  with f n1 have e: "outbox_markFailed D E owner rec msg orig w = outbox_publishDLQ D E owner ?rec orig ?w1" by auto
  from publishDLQ_finished [OF _ n1, of D E owner ?rec orig] f k show ?thesis
    unfolding e dlq_sent_def ow_log_def by auto
qed

definition push_record :: "'s outbox_deps \<Rightarrow> publish_env \<Rightarrow> persisted_event \<Rightarrow> int \<times> int list \<Rightarrow> krecord" where
  "push_record D E event t = record_of (PushTopic (od_prefix D)) (fst t)
     (Envelope SchemaVersion (''evt_'' @ oe_uuid E (fst t)) EventPush (oe_now E) ''outbox-publisher''
        (FormatInt (pe_conv event)) (DPush (toPushEvent event (snd t))))"

lemma publish_targets_finished:
  assumes "fst (ow_kafka w) = Map.empty" and "\<not> finished mid ev (fst (ow_db w))"
    and "finished mid ev (fst (ow_db (publish_targets D E owner rec orig ts w)))"
  shows "mid = or_mid rec \<and> ev = or_event rec
    \<and> (ow_log (publish_targets D E owner rec orig ts w) = ow_log w @ map (push_record D E (record_event D rec)) ts
       \<or> dlq_sent D E rec (ow_log w) (ow_log (publish_targets D E owner rec orig ts w)))"
  using assms
proof (induction ts arbitrary: orig w)
  case Nil
  obtain y ms where r: "MarkPublished (oe_now E) (or_mid rec) (or_event rec) owner (ow_db w) = (y, ms)" by (rule prod.exhaust)
  have w': "publish_targets D E owner rec orig [] w = w\<lparr>ow_db := ms\<rparr>" by (simp add: ow_defs r)
  with Mark_finishes [OF disjI1 [OF r]] Nil show ?case by (simp add: ow_log_def)
next
  case (Cons t ts)
  note prems = Cons.prems
  show ?case
  proof (cases "push_envelope E (record_event D rec) t")
    case (Inl e)
    with markFailed_finished [OF prems(1,2)] prems(3) show ?thesis by simp
  next
    case (Inr env)
    obtain b0 where k0: "ow_kafka w = (Map.empty, b0)" using prems(1) by (cases "ow_kafka w") simp
    obtain x m1 b1 where p: "PublishPush (od_cb D) (od_prefix D) (fst t) env (Map.empty, b0) = (x, (m1, b1))" by (metis prod.collapse)
    have at: "ow_at_kafka (PublishPush (od_cb D) (od_prefix D) (fst t) env) w = (x, w\<lparr>ow_kafka := (m1, b1)\<rparr>)" by (simp add: ow_defs k0 p)
    have plain: "m1 = Map.empty \<and> (x = None \<longrightarrow> bk_log b1 = bk_log b0 @ [record_of (PushTopic (od_prefix D)) (fst t) env])
        \<and> (\<exists>recs. bk_log b1 = bk_log b0 @ recs)"
      using p kafka_publish_plain [of "od_cb D" "PushTopic (od_prefix D)" "fst t" env "''kafka:push_publish''" b0 x m1 b1]
      by (auto simp: PublishPush_def split: if_splits)
    let ?w1 = "w\<lparr>ow_kafka := (m1, b1)\<rparr>"
    obtain recs where recs: "ow_log ?w1 = ow_log w @ recs" using plain by (auto simp: ow_log_def k0)
    have n1: "fst (ow_kafka ?w1) = Map.empty" "\<not> finished mid ev (fst (ow_db ?w1))" using plain prems(2) by simp_all
    show ?thesis
    proof (cases x)
      case (Some e)
      have w': "publish_targets D E owner rec orig (t # ts) w = outbox_markFailed D E owner rec (Error e) (KEnv env) ?w1"
        by (simp add: Inr at Some)
      from markFailed_finished [OF n1, of D E owner rec "Error e" "KEnv env"] prems(3)
      show ?thesis unfolding w' recs by (auto dest: dlq_sent_prefix)
    next
      case None
      have w': "publish_targets D E owner rec orig (t # ts) w = publish_targets D E owner rec (KEnv env) ts ?w1"
        by (simp add: Inr at None)
      have "record_of (PushTopic (od_prefix D)) (fst t) env = push_record D E (record_event D rec) t"
        using Inr by (auto simp: push_envelope_def NewEnvelope_def push_record_def split: if_splits)
      then have l: "ow_log ?w1 = ow_log w @ [push_record D E (record_event D rec) t]" using plain None by (simp add: ow_log_def k0)
      from Cons.IH [OF n1, of "KEnv env"] prems(3)
      show ?thesis unfolding w' l by (auto dest: dlq_sent_prefix)
    qed
  qed
qed

lemma bindE_keeps:
  assumes "bindE m f w = (r, w1)" and "\<And>x w'. m w = (x, w') \<Longrightarrow> g w' = g w"
    and "\<And>a w' x w''. m w = (Inr a, w') \<Longrightarrow> f a w' = (x, w'') \<Longrightarrow> g w'' = g w'"
  shows "g w1 = g w"
proof -
  obtain x w' where m: "m w = (x, w')" by (rule prod.exhaust)
  show ?thesis
  proof (cases x)
    case (Inl e)
    with assms(1) m assms(2) [OF m] show ?thesis by (simp add: bindE_def)
  next
    case (Inr a)
    with assms(1) m have "f a w' = (r, w1)" by (simp add: bindE_def)
    from assms(3) [OF _ this] assms(2) [OF m] m Inr show ?thesis by simp
  qed
qed

lemma routeTargets_state:
  assumes "routeTargets D now event w = (r, w1)"
  shows "fst (ow_db w1) = fst (ow_db w) \<and> ow_kafka w1 = ow_kafka w"
proof (cases "od_presence D")
  case False
  with assms show ?thesis by (simp add: routeTargets_def)
next
  case True
  let ?g = "\<lambda>w. (fst (ow_db w), ow_kafka w)"
  have l: "?g w' = ?g v" if "ow_at_db (ListMemberIDs c) v = (x, w')" for c v x w'
    using that by (auto simp: ow_at_db_def zoomE_def ListMemberIDs_def split: prod.splits dest!: db_query_cases)
  have p: "?g w' = ?g v" if "ow_at_redis m v = (x, w')" for m :: "redis \<Rightarrow> 'b \<times> redis" and v x w'
    using that by (auto simp: ow_at_redis_def zoomE_def split: prod.splits)
  have b: "bindE (if pe_members event = []
               then (if \<not> od_conv_repo D then failE (OtherError ''outbox event has no member snapshot'')
                     else ow_at_db (ListMemberIDs (pe_conv event)))
               else returnE (pe_members event)) (\<lambda>memberIDs.
        bindE (ow_at_redis (OnlineConnectionsBatch now memberIDs)) (\<lambda>routes.
        returnE (group_routes (if od_push_partitions D \<le> 0 then 1 else od_push_partitions D)
                   routes (unique_positive [] memberIDs)))) w = (r, w1)"
    using assms True by (simp add: routeTargets_def)
  have "?g w1 = ?g w"
  proof (rule bindE_keeps [OF b])
    fix x w' assume "(if pe_members event = []
               then (if \<not> od_conv_repo D then failE (OtherError ''outbox event has no member snapshot'')
                     else ow_at_db (ListMemberIDs (pe_conv event)))
               else returnE (pe_members event)) w = (x, w')"
    then show "?g w' = ?g w" using l by (auto split: if_splits)
  next
    fix ms w' x w''
    assume "bindE (ow_at_redis (OnlineConnectionsBatch now ms)) (\<lambda>routes.
        returnE (group_routes (if od_push_partitions D \<le> 0 then 1 else od_push_partitions D)
                   routes (unique_positive [] ms))) w' = (x, w'')"
    then show "?g w'' = ?g w'" by (rule bindE_keeps) (auto dest: p)
  qed
  then show ?thesis by simp
qed

lemma unique_positive_skip: "u \<le> 0 \<or> u \<in> set seen \<Longrightarrow> unique_positive seen (u # us) = unique_positive seen us"
  by (simp add: List.member_iff)
lemma unique_positive_keep: "0 < u \<Longrightarrow> u \<notin> set seen \<Longrightarrow> unique_positive seen (u # us) = u # unique_positive (u # seen) us"
  by (simp add: List.member_iff)
lemma unique_positive_set: "set (unique_positive seen us) = {u \<in> set us. 0 < u \<and> u \<notin> set seen}"
proof (induction us arbitrary: seen)
  case (Cons u us)
  show ?case
  proof (cases "u \<le> 0 \<or> u \<in> set seen")
    case True
    have "{x \<in> set (u # us). 0 < x \<and> x \<notin> set seen} = {x \<in> set us. 0 < x \<and> x \<notin> set seen}"
      using True by auto
    then show ?thesis by (simp only: unique_positive_skip [OF True] Cons.IH)
  next
    case False
    then have f: "0 < u" "u \<notin> set seen" by auto
    have "{x \<in> set (u # us). 0 < x \<and> x \<notin> set seen} = insert u {x \<in> set us. 0 < x \<and> x \<notin> set (u # seen)}"
      using f by auto
    then show ?thesis by (simp only: unique_positive_keep [OF f] Cons.IH list.set)
  qed
qed (simp only: unique_positive.simps list.set, simp)

lemma unique_positive_distinct: "distinct (unique_positive seen us)"
proof (induction us arbitrary: seen)
  case (Cons u us)
  show ?case
  proof (cases "u \<le> 0 \<or> u \<in> set seen")
    case True
    show ?thesis unfolding unique_positive_skip [OF True] by (rule Cons.IH)
  next
    case False
    then have f: "0 < u" "u \<notin> set seen" by auto
    have "u \<notin> set (unique_positive (u # seen) us)" unfolding unique_positive_set by simp
    with Cons.IH show ?thesis unfolding unique_positive_keep [OF f] by (simp only: distinct.simps simp_thms)
  qed
qed (simp only: unique_positive.simps distinct.simps)

section \<open>Properties\<close>


lemma routeTargets_ok:
  assumes "routeTargets D now event w = (Inr targets, w1)"
  obtains members routes redis' where "pe_members event \<noteq> [] \<longrightarrow> members = pe_members event"
    "OnlineConnectionsBatch now members (ow_redis w) = (Inr routes, redis')"
    "targets = group_routes (if od_push_partitions D \<le> 0 then 1 else od_push_partitions D)
       routes (unique_positive [] members)"
proof -
  obtain members wa where m: "(if pe_members event = []
               then (if \<not> od_conv_repo D then failE (OtherError ''outbox event has no member snapshot'')
                     else ow_at_db (ListMemberIDs (pe_conv event)))
               else returnE (pe_members event)) w = (Inr members, wa)"
    and rest: "bindE (ow_at_redis (OnlineConnectionsBatch now members)) (\<lambda>routes.
        returnE (group_routes (if od_push_partitions D \<le> 0 then 1 else od_push_partitions D)
                   routes (unique_positive [] members))) wa = (Inr targets, w1)"
    using assms by (auto simp: routeTargets_def split: if_splits elim: bindE_okE)
  have r0: "ow_redis wa = ow_redis w" using m by (auto simp: ow_defs split: if_splits prod.splits)
  obtain routes wb where b: "ow_at_redis (OnlineConnectionsBatch now members) wa = (Inr routes, wb)"
    and t: "returnE (group_routes (if od_push_partitions D \<le> 0 then 1 else od_push_partitions D)
                   routes (unique_positive [] members)) wb = (Inr targets, w1)"
    using rest by (rule bindE_okE)
  obtain redis' where o: "OnlineConnectionsBatch now members (ow_redis w) = (Inr routes, redis')"
    using b r0 by (auto simp: ow_defs split: prod.splits)
  have p: "pe_members event \<noteq> [] \<longrightarrow> members = pe_members event" using m by auto
  have "targets = group_routes (if od_push_partitions D \<le> 0 then 1 else od_push_partitions D)
       routes (unique_positive [] members)" using t by simp
  with p o show thesis by (rule that)
qed

lemma group_routes_mem:
  "(\<exists>ids. (p, ids) \<in> set (group_routes n routes (unique_positive [] members)) \<and> u \<in> set ids) \<longleftrightarrow>
     0 \<le> p \<and> p < n \<and> u \<in> set members \<and> 0 < u \<and> (\<exists>r \<in> set (routes u). rt_partition r = p)"
proof -
  have set_at: "u \<in> set (users_at routes (unique_positive [] members) p)
      \<longleftrightarrow> u \<in> set members \<and> 0 < u \<and> (\<exists>r \<in> set (routes u). rt_partition r = p)"
    by (auto simp: users_at_def unique_positive_set list_ex_iff)
  show ?thesis
    unfolding set_at [symmetric]
    by (auto simp: group_routes_def intro!: exI [of _ "users_at routes (unique_positive [] members) p"])
qed


text \<open>
  C17: Worker slots are exclusive: two connections that both pass the lock check hold different slots,
  and the shards of two different slots have no conversation in common; so two publishers whose
  locks are good never claim the same queue. Acquiring a slot establishes the check.
\<close>

theorem slots_are_exclusive:
  assumes "0 \<le> k1" and "k1 < pc_workers c" and "0 \<le> k2" and "k2 < pc_workers c" and "conn1 \<noteq> conn2"
    and "fst (checkWorkerLock conn1 (lock_name ns k1) s) = None"
    and "fst (checkWorkerLock conn2 (lock_name ns k2) s) = None"
  shows "set (OutboxShardsForWorker k1 (pc_workers c)) \<inter> set (OutboxShardsForWorker k2 (pc_workers c)) = {}
    \<and> (\<forall>conn s s' k name. acquireWorkerSlot c ns conn s = (Inr (k, name), s') \<longrightarrow>
         name = lock_name ns k \<and> 0 \<le> k \<and> k < pc_workers c \<and> lk_held s' name = Some conn
         \<and> (lk_held s name = None \<or> lk_held s name = Some conn))"
proof (intro conjI allI impI)
  have held: "lk_held s (lock_name ns k1) = Some conn1" "lk_held s (lock_name ns k2) = Some conn2"
    using assms(6,7) by (auto simp: checkWorkerLock_def split: prod.splits option.splits if_splits)
  with assms(5) have "k1 \<noteq> k2" by auto
  then show "set (OutboxShardsForWorker k1 (pc_workers c)) \<inter> set (OutboxShardsForWorker k2 (pc_workers c)) = {}"
    using assms(1-4) by (auto simp: OutboxShardsForWorker_set)
next
  have acq: "acquire_from ns conn n k s = (Inr (j, name), s') \<Longrightarrow>
      name = lock_name ns j \<and> k \<le> j \<and> j < k + int n \<and> lk_held s' name = Some conn
      \<and> (lk_held s name = None \<or> lk_held s name = Some conn)" for conn n k s j name s'
  proof (induction n arbitrary: k s)
    case (Suc n)
    obtain x s1 where g: "get_lock conn (lock_name ns k) s = (x, s1)" by (rule prod.exhaust)
    have held: "x = Inr 1 \<longrightarrow> lk_held s1 (lock_name ns k) = Some conn
          \<and> (lk_held s (lock_name ns k) = None \<or> lk_held s (lock_name ns k) = Some conn)"
      "(\<forall>a. x = Inr a \<longrightarrow> a \<noteq> 1 \<longrightarrow> lk_held s1 = lk_held s)"
      using g by (auto simp: get_lock_def Let_def split: prod.splits option.splits if_splits)
    show ?case
    proof (cases "x = Inr 1")
      case True
      with Suc.prems g held show ?thesis by auto
    next
      case False
      with Suc.prems g obtain a where a: "x = Inr a" "a \<noteq> 1" and r: "acquire_from ns conn n (k + 1) s1 = (Inr (j, name), s')"
        by (auto split: sum.splits if_splits)
      from Suc.IH [OF r] held a show ?thesis by auto
    qed
  qed simp
  fix conn s s' k name assume "acquireWorkerSlot c ns conn s = (Inr (k, name), s')"
  then have a: "acquire_from ns conn (nat (pc_workers c)) 0 s = (Inr (k, name), s')" by (simp add: acquireWorkerSlot_def)
  from acq [OF a] show "name = lock_name ns k" "0 \<le> k" "k < pc_workers c" "lk_held s' name = Some conn"
    "lk_held s name = None \<or> lk_held s name = Some conn" by (auto split: if_splits)
qed

text \<open>
  A claimed row, its members 9 and 7, of which 7 is connected to the gateway of
  partition 3; a producer without breakers.
\<close>

definition demo_publisher :: "unit outbox_deps" where
  "demo_publisher = \<lparr>od_config = publisher_New \<lparr>pc_max_retries = 0, pc_backoff = 0, pc_poll = 0, pc_batch = 0,
       pc_workers = 0, pc_concurrency = 0, pc_lease = 0\<rparr>,
     od_presence = True, od_conv_repo = True, od_cb = (\<lambda>f (s, b). case f b of (r, b') \<Rightarrow> (r, (s, b'))),
     od_prefix = [], od_push_partitions = 4,
     od_partial = (\<lambda>b. \<lparr>pe_mid = 0, pe_seq = 0, pe_sender = 0, pe_client_id = [], pe_conv = 0, pe_type = 0,
                       pe_content = Raw_none, pe_preview = [], pe_created = 0, pe_members = []\<rparr>)\<rparr>"

definition demo_publish_env :: publish_env where
  "demo_publish_env = \<lparr>oe_now = 3002, oe_jitter = 0, oe_uuid = (\<lambda>p. ''u''), oe_dlq_uuid = ''v'', oe_order = rev\<rparr>"

definition demo_event :: persisted_event where
  "demo_event = \<lparr>pe_mid = 100, pe_seq = 1, pe_sender = 9, pe_client_id = ''a'', pe_conv = 5, pe_type = 1,
     pe_content = Raw_none, pe_preview = [], pe_created = 2000, pe_members = [9, 7]\<rparr>"

definition demo_claimed_db :: db where
  "demo_claimed_db = empty_db\<lparr>d_outbox := [\<lparr>ob_mid = 100, ob_event = OutboxEventPush, ob_shard = 5, ob_payload = Event demo_event,
     ob_status = OutboxRetrying, ob_retry_count = 0, ob_next_retry = 8000, ob_locked_by = Some ''w'',
     ob_locked_at = Some 3000, ob_published_at = None, ob_last_error = [], ob_created = 2000\<rparr>]\<rparr>"

definition demo_outbox_world :: "unit outbox_world" where
  "demo_outbox_world = \<lparr>ow_db = (demo_claimed_db, []),
     ow_redis = snd (presence_Register demo_presence 3000 demo_route empty_redis),
     ow_kafka = (Map.empty, \<lparr>bk_log = [], bk_faults = []\<rparr>)\<rparr>"

definition demo_claimed :: outbox_record where
  "demo_claimed = \<lparr>or_mid = 100, or_event = OutboxEventPush, or_status = OutboxRetrying, or_retry_count = 0,
     or_last_error = [], or_shard = 5, or_conv = 5, or_payload = Event demo_event\<rparr>"

lemma demo_publication:
  "map (\<lambda>r. (ob_mid r, ob_event r, unfinished (ob_status r))) (d_outbox demo_claimed_db) = [(100, 1, True)]
   \<and> or_mid demo_claimed = 100 \<and> or_status demo_claimed = OutboxRetrying
   \<and> map (\<lambda>r. (ob_mid r, ob_event r, unfinished (ob_status r)))
       (d_outbox (fst (ow_db (publishOne demo_publisher demo_publish_env ''w'' demo_claimed demo_outbox_world)))) = [(100, 1, False)]
   \<and> map (\<lambda>k. (k_topic k, k_partition k))
       (ow_log (publishOne demo_publisher demo_publish_env ''w'' demo_claimed demo_outbox_world)) = [(PushTopic [], Some 3)]
   \<and> (case fst (routeTargets demo_publisher 3002 (record_event demo_publisher demo_claimed) demo_outbox_world) of
        Inr t \<Rightarrow> t = [(3, [7])] | Inl e \<Rightarrow> False)"
  by code_simp



lemma slots_are_exclusive_witness:
  "let c = publisher_New \<lparr>pc_max_retries = 0, pc_backoff = 0, pc_poll = 0, pc_batch = 0, pc_workers = 2,
             pc_concurrency = 0, pc_lease = 0\<rparr>;
       s0 = \<lparr>lk_held = Map.empty, lk_faults = []\<rparr>;
       (r1, s1) = acquireWorkerSlot c ''ab'' 11 s0;
       (r2, s2) = acquireWorkerSlot c ''ab'' 12 s1
   in r1 = Inr (0, lock_name ''ab'' 0) \<and> r2 = Inr (1, lock_name ''ab'' 1)
      \<and> set (OutboxShardsForWorker 0 2) \<inter> set (OutboxShardsForWorker 1 2) = {}"
proof -
  define c where "c = publisher_New \<lparr>pc_max_retries = 0, pc_backoff = 0, pc_poll = 0, pc_batch = 0, pc_workers = 2,
             pc_concurrency = 0, pc_lease = 0\<rparr>"
  have w: "pc_workers c = 2" by (simp add: c_def publisher_New_def Let_def)
  have ne: "lock_name ''ab'' 0 \<noteq> lock_name ''ab'' 1" by code_simp
  define s2 where "s2 = \<lparr>lk_held = [lock_name ''ab'' 0 \<mapsto> 11, lock_name ''ab'' 1 \<mapsto> (12 :: nat)], lk_faults = [] :: gerr fault list\<rparr>"
  have "set (OutboxShardsForWorker 0 (pc_workers c)) \<inter> set (OutboxShardsForWorker 1 (pc_workers c)) = {}"
    using slots_are_exclusive [of 0 c 1 11 12 "''ab''" s2] ne by (simp add: w s2_def checkWorkerLock_def)
  moreover have "acquireWorkerSlot c ''ab'' conn s = acquire_from ''ab'' conn (Suc (Suc 0)) 0 s" for conn s
    by (simp add: acquireWorkerSlot_def w numeral_2_eq_2)
  ultimately show ?thesis
    using ne by (simp add: c_def [symmetric] w get_lock_def Let_def)
qed

section \<open>Where the code departs from its comments\<close>

text \<open>
  A payload that is an event but not the one of its row is sent to the dead letters as a new
  envelope made from it, not as the stored JSON that \<open>Claim\<close> means to keep.
\<close>

lemma mismatched_payload_is_rewritten:
  assumes "or_payload rec = Event e" and "pe_conv e \<noteq> 0" and "raw_ok (pe_content e)"
  shows "\<exists>env. dlq_original D E rec KNone = KEnv env \<and> conversation_id env = FormatInt (or_conv rec)"
  using assms by (simp add: dlq_original_def record_event_def NewEnvelope_def toPushEvent_def)

text \<open>With nothing pending, the age that the metric reports is the largest duration instead of zero.\<close>

lemma empty_queue_has_maximal_age:
  assumes "\<forall>r \<in> set (d_outbox d). \<not> unfinished (ob_status r)" and "0 \<le> now"
  shows "fst (OldestPendingAge now (d, [])) = Inr int64_max"
proof -
  have "filter (\<lambda>r. unfinished (ob_status r)) (d_outbox d) = []" using assms(1) by (simp add: filter_empty_conv)
  then show ?thesis using assms(2)
    by (simp add: OldestPendingAge_def zero_time_def time_Since_def int64_max_def int64_min_def)
qed

end
