(* ===== verification/Connection.thy ===== *)
theory Connection
  imports Kafka RedisStore
begin

text \<open>
  The connections of a gateway process: \<open>transport/websocket/connection.go\<close> (the bounded outbound
  queue of one socket) and \<open>connection/manager.go\<close> (the table of connections by id and by user,
  with its copy in the presence registry); events of \<open>connection/event.go\<close>.
\<close>

section \<open>Events\<close>

text \<open>The data of the events that the server sends, by event.\<close>

datatype event_data =
    PersistedData string int int int int
  | NewMessageData int string int int int string raw int
  | AcceptedData string int int
  | ReadData int int int
  | ReadyData string int string int int
  | PingData int
  | ErrorData string string bool int

record conn_event =
  ev_name :: string
  ev_request :: string
  ev_data :: event_data

text \<open>\<open>NewEvent\<close> fails when the data does not marshal: a message body that is not JSON.\<close>

fun event_data_ok :: "event_data \<Rightarrow> bool" where
  "event_data_ok (NewMessageData mid cid c s sender ct content t) \<longleftrightarrow> raw_ok content"
| "event_data_ok _ \<longleftrightarrow> True"

definition NewEvent :: "string \<Rightarrow> event_data \<Rightarrow> gerr + conn_event" where
  "NewEvent name d =
     (if event_data_ok d then Inr \<lparr>ev_name = name, ev_request = [], ev_data = d\<rparr>
      else Inl (OtherError ''json: invalid raw message''))"

section \<open>One connection\<close>

text \<open>
  \<open>Conn\<close>: the queue \<open>send\<close> with its capacity, whether the channel is closed, the closed flag, the
  times of the last pong and of the begin of a stall in milliseconds (0: none).
\<close>

record conn =
  cn_id :: string
  cn_user :: int
  cn_device :: string
  cn_queue :: "conn_event list"
  cn_capacity :: nat
  cn_chan_closed :: bool
  cn_closed :: bool
  cn_timeout :: int
  cn_last_pong :: int
  cn_stalled :: int

definition NewConn :: "string \<Rightarrow> int \<Rightarrow> string \<Rightarrow> int \<Rightarrow> int \<Rightarrow> int \<Rightarrow> conn" where
  "NewConn i u dev queueSize queueTimeout now =
     \<lparr>cn_id = i, cn_user = u, cn_device = dev, cn_queue = [],
      cn_capacity = nat (if queueSize \<le> 0 then 256 else queueSize), cn_chan_closed = False, cn_closed = False,
      cn_timeout = (if queueTimeout \<le> 0 then 30000 else queueTimeout), cn_last_pong = now, cn_stalled = 0\<rparr>"

text \<open>
  \<open>Push\<close> in its two steps, between which other goroutines can run: the check of the closed flag
  with the marshalling, and the send, which panics (\<open>None\<close>) on a closed channel.
\<close>

definition push_check :: "conn_event \<Rightarrow> conn \<Rightarrow> gerr option" where
  "push_check ev c =
     (if cn_closed c then Some (Sentinel ErrClosed)
      else if \<not> event_data_ok (ev_data ev) then Some (Internal (Some (OtherError ''json: invalid raw message'')))
      else None)"

definition push_send :: "int \<Rightarrow> conn_event \<Rightarrow> conn \<Rightarrow> (gerr option \<times> conn) option" where
  "push_send now ev c =
     (if cn_chan_closed c then None
      else if length (cn_queue c) < cn_capacity c
      then Some (None, c\<lparr>cn_queue := cn_queue c @ [ev], cn_stalled := 0\<rparr>)
      else Some (Some (Sentinel ErrQueueFull), if cn_stalled c = 0 then c\<lparr>cn_stalled := now\<rparr> else c))"

definition conn_Push :: "int \<Rightarrow> conn_event \<Rightarrow> conn \<Rightarrow> (gerr option \<times> conn) option" where
  "conn_Push now ev c = (case push_check ev c of Some e \<Rightarrow> Some (Some e, c) | None \<Rightarrow> push_send now ev c)"

definition StallDuration :: "int \<Rightarrow> conn \<Rightarrow> int" where
  "StallDuration now c = (if cn_stalled c = 0 then 0 else now - cn_stalled c)"

definition MarkPong :: "int \<Rightarrow> conn \<Rightarrow> conn" where
  "MarkPong now c = c\<lparr>cn_last_pong := now\<rparr>"

text \<open>\<open>Close\<close> runs once; the socket itself is only sent a close frame.\<close>

definition conn_Close :: "conn \<Rightarrow> conn" where
  "conn_Close c = (if cn_closed c then c else c\<lparr>cn_closed := True, cn_chan_closed := True\<rparr>)"

text \<open>
  One turn of the writer: the next queued event is written (\<open>dl\<close>: the write deadline is set, without
  which the loop ends and leaves the connection open; \<open>ok\<close>: the write succeeds); with an empty queue
  a stall longer than the handler's \<open>timeout\<close> closes the connection. The answer is the written event
  and whether the loop goes on.
\<close>

definition writer_turn :: "int \<Rightarrow> int \<Rightarrow> bool \<Rightarrow> bool \<Rightarrow> conn \<Rightarrow> conn_event option \<times> bool \<times> conn" where
  "writer_turn timeout now dl ok c =
     (case cn_queue c of
        ev # rest \<Rightarrow>
          if \<not> dl then (None, False, c\<lparr>cn_queue := rest\<rparr>)
          else if ok then (Some ev, True, c\<lparr>cn_queue := rest\<rparr>)
          else (None, False, conn_Close (c\<lparr>cn_queue := rest\<rparr>))
      | [] \<Rightarrow>
          if cn_chan_closed c then (None, False, c)
          else if timeout < StallDuration now c then (None, False, conn_Close c)
          else (None, True, c))"

text \<open>One tick of the heartbeat: close after the missed periods, else write a ping past the queue.\<close>

definition heartbeat_turn :: "int \<Rightarrow> int \<Rightarrow> int \<Rightarrow> bool \<Rightarrow> conn \<Rightarrow> conn_event option \<times> bool \<times> conn" where
  "heartbeat_turn interval missed now ok c =
     (if missed * interval < now - cn_last_pong c then (None, False, conn_Close c)
      else if ok then (Some \<lparr>ev_name = ''heartbeat.ping'', ev_request = [], ev_data = PingData now\<rparr>, True, c)
      else (None, False, conn_Close c))"

section \<open>The manager\<close>

text \<open>
  \<open>Manager\<close>: the connections by id, the ids by user (in an order that Go does not fix) and the
  counter. The presence registry is optional; its errors are dropped.
\<close>

record manager =
  mg_node :: string
  mg_partition :: int
  mg_presence :: "presence_conf option"
  mg_conns :: "string \<rightharpoonup> conn"
  mg_by_user :: "int \<rightharpoonup> string list"
  mg_active :: int

definition NewManagerWithPartition :: "string \<Rightarrow> int \<Rightarrow> presence_conf option \<Rightarrow> manager" where
  "NewManagerWithPartition nodeID partitionID presence =
     \<lparr>mg_node = nodeID, mg_partition = partitionID, mg_presence = presence, mg_conns = Map.empty,
      mg_by_user = Map.empty, mg_active = 0\<rparr>"

definition NewManager :: "string \<Rightarrow> presence_conf option \<Rightarrow> manager" where
  "NewManager nodeID presence = NewManagerWithPartition nodeID 0 presence"

definition user_ids :: "manager \<Rightarrow> int \<Rightarrow> string list" where
  "user_ids m u = (case mg_by_user m u of None \<Rightarrow> [] | Some ids \<Rightarrow> ids)"

definition route_of :: "manager \<Rightarrow> conn \<Rightarrow> route" where
  "route_of m c = \<lparr>rt_conn = cn_id c, rt_user = cn_user c, rt_device = cn_device c, rt_node = mg_node m,
     rt_partition = mg_partition m\<rparr>"

definition mgr_Register :: "int \<Rightarrow> conn \<Rightarrow> manager \<times> redis \<Rightarrow> gerr option \<times> (manager \<times> redis)" where
  "mgr_Register now c st =
     (case st of (m, r) \<Rightarrow>
        let m' = m\<lparr>mg_conns := (mg_conns m)(cn_id c \<mapsto> c),
                   mg_by_user := (mg_by_user m)(cn_user c \<mapsto>
                     (if cn_id c \<in> set (user_ids m (cn_user c)) then user_ids m (cn_user c)
                      else user_ids m (cn_user c) @ [cn_id c])),
                   mg_active := mg_active m + 1\<rparr>
        in (None, (m', case mg_presence m of
                         None \<Rightarrow> r
                       | Some conf \<Rightarrow> snd (presence_Register conf now (route_of m c) r))))"

definition mgr_Unregister :: "conn \<Rightarrow> manager \<times> redis \<Rightarrow> manager \<times> redis" where
  "mgr_Unregister c st =
     (case st of (m, r) \<Rightarrow>
        ((case mg_conns m (cn_id c) of
            None \<Rightarrow> m
          | Some _ \<Rightarrow>
              m\<lparr>mg_conns := (mg_conns m)(cn_id c := None),
                mg_by_user := (case mg_by_user m (cn_user c) of
                    None \<Rightarrow> mg_by_user m
                  | Some ids \<Rightarrow>
                      (let ids' = removeAll (cn_id c) ids in
                       (mg_by_user m)(cn_user c := (if ids' = [] then None else Some ids')))),
                mg_active := mg_active m - 1\<rparr>),
         case mg_presence m of None \<Rightarrow> r | Some _ \<Rightarrow> snd (presence_Remove (cn_id c) (cn_user c) r)))"

text \<open>Pushing to connections of the table; \<open>None\<close> is the panic of a send on a closed channel.\<close>

definition PushToConnection :: "int \<Rightarrow> string \<Rightarrow> conn_event \<Rightarrow> manager \<Rightarrow> (gerr option \<times> manager) option" where
  "PushToConnection now cid ev m =
     (case mg_conns m cid of
        None \<Rightarrow> Some (Some (Sentinel ErrConnectionNotFound), m)
      | Some c \<Rightarrow>
          (case conn_Push now ev c of
             None \<Rightarrow> None
           | Some (e, c') \<Rightarrow> Some (e, m\<lparr>mg_conns := (mg_conns m)(cid \<mapsto> c')\<rparr>)))"

record push_failure =
  pf_user :: int
  pf_conn :: string
  pf_reason :: string

fun push_ids ::
  "int \<Rightarrow> int \<Rightarrow> conn_event \<Rightarrow> string list \<Rightarrow> manager \<Rightarrow> (nat \<times> push_failure list \<times> manager) option" where
  "push_ids now u ev [] m = Some (0, [], m)"
| "push_ids now u ev (i # ids) m =
     (case PushToConnection now i ev m of
        None \<Rightarrow> None
      | Some (e, m1) \<Rightarrow>
          (case push_ids now u ev ids m1 of
             None \<Rightarrow> None
           | Some (n, fs, m2) \<Rightarrow>
               Some (case e of
                   None \<Rightarrow> (Suc n, fs, m2)
                 | Some err \<Rightarrow> (n, \<lparr>pf_user = u, pf_conn = i, pf_reason = Error err\<rparr> # fs, m2))))"

definition PushToUserWithFailures ::
  "int \<Rightarrow> int \<Rightarrow> conn_event \<Rightarrow> manager \<Rightarrow> (nat \<times> push_failure list \<times> manager) option" where
  "PushToUserWithFailures now u ev m =
     push_ids now u ev (filter (\<lambda>i. mg_conns m i \<noteq> None) (user_ids m u)) m"

definition PushToUser :: "int \<Rightarrow> int \<Rightarrow> conn_event \<Rightarrow> manager \<Rightarrow> (nat \<times> manager) option" where
  "PushToUser now u ev m = map_option (\<lambda>(n, fs, m'). (n, m')) (PushToUserWithFailures now u ev m)"

section \<open>Facts\<close>

text \<open>A connection that no other goroutine closes in between: the two flags agree.\<close>

definition conn_ok :: "conn \<Rightarrow> bool" where
  "conn_ok c \<longleftrightarrow> (cn_chan_closed c \<longrightarrow> cn_closed c) \<and> length (cn_queue c) \<le> cn_capacity c \<and> 0 < cn_capacity c"

text \<open>The tables agree: a user's ids are exactly the ids of the connections of that user.\<close>

definition manager_inv :: "manager \<Rightarrow> bool" where
  "manager_inv m \<longleftrightarrow> finite (dom (mg_conns m)) \<and> mg_active m = int (card (dom (mg_conns m)))
     \<and> (\<forall>i c. mg_conns m i = Some c \<longrightarrow> cn_id c = i \<and> conn_ok c)
     \<and> (\<forall>u. mg_by_user m u \<noteq> Some [] \<and> distinct (user_ids m u)
          \<and> set (user_ids m u) = {i. \<exists>c. mg_conns m i = Some c \<and> cn_user c = u})"

lemma NewConn_ok: "conn_ok (NewConn i u dev qs qt now)"
  by (simp add: conn_ok_def NewConn_def)

lemma NewManager_inv: "manager_inv (NewManagerWithPartition n p pr)"
  by (simp add: manager_inv_def NewManagerWithPartition_def user_ids_def)

lemma conn_Push_cases:
  assumes "conn_ok c"
  obtains (queued) "conn_Push now ev c = Some (None, c\<lparr>cn_queue := cn_queue c @ [ev], cn_stalled := 0\<rparr>)"
      "\<not> cn_closed c" "length (cn_queue c) < cn_capacity c"
    | (failed) e c' where "conn_Push now ev c = Some (Some e, c')" "c' = c \<or> (\<exists>t. c' = c\<lparr>cn_stalled := t\<rparr>)"
        "cn_closed c \<or> \<not> event_data_ok (ev_data ev) \<or> length (cn_queue c) = cn_capacity c"
proof (cases "cn_closed c \<or> \<not> event_data_ok (ev_data ev)")
  case True
  then obtain e where e: "conn_Push now ev c = Some (Some e, c)"
    by (cases "cn_closed c") (simp_all add: conn_Push_def push_check_def)
  show ?thesis by (rule failed [OF e]) (use True in blast)+
next
  case False
  then have f: "push_check ev c = None" "\<not> cn_closed c" "\<not> cn_chan_closed c"
    using assms by (auto simp: push_check_def conn_ok_def)
  show ?thesis
  proof (cases "length (cn_queue c) < cn_capacity c")
    case True
    with f have "conn_Push now ev c = Some (None, c\<lparr>cn_queue := cn_queue c @ [ev], cn_stalled := 0\<rparr>)"
      by (simp add: conn_Push_def push_send_def)
    from queued [OF this f(2) True] show ?thesis .
  next
    case False
    with assms have full: "length (cn_queue c) = cn_capacity c" by (simp add: conn_ok_def)
    have e: "conn_Push now ev c = Some (Some (Sentinel ErrQueueFull), if cn_stalled c = 0 then c\<lparr>cn_stalled := now\<rparr> else c)"
      using f False by (simp add: conn_Push_def push_send_def)
    show ?thesis by (rule failed [OF e]) (use full in \<open>auto split: if_splits\<close>)
  qed
qed

lemma conn_Push_ok:
  assumes "conn_ok c" and "conn_Push now ev c = Some (e, c')"
  shows "conn_ok c' \<and> cn_id c' = cn_id c \<and> cn_user c' = cn_user c
    \<and> cn_queue c' = (if e = None then cn_queue c @ [ev] else cn_queue c)"
  using assms(1)
proof (cases rule: conn_Push_cases [of c now ev])
  case queued
  with assms show ?thesis by (auto simp: conn_ok_def)
next
  case (failed e0 c0)
  with assms show ?thesis by (auto simp: conn_ok_def)
qed

lemma manager_inv_conn:
  assumes "manager_inv m" and "mg_conns m i = Some c" and "conn_ok c'" and "cn_id c' = cn_id c" and "cn_user c' = cn_user c"
  shows "manager_inv (m\<lparr>mg_conns := (mg_conns m)(i \<mapsto> c')\<rparr>)"
proof -
  have d: "dom ((mg_conns m)(i \<mapsto> c')) = dom (mg_conns m)" using assms(2) by auto
  have s: "{j. \<exists>c. ((mg_conns m)(i \<mapsto> c')) j = Some c \<and> cn_user c = u} = {j. \<exists>c. mg_conns m j = Some c \<and> cn_user c = u}" for u
    using assms(2,5) by auto
  have u: "user_ids (m\<lparr>mg_conns := (mg_conns m)(i \<mapsto> c')\<rparr>) = user_ids m"
    by (simp add: user_ids_def fun_eq_iff)
  show ?thesis
    using assms insert_absorb [OF domI [of "mg_conns m" i c]]
    by (auto simp: manager_inv_def u s simp del: fun_upd_apply) (auto split: if_splits)
qed

lemma PushToConnection_inv:
  assumes "manager_inv m" and "mg_conns m i = Some c"
  obtains e c' where "conn_Push now ev c = Some (e, c')" "PushToConnection now i ev m = Some (e, m\<lparr>mg_conns := (mg_conns m)(i \<mapsto> c')\<rparr>)"
    "manager_inv (m\<lparr>mg_conns := (mg_conns m)(i \<mapsto> c')\<rparr>)"
proof -
  have ok: "conn_ok c" using assms by (auto simp: manager_inv_def)
  obtain e c' where p: "conn_Push now ev c = Some (e, c')"
    using ok by (cases rule: conn_Push_cases [of c now ev]) auto
  from conn_Push_ok [OF ok p] manager_inv_conn [OF assms, of c'] p assms(2) that show ?thesis
    by (simp add: PushToConnection_def)
qed

lemma Register_inv:
  assumes "manager_inv m" and "mg_conns m (cn_id c) = None" and "conn_ok c"
  shows "manager_inv (fst (snd (mgr_Register now c (m, r))))"
proof -
  let ?m = "fst (snd (mgr_Register now c (m, r)))"
  have new: "cn_id c \<notin> set (user_ids m (cn_user c))" using assms by (auto simp: manager_inv_def)
  have conns: "mg_conns ?m = (mg_conns m)(cn_id c \<mapsto> c)" and act: "mg_active ?m = mg_active m + 1"
    and byu: "mg_by_user ?m = (mg_by_user m)(cn_user c \<mapsto> user_ids m (cn_user c) @ [cn_id c])"
    using new by (simp_all add: mgr_Register_def Let_def)
  have u: "user_ids ?m u = (if u = cn_user c then user_ids m u @ [cn_id c] else user_ids m u)" for u
    by (simp add: user_ids_def byu)
  have card: "card (insert (cn_id c) (dom (mg_conns m))) = Suc (card (dom (mg_conns m)))"
    using assms by (intro card_insert_disjoint) (auto simp: manager_inv_def)
  have ids: "set (user_ids m v) = {i. \<exists>c. mg_conns m i = Some c \<and> cn_user c = v}" "distinct (user_ids m v)"
    "mg_by_user m v \<noteq> Some []" for v
    using assms(1) by (auto simp: manager_inv_def)
  show ?thesis
    unfolding manager_inv_def conns act u
    using assms card new ids by (auto simp: byu manager_inv_def)
qed

lemma Unregister_inv:
  assumes inv: "manager_inv m" and c: "mg_conns m (cn_id c) = None \<or> (\<exists>c0. mg_conns m (cn_id c) = Some c0 \<and> cn_user c0 = cn_user c)"
  shows "manager_inv (fst (mgr_Unregister c (m, r)))"
proof (cases "mg_conns m (cn_id c)")
  case None
  with inv show ?thesis by (simp add: mgr_Unregister_def)
next
  case (Some c0)
  then have cu: "cn_user c0 = cn_user c" using c by simp
  let ?m = "fst (mgr_Unregister c (m, r))"
  have ids: "set (user_ids m v) = {i. \<exists>c. mg_conns m i = Some c \<and> cn_user c = v}" "distinct (user_ids m v)"
    "mg_by_user m v \<noteq> Some []" for v
    using inv by (auto simp: manager_inv_def)
  have "cn_id c \<in> set (user_ids m (cn_user c))" using ids(1) Some cu by auto
  then obtain idl where isl: "mg_by_user m (cn_user c) = Some idl" "user_ids m (cn_user c) = idl"
    by (cases "mg_by_user m (cn_user c)") (auto simp: user_ids_def)
  have conns: "mg_conns ?m = (mg_conns m)(cn_id c := None)" and act: "mg_active ?m = mg_active m - 1"
    and byu: "mg_by_user ?m = (mg_by_user m)(cn_user c := (if removeAll (cn_id c) idl = [] then None else Some (removeAll (cn_id c) idl)))"
    using Some isl by (simp_all add: mgr_Unregister_def Let_def)
  have u: "user_ids ?m v = (if v = cn_user c then removeAll (cn_id c) idl else user_ids m v)" for v
    by (simp add: user_ids_def byu)
  have fin: "finite (dom (mg_conns m))" using inv by (simp add: manager_inv_def)
  have dom: "cn_id c \<in> dom (mg_conns m)" using Some by auto
  have card: "int (card (dom (mg_conns m) - {cn_id c})) = int (card (dom (mg_conns m))) - 1"
    using card_Suc_Diff1 [OF fin dom] by simp
  have sets: "set (user_ids ?m v) = {i. \<exists>c'. ((mg_conns m)(cn_id c := None)) i = Some c' \<and> cn_user c' = v}" for v
    using ids(1) [of v] ids(1) [of "cn_user c"] Some cu isl(2) unfolding u by auto
  have dist: "distinct (user_ids ?m v)" for v using ids(2) [of v] ids(2) [of "cn_user c"] isl(2) unfolding u by (auto simp: distinct_removeAll)
  show ?thesis
    unfolding manager_inv_def conns act sets
    using inv card fin dist ids(3) by (auto simp: byu manager_inv_def)
qed

lemma push_ids_exact:
  assumes "manager_inv m" and "distinct ids" and "\<forall>i \<in> set ids. mg_conns m i \<noteq> None"
  shows "\<exists>n fs m'. push_ids now u ev ids m = Some (n, fs, m') \<and> manager_inv m' \<and> n + length fs = length ids
    \<and> pf_conn ` set fs \<subseteq> set ids \<and> (\<forall>i. i \<notin> set ids \<longrightarrow> mg_conns m' i = mg_conns m i)
    \<and> (\<forall>i \<in> set ids. \<exists>c c'. mg_conns m i = Some c \<and> mg_conns m' i = Some c' \<and> cn_user c' = cn_user c
         \<and> cn_queue c' = (if i \<in> pf_conn ` set fs then cn_queue c else cn_queue c @ [ev]))"
  using assms
proof (induction ids arbitrary: m)
  case Nil
  then show ?case by simp
next
  case (Cons i ids)
  from Cons.prems(3) obtain c where c: "mg_conns m i = Some c" by auto
  have ok: "conn_ok c" using Cons.prems(1) c by (auto simp: manager_inv_def)
  obtain e c' where p: "conn_Push now ev c = Some (e, c')"
    "PushToConnection now i ev m = Some (e, m\<lparr>mg_conns := (mg_conns m)(i \<mapsto> c')\<rparr>)"
    "manager_inv (m\<lparr>mg_conns := (mg_conns m)(i \<mapsto> c')\<rparr>)"
    using PushToConnection_inv [OF Cons.prems(1) c] by blast
  let ?m1 = "m\<lparr>mg_conns := (mg_conns m)(i \<mapsto> c')\<rparr>"
  have q: "cn_user c' = cn_user c" "cn_queue c' = (if e = None then cn_queue c @ [ev] else cn_queue c)"
    using conn_Push_ok [OF ok p(1)] by simp_all
  have "\<forall>j \<in> set ids. mg_conns ?m1 j \<noteq> None" "distinct ids" "i \<notin> set ids" using Cons.prems(2,3) by auto
  with Cons.IH [OF p(3)] obtain n fs m' where ih: "push_ids now u ev ids ?m1 = Some (n, fs, m')" "manager_inv m'"
    "n + length fs = length ids" "pf_conn ` set fs \<subseteq> set ids" "\<forall>j. j \<notin> set ids \<longrightarrow> mg_conns m' j = mg_conns ?m1 j"
    "\<forall>j \<in> set ids. \<exists>c c'. mg_conns ?m1 j = Some c \<and> mg_conns m' j = Some c' \<and> cn_user c' = cn_user c
         \<and> cn_queue c' = (if j \<in> pf_conn ` set fs then cn_queue c else cn_queue c @ [ev])" by blast
  have mi: "mg_conns m' i = Some c'" "i \<notin> pf_conn ` set fs" using ih(4,5) \<open>i \<notin> set ids\<close> by auto
  have rest: "\<forall>j \<in> set ids. \<exists>c c'. mg_conns m j = Some c \<and> mg_conns m' j = Some c' \<and> cn_user c' = cn_user c
         \<and> cn_queue c' = (if j \<in> pf_conn ` set fs then cn_queue c else cn_queue c @ [ev])"
  proof
    fix j assume j: "j \<in> set ids"
    with \<open>i \<notin> set ids\<close> have "mg_conns ?m1 j = mg_conns m j" by auto
    with bspec [OF ih(6) j] show "\<exists>c c'. mg_conns m j = Some c \<and> mg_conns m' j = Some c' \<and> cn_user c' = cn_user c
         \<and> cn_queue c' = (if j \<in> pf_conn ` set fs then cn_queue c else cn_queue c @ [ev])" by simp
  qed
  show ?case
  proof (cases e)
    case None
    have "push_ids now u ev (i # ids) m = Some (Suc n, fs, m')" using p(2) ih(1) None by simp
    then show ?thesis
    proof (intro exI conjI)
      show "manager_inv m'" by (rule ih(2))
      show "Suc n + length fs = length (i # ids)" using ih(3) by simp
      show "pf_conn ` set fs \<subseteq> set (i # ids)" using ih(4) by auto
      show "\<forall>j. j \<notin> set (i # ids) \<longrightarrow> mg_conns m' j = mg_conns m j" using ih(5) by simp
      show "\<forall>j \<in> set (i # ids). \<exists>c c'. mg_conns m j = Some c \<and> mg_conns m' j = Some c' \<and> cn_user c' = cn_user c
         \<and> cn_queue c' = (if j \<in> pf_conn ` set fs then cn_queue c else cn_queue c @ [ev])"
        using rest c mi q None by simp
    qed
  next
    case (Some err)
    let ?f = "\<lparr>pf_user = u, pf_conn = i, pf_reason = Error err\<rparr>"
    have "push_ids now u ev (i # ids) m = Some (n, ?f # fs, m')" using p(2) ih(1) Some by simp
    then show ?thesis
    proof (intro exI conjI)
      show "manager_inv m'" by (rule ih(2))
      show "n + length (?f # fs) = length (i # ids)" using ih(3) by simp
      show "pf_conn ` set (?f # fs) \<subseteq> set (i # ids)" using ih(4) by auto
      show "\<forall>j. j \<notin> set (i # ids) \<longrightarrow> mg_conns m' j = mg_conns m j" using ih(5) by simp
      show "\<forall>j \<in> set (i # ids). \<exists>c c'. mg_conns m j = Some c \<and> mg_conns m' j = Some c' \<and> cn_user c' = cn_user c
         \<and> cn_queue c' = (if j \<in> pf_conn ` set (?f # fs) then cn_queue c else cn_queue c @ [ev])"
      proof
        fix j assume "j \<in> set (i # ids)"
        then consider "j = i" | "j \<noteq> i" "j \<in> set ids" by auto
        then show "\<exists>c c'. mg_conns m j = Some c \<and> mg_conns m' j = Some c' \<and> cn_user c' = cn_user c
         \<and> cn_queue c' = (if j \<in> pf_conn ` set (?f # fs) then cn_queue c else cn_queue c @ [ev])"
        proof cases
          case 1
          then show ?thesis using c mi q Some by simp
        next
          case 2
          then have "(j \<in> pf_conn ` set (?f # fs)) = (j \<in> pf_conn ` set fs)" by simp
          with rest 2 show ?thesis by simp
        qed
      qed
    qed
  qed
qed

text \<open>The steps of a gateway process on its table.\<close>

inductive mgr_step :: "manager \<Rightarrow> manager \<Rightarrow> bool" where
  register: "mg_conns m (cn_id c) = None \<Longrightarrow> c = NewConn i u dev qs qt t \<Longrightarrow>
     mgr_step m (fst (snd (mgr_Register now c (m, r))))"
| unregister: "mg_conns m (cn_id c) = Some c0 \<Longrightarrow> cn_user c0 = cn_user c \<Longrightarrow>
     mgr_step m (fst (mgr_Unregister c (m, r)))"
| push: "PushToConnection now i ev m = Some (e, m') \<Longrightarrow> mgr_step m m'"
| close: "mg_conns m i = Some c \<Longrightarrow> mgr_step m (m\<lparr>mg_conns := (mg_conns m)(i \<mapsto> conn_Close c)\<rparr>)"
| pong: "mg_conns m i = Some c \<Longrightarrow> mgr_step m (m\<lparr>mg_conns := (mg_conns m)(i \<mapsto> MarkPong now c)\<rparr>)"
| writer: "mg_conns m i = Some c \<Longrightarrow> writer_turn timeout now dl ok c = (written, go, c') \<Longrightarrow>
     mgr_step m (m\<lparr>mg_conns := (mg_conns m)(i \<mapsto> c')\<rparr>)"
| heartbeat: "mg_conns m i = Some c \<Longrightarrow> heartbeat_turn interval missed now ok c = (written, go, c') \<Longrightarrow>
     mgr_step m (m\<lparr>mg_conns := (mg_conns m)(i \<mapsto> c')\<rparr>)"

inductive mgr_reachable :: "manager \<Rightarrow> bool" where
  start: "mgr_reachable (NewManagerWithPartition node part presence)"
| step: "mgr_reachable m \<Longrightarrow> mgr_step m m' \<Longrightarrow> mgr_reachable m'"

lemma conn_Close_ok: "conn_ok c \<Longrightarrow> conn_ok (conn_Close c) \<and> cn_id (conn_Close c) = cn_id c \<and> cn_user (conn_Close c) = cn_user c"
  by (simp add: conn_ok_def conn_Close_def)

lemma writer_turn_ok:
  "writer_turn timeout now dl ok c = (written, go, c') \<Longrightarrow> conn_ok c \<Longrightarrow> conn_ok c' \<and> cn_id c' = cn_id c \<and> cn_user c' = cn_user c"
  by (auto simp: writer_turn_def conn_ok_def conn_Close_def split: list.splits if_splits)

lemma heartbeat_turn_ok:
  "heartbeat_turn interval missed now ok c = (written, go, c') \<Longrightarrow> conn_ok c \<Longrightarrow>
     conn_ok c' \<and> cn_id c' = cn_id c \<and> cn_user c' = cn_user c"
  by (auto simp: heartbeat_turn_def conn_ok_def conn_Close_def split: if_splits)

lemma mgr_step_inv: "mgr_step m m' \<Longrightarrow> manager_inv m \<Longrightarrow> manager_inv m'"
proof (induction rule: mgr_step.induct)
  case (register m c i u dev qs qt t now r)
  then show ?case using Register_inv NewConn_ok by blast
next
  case (unregister m c c0 r)
  then show ?case using Unregister_inv by blast
next
  case (push now i ev m e m')
  show ?case
  proof (cases "mg_conns m i")
    case None
    with push show ?thesis by (simp add: PushToConnection_def)
  next
    case (Some c)
    from PushToConnection_inv [OF push(2) Some] push(1) show ?thesis by (metis option.inject prod.inject)
  qed
next
  case (close m i c)
  then have "conn_ok c" by (auto simp: manager_inv_def)
  with conn_Close_ok manager_inv_conn [OF close(2,1)] show ?case by blast
next
  case (pong m i c now)
  then have "conn_ok (MarkPong now c)" "cn_id (MarkPong now c) = cn_id c" "cn_user (MarkPong now c) = cn_user c"
    by (auto simp: manager_inv_def conn_ok_def MarkPong_def)
  then show ?case by (rule manager_inv_conn [OF pong(2,1)])
next
  case (writer m i c now ok written go c')
  then have "conn_ok c" by (auto simp: manager_inv_def)
  with writer_turn_ok [OF writer(2)] manager_inv_conn [OF writer(3,1)] show ?case by blast
next
  case (heartbeat m i c interval missed now ok written go c')
  then have "conn_ok c" by (auto simp: manager_inv_def)
  with heartbeat_turn_ok [OF heartbeat(2)] manager_inv_conn [OF heartbeat(3,1)] show ?case by blast
qed

lemma mgr_reachable_inv: "mgr_reachable m \<Longrightarrow> manager_inv m"
  by (induction rule: mgr_reachable.induct) (auto intro: NewManager_inv mgr_step_inv)

section \<open>Properties\<close>

text \<open>
  C20: In every state that registrations, removals, pushes, heartbeats and the writers can bring the
  table to, the counter is the number of connections, the ids of a user are exactly the
  connections of that user, each once, no user has an empty entry, no queue is longer than its
  capacity, and a channel is closed only together with its flag.
\<close>

theorem manager_tables_agree:
  assumes "mgr_reachable m"
  shows "mg_active m = int (card (dom (mg_conns m)))
    \<and> (\<forall>u. distinct (user_ids m u) \<and> set (user_ids m u) = {i. \<exists>c. mg_conns m i = Some c \<and> cn_user c = u}
         \<and> mg_by_user m u \<noteq> Some [])
    \<and> (\<forall>i c. mg_conns m i = Some c \<longrightarrow> cn_id c = i \<and> length (cn_queue c) \<le> cn_capacity c
         \<and> (cn_chan_closed c \<longrightarrow> cn_closed c))"
  using mgr_reachable_inv [OF assms] by (auto simp: manager_inv_def conn_ok_def)

text \<open>
  C19: A push to a user reaches every connection of that user: the number of deliveries and the
  number of reported failures add up to the number of the user's connections; the event is at the
  end of the queue of each of them that is not reported, the queues of the reported ones are as they
  were, and no other connection is touched.
\<close>

theorem push_reaches_every_connection:
  assumes "mgr_reachable m"
  shows "\<exists>n fs m'. PushToUserWithFailures now u ev m = Some (n, fs, m')
    \<and> n + length fs = card {i. \<exists>c. mg_conns m i = Some c \<and> cn_user c = u}
    \<and> (\<forall>i c. mg_conns m i = Some c \<longrightarrow>
         (if cn_user c = u
          then \<exists>c'. mg_conns m' i = Some c'
             \<and> cn_queue c' = (if i \<in> pf_conn ` set fs then cn_queue c else cn_queue c @ [ev])
          else mg_conns m' i = Some c))"
proof -
  have inv: "manager_inv m" using mgr_reachable_inv [OF assms] .
  let ?ids = "user_ids m u"
  have ids: "distinct ?ids" "set ?ids = {i. \<exists>c. mg_conns m i = Some c \<and> cn_user c = u}"
    using inv by (auto simp: manager_inv_def)
  then have f: "filter (\<lambda>i. mg_conns m i \<noteq> None) ?ids = ?ids" by (auto simp: filter_id_conv)
  have ne: "\<forall>i \<in> set ?ids. mg_conns m i \<noteq> None" using ids(2) by auto
  obtain n fs m' where p: "push_ids now u ev ?ids m = Some (n, fs, m')" "n + length fs = length ?ids"
    "\<forall>i. i \<notin> set ?ids \<longrightarrow> mg_conns m' i = mg_conns m i"
    "\<forall>i \<in> set ?ids. \<exists>c c'. mg_conns m i = Some c \<and> mg_conns m' i = Some c' \<and> cn_user c' = cn_user c
         \<and> cn_queue c' = (if i \<in> pf_conn ` set fs then cn_queue c else cn_queue c @ [ev])"
    using push_ids_exact [OF inv ids(1) ne, of now u ev] by blast
  have "length ?ids = card {i. \<exists>c. mg_conns m i = Some c \<and> cn_user c = u}"
    using distinct_card [OF ids(1)] ids(2) by simp
  moreover have "if cn_user c = u
          then \<exists>c'. mg_conns m' i = Some c'
             \<and> cn_queue c' = (if i \<in> pf_conn ` set fs then cn_queue c else cn_queue c @ [ev])
          else mg_conns m' i = Some c" if c: "mg_conns m i = Some c" for i c
  proof (cases "cn_user c = u")
    case True
    then have "i \<in> set ?ids" using c ids(2) by auto
    with p(4) c True show ?thesis by auto
  next
    case False
    then have "i \<notin> set ?ids" using c ids(2) by auto
    with p(3) c False show ?thesis by auto
  qed
  ultimately show ?thesis using p(1,2) f by (simp add: PushToUserWithFailures_def)
qed

definition demo_conn :: "string \<Rightarrow> int \<Rightarrow> conn" where
  "demo_conn i u = NewConn i u ''web'' 1 0 1000"

definition demo_manager :: manager where
  "demo_manager = fst (snd (mgr_Register 0 (demo_conn ''c2'' 7)
     (fst (snd (mgr_Register 0 (demo_conn ''c1'' 7) (NewManager ''n'' None, empty_redis))), empty_redis)))"

definition demo_ready :: conn_event where
  "demo_ready = \<lparr>ev_name = ''connection.ready'', ev_request = [], ev_data = ReadyData ''c1'' 7 ''web'' 1000 30\<rparr>"

lemma demo_manager_reachable: "mgr_reachable demo_manager"
proof -
  let ?m1 = "fst (snd (mgr_Register 0 (demo_conn ''c1'' 7) (NewManager ''n'' None, empty_redis)))"
  have "mgr_reachable (NewManager ''n'' None)" by (simp add: NewManager_def mgr_reachable.start)
  moreover have "mgr_step (NewManager ''n'' None) ?m1"
    by (rule mgr_step.register [OF _ demo_conn_def]) (simp add: NewManager_def NewManagerWithPartition_def)
  moreover have "mgr_step ?m1 demo_manager"
    unfolding demo_manager_def
    by (rule mgr_step.register [OF _ demo_conn_def])
      (simp add: mgr_Register_def NewManager_def NewManagerWithPartition_def demo_conn_def NewConn_def Let_def)
  ultimately show ?thesis by (blast intro: mgr_reachable.step)
qed

lemma manager_tables_agree_witness:
  "mg_active demo_manager = 2 \<and> set (user_ids demo_manager 7) = {''c1'', ''c2''}"
proof -
  have "set (user_ids demo_manager 7) = {''c1'', ''c2''}" by code_simp
  moreover have "mg_active demo_manager = 2" by code_simp
  ultimately show ?thesis using manager_tables_agree [OF demo_manager_reachable] by blast
qed

lemma push_reaches_every_connection_witness:
  "\<exists>n fs m'. PushToUserWithFailures 5 7 demo_ready demo_manager = Some (n, fs, m') \<and> n + length fs = 2 \<and> n = 2"
proof -
  have n: "map_option fst (PushToUserWithFailures 5 7 demo_ready demo_manager) = Some 2" by code_simp
  have ids: "set (user_ids demo_manager 7) = {''c1'', ''c2''}" by code_simp
  have "{i. \<exists>c. mg_conns demo_manager i = Some c \<and> cn_user c = 7} = {''c1'', ''c2''}"
    using manager_tables_agree [OF demo_manager_reachable] ids by blast
  then have "card {i. \<exists>c. mg_conns demo_manager i = Some c \<and> cn_user c = 7} = 2" by simp
  with push_reaches_every_connection [OF demo_manager_reachable, of 5 7 demo_ready] n show ?thesis by auto
qed

text \<open>
  Between the check of the closed flag and the send, another goroutine can close the connection: the
  send then panics. Only the goroutines of the connection itself recover from that.
\<close>

lemma push_races_with_close:
  assumes "push_check ev c = None"
  shows "push_send now ev (conn_Close c) = None"
  using assms by (simp add: push_check_def push_send_def conn_Close_def split: if_splits)

text \<open>
  The writer looks at the stall only when the queue is empty: a connection whose queue stays full is
  not closed for being slow while its writes succeed, and one whose queue has drained since the last
  refused push is, when no push came in between.
\<close>

lemma slow_check_needs_empty_queue:
  assumes "writer_turn timeout now True True c = (w, go, c')" and "cn_queue c \<noteq> []"
  shows "c' = c\<lparr>cn_queue := tl (cn_queue c)\<rparr> \<and> go"
  using assms by (cases "cn_queue c") (auto simp: writer_turn_def)

lemma drained_connection_is_closed:
  assumes "conn_Push t ev c = Some (Some (Sentinel ErrQueueFull), c1)" and "cn_stalled c = 0" and "t \<noteq> 0"
    and "\<not> cn_chan_closed c" and "timeout < now - t"
  shows "cn_closed (snd (snd (writer_turn timeout now True True (c1\<lparr>cn_queue := []\<rparr>))))"
  using assms
  by (auto simp: conn_Push_def push_check_def push_send_def writer_turn_def StallDuration_def conn_Close_def Internal_def Wrap_def
      split: if_splits)

text \<open>Closing a connection does not take it out of the tables: only the end of its reader does.\<close>

lemma closed_connection_stays_registered:
  assumes "manager_inv m" and "mg_conns m i = Some c"
  shows "\<exists>m'. mgr_step m m' \<and> mg_conns m' i = Some (conn_Close c) \<and> mg_active m' = mg_active m
    \<and> i \<in> set (user_ids m' (cn_user c))"
proof (intro exI conjI)
  show "mgr_step m (m\<lparr>mg_conns := (mg_conns m)(i \<mapsto> conn_Close c)\<rparr>)" by (rule mgr_step.close [OF assms(2)])
  show "i \<in> set (user_ids (m\<lparr>mg_conns := (mg_conns m)(i \<mapsto> conn_Close c)\<rparr>) (cn_user c))"
    using assms by (auto simp: user_ids_def manager_inv_def)
qed simp_all

end
