(* ===== verification/Gateway.thy ===== *)
theory Gateway
  imports Connection
begin

text \<open>
  The consumers on the far side of the outbox: \<open>worker/deliver/worker.go\<close>, which takes the push
  events of the partition of its gateway to the connections of the target users, with its short
  memory of message ids and dead letters for failed pushes; and \<open>worker/dlq/worker.go\<close>, which counts
  the dead letters.
\<close>

section \<open>The memory of message ids\<close>

text \<open>\<open>dedupe\<close>: the time of the last mark of each id, in milliseconds.\<close>

type_synonym seen_ids = "(int \<times> int) list"

definition dedupe_ttl :: int where "dedupe_ttl = 300000"

definition Seen :: "int \<Rightarrow> int \<Rightarrow> seen_ids \<Rightarrow> bool" where
  "Seen now i d = (case map_of d i of None \<Rightarrow> False | Some ts \<Rightarrow> now - ts < dedupe_ttl)"

definition Mark :: "int \<Rightarrow> int \<Rightarrow> seen_ids \<Rightarrow> seen_ids" where
  "Mark now i d =
     (let d' = (if 10000 < length d then filter (\<lambda>p. \<not> dedupe_ttl < now - snd p) d else d) in
      (i, now) # filter (\<lambda>p. fst p \<noteq> i) d')"

section \<open>Events\<close>


definition contentType :: "int \<Rightarrow> string" where
  "contentType t =
     (if t = TypeText then ''text'' else if t = TypeImage then ''image'' else if t = TypeFile then ''file''
      else ''text'')"

text \<open>\<open>eventForUser\<close>: the sender learns that the message is persisted, the others get the message.\<close>

definition eventForUser :: "push_event \<Rightarrow> int \<Rightarrow> gerr + conn_event" where
  "eventForUser e u =
     (if u = pu_sender e
      then NewEvent ''message.persisted''
             (PersistedData (pu_client_id e) (pu_mid e) (pu_conv e) (pu_seq e) (pu_created e))
      else NewEvent ''message.new''
             (NewMessageData (pu_mid e) (pu_client_id e) (pu_conv e) (pu_seq e) (pu_sender e)
                (contentType (pu_type e)) (pu_content e) (pu_created e)))"

section \<open>Failures\<close>

definition failure_part :: "push_failure \<Rightarrow> string" where
  "failure_part f =
     ''user_id='' @ FormatInt (pf_user f)
     @ (if pf_conn f \<noteq> [] then '' connection_id='' @ pf_conn f else [])
     @ (if pf_reason f \<noteq> [] then '' reason='' @ map (\<lambda>c. if c = CHR 0x0A then CHR '' '' else c) (pf_reason f) else [])"

fun join_with :: "string \<Rightarrow> string list \<Rightarrow> string" where
  "join_with sep [] = []"
| "join_with sep [x] = x"
| "join_with sep (x # xs) = x @ sep @ join_with sep xs"

definition pushFailureDescription :: "push_failure list \<Rightarrow> string" where
  "pushFailureDescription fs =
     (let d = FormatInt (int (length fs)) @ '' websocket push failure(s): '' @ join_with ''; '' (map failure_part fs) in
      if 1024 < length d then take 1024 d else d)"

section \<open>The deliver worker\<close>

record 's gateway =
  gt_mgr :: manager
  gt_seen :: seen_ids
  gt_kafka :: "'s kafka"
  gt_offsets :: offset_store

record 's gateway_deps =
  gd_cb :: "('s, broker) cb_execute"
  gd_prefix :: string

text \<open>\<open>now\<close> and \<open>uuid\<close> are drawn for one call of \<open>handle\<close>.\<close>

definition deliver_commit :: "kmessage \<Rightarrow> 's gateway \<Rightarrow> gerr option \<times> 's gateway" where
  "deliver_commit m = zoomE gt_offsets (\<lambda>p g. g\<lparr>gt_offsets := p\<rparr>) (CommitMessages [m])"

definition push_dlq :: "int \<Rightarrow> kmessage \<Rightarrow> push_failure list \<Rightarrow> dlq_payload" where
  "push_dlq now m fs =
     DLQPayload (km_topic m) (km_partition m) (km_offset m) 0 ''WEBSOCKET_PUSH_FAILED''
       (pushFailureDescription fs) now (km_value m)"

definition pushFailuresToDLQ ::
  "'s gateway_deps \<Rightarrow> int \<Rightarrow> string \<Rightarrow> kmessage \<Rightarrow> push_event \<Rightarrow> push_failure list
     \<Rightarrow> 's gateway \<Rightarrow> gerr option \<times> 's gateway" where
  "pushFailuresToDLQ D now uuid m e fs g =
     (case NewEnvelope uuid now EventDLQ ''gateway-worker'' (pu_conv e) (DDlq (push_dlq now m fs)) of
        Inl err \<Rightarrow> (Some err, g)
      | Inr env \<Rightarrow> zoomE gt_kafka (\<lambda>p g. g\<lparr>gt_kafka := p\<rparr>) (PublishDLQ (gd_cb D) (gd_prefix D) env) g)"

text \<open>The loop over the target users; \<open>None\<close> is a panic of a push.\<close>

fun push_users :: "int \<Rightarrow> push_event \<Rightarrow> int list \<Rightarrow> manager \<Rightarrow> (push_failure list \<times> manager) option" where
  "push_users now e [] m = Some ([], m)"
| "push_users now e (u # us) m =
     (if u \<le> 0 then push_users now e us m
      else
        (case eventForUser e u of
           Inl err \<Rightarrow>
             map_option (\<lambda>(fs, m'). (\<lparr>pf_user = u, pf_conn = [], pf_reason = Error err\<rparr> # fs, m'))
               (push_users now e us m)
         | Inr ev \<Rightarrow>
             (case PushToUserWithFailures now u ev m of
                None \<Rightarrow> None
              | Some (n, fs, m1) \<Rightarrow> map_option (\<lambda>(fs2, m'). (fs @ fs2, m')) (push_users now e us m1))))"

definition deliver_handle ::
  "'s gateway_deps \<Rightarrow> int \<Rightarrow> string \<Rightarrow> kmessage \<Rightarrow> 's gateway \<Rightarrow> (gerr option \<times> 's gateway) option" where
  "deliver_handle D now uuid m g =
     (case decode_envelope (km_value m) of
        Inl env \<Rightarrow> Some (deliver_commit m g)
      | Inr env \<Rightarrow>
          if event_type env \<noteq> EventPush then Some (deliver_commit m g)
          else
            (case as_push zero_time (event_data env) of
               None \<Rightarrow> Some (deliver_commit m g)
             | Some e \<Rightarrow>
                 if Seen now (pu_mid e) (gt_seen g) then Some (deliver_commit m g)
                 else
                   (case push_users now e (pu_targets e) (gt_mgr g) of
                      None \<Rightarrow> None
                    | Some (fs, mgr) \<Rightarrow>
                        (case (if fs \<noteq> [] then pushFailuresToDLQ D now uuid m e fs (g\<lparr>gt_mgr := mgr\<rparr>)
                               else (None, g\<lparr>gt_mgr := mgr\<rparr>)) of
                           (Some err, g1) \<Rightarrow> Some (Some err, g1)
                         | (None, g1) \<Rightarrow>
                             Some (deliver_commit m (g1\<lparr>gt_seen := Mark now (pu_mid e) (gt_seen g1)\<rparr>))))))"

text \<open>\<open>handleWithRetry\<close>, at most \<open>n\<close> rounds; \<open>stop k\<close> is the end of the context in round \<open>k\<close>.\<close>

fun deliver_retry ::
  "'s gateway_deps \<Rightarrow> (nat \<Rightarrow> int) \<Rightarrow> (nat \<Rightarrow> string) \<Rightarrow> (nat \<Rightarrow> gerr option) \<Rightarrow> kmessage \<Rightarrow> nat \<Rightarrow> nat
     \<Rightarrow> 's gateway \<Rightarrow> (gerr option \<times> 's gateway) option" where
  "deliver_retry D now uuid stop m 0 k g = None"
| "deliver_retry D now uuid stop m (Suc n) k g =
     (case deliver_handle D (now k) (uuid k) m g of
        None \<Rightarrow> None
      | Some (None, g') \<Rightarrow> Some (None, g')
      | Some (Some e, g') \<Rightarrow>
          (case stop k of Some c \<Rightarrow> Some (Some c, g') | None \<Rightarrow> deliver_retry D now uuid stop m n (Suc k) g'))"

section \<open>The dead letter worker\<close>

definition parseDLQ :: "kvalue \<Rightarrow> string \<times> string" where
  "parseDLQ v =
     (case decode_envelope v of
        Inl env \<Rightarrow> (''unknown'', ''PARSE_ERROR'')
      | Inr env \<Rightarrow>
          (case as_dlq zero_time (event_data env) of
             None \<Rightarrow> (''unknown'', ''PARSE_ERROR'')
           | Some p \<Rightarrow> (if failed_topic p = [] then ''unknown'' else failed_topic p, error_code p)))"

text \<open>
  One record: count it by topic and code, then commit until the commit succeeds, at most \<open>n\<close> times;
  the answer says whether it did.
\<close>

fun dlq_commit :: "kmessage \<Rightarrow> nat \<Rightarrow> offset_store \<Rightarrow> bool \<times> offset_store" where
  "dlq_commit m 0 os = (False, os)"
| "dlq_commit m (Suc n) os =
     (case CommitMessages [m] os of
        (None, os') \<Rightarrow> (True, os')
      | (Some e, os') \<Rightarrow> dlq_commit m n os')"

definition dlq_handle ::
  "nat \<Rightarrow> kmessage \<Rightarrow> (string \<times> string \<Rightarrow> nat) \<times> offset_store \<Rightarrow> bool \<times> (string \<times> string \<Rightarrow> nat) \<times> offset_store" where
  "dlq_handle n m st =
     (case st of (counts, os) \<Rightarrow>
        let key = parseDLQ (km_value m) in
        case dlq_commit m n os of (done, os') \<Rightarrow> (done, counts(key := counts key + 1), os'))"

section \<open>Facts\<close>

lemma Mark_distinct: "distinct (map fst d) \<Longrightarrow> distinct (map fst (Mark now i d))"
  by (auto simp: Mark_def Let_def distinct_map_filter)

lemma PushToUser_exact:
  assumes "manager_inv m"
  shows "\<exists>n fs m'. PushToUserWithFailures now u ev m = Some (n, fs, m') \<and> manager_inv m'
    \<and> pf_conn ` set fs \<subseteq> {i. \<exists>c. mg_conns m i = Some c \<and> cn_user c = u}
    \<and> (\<forall>i c. mg_conns m i = Some c \<longrightarrow> (\<exists>c'. mg_conns m' i = Some c' \<and> cn_user c' = cn_user c
         \<and> cn_queue c' = (if cn_user c = u \<and> i \<notin> pf_conn ` set fs then cn_queue c @ [ev] else cn_queue c)))
    \<and> (\<forall>i. mg_conns m i = None \<longrightarrow> mg_conns m' i = None)"
proof -
  let ?ids = "user_ids m u"
  have ids: "distinct ?ids" "set ?ids = {i. \<exists>c. mg_conns m i = Some c \<and> cn_user c = u}"
    using assms by (auto simp: manager_inv_def)
  then have f: "filter (\<lambda>i. mg_conns m i \<noteq> None) ?ids = ?ids" by (auto simp: filter_id_conv)
  have ne: "\<forall>i \<in> set ?ids. mg_conns m i \<noteq> None" using ids(2) by auto
  obtain n fs m' where p: "push_ids now u ev ?ids m = Some (n, fs, m')" "manager_inv m'" "pf_conn ` set fs \<subseteq> set ?ids"
    "\<forall>i. i \<notin> set ?ids \<longrightarrow> mg_conns m' i = mg_conns m i"
    "\<forall>i \<in> set ?ids. \<exists>c c'. mg_conns m i = Some c \<and> mg_conns m' i = Some c' \<and> cn_user c' = cn_user c
         \<and> cn_queue c' = (if i \<in> pf_conn ` set fs then cn_queue c else cn_queue c @ [ev])"
    using push_ids_exact [OF assms ids(1) ne, of now u ev] by blast
  have "\<exists>c'. mg_conns m' i = Some c' \<and> cn_user c' = cn_user c
         \<and> cn_queue c' = (if cn_user c = u \<and> i \<notin> pf_conn ` set fs then cn_queue c @ [ev] else cn_queue c)"
    if c: "mg_conns m i = Some c" for i c
  proof (cases "cn_user c = u")
    case True
    then have "i \<in> set ?ids" using c ids(2) by auto
    from bspec [OF p(5) this] c True show ?thesis by auto
  next
    case False
    then have "i \<notin> set ?ids" using c ids(2) by auto
    with p(4) c False show ?thesis by auto
  qed
  moreover have "\<forall>i. mg_conns m i = None \<longrightarrow> mg_conns m' i = None" using p(4) ne by metis
  ultimately show ?thesis using p(1-3) f ids(2) by (simp add: PushToUserWithFailures_def)
qed

text \<open>What the loop over the targets does to the connections: each connection of a target gets its event.\<close>

definition handed :: "push_event \<Rightarrow> int list \<Rightarrow> push_failure list \<Rightarrow> conn \<Rightarrow> conn_event list" where
  "handed e targets fs c =
     (if cn_user c \<in> set targets \<and> 0 < cn_user c
      then (case eventForUser e (cn_user c) of
              Inr ev \<Rightarrow> (if cn_id c \<in> pf_conn ` set fs then [] else [ev])
            | Inl err \<Rightarrow> [])
      else [])"

lemma handed_step:
  assumes "u \<notin> set us" and "cn_id c \<in> pf_conn ` set fs2 \<longrightarrow> cn_user c \<in> set us"
    and "cn_user c \<noteq> u \<longrightarrow> cn_id c \<notin> pf_conn ` set fs1"
  shows "handed e (u # us) (fs1 @ fs2) c = (if cn_user c = u then handed e [u] fs1 c else handed e us fs2 c)"
  using assms by (auto simp: handed_def image_Un split: sum.split)

lemma push_users_exact:
  assumes "manager_inv m" and "distinct us" and "mg_conns m [] = None"
  shows "\<exists>fs m'. push_users now e us m = Some (fs, m') \<and> manager_inv m'
    \<and> (\<forall>i c. mg_conns m i = Some c \<longrightarrow> i \<in> pf_conn ` set fs \<longrightarrow> cn_user c \<in> set us)
    \<and> (\<forall>i c. mg_conns m i = Some c \<longrightarrow> (\<exists>c'. mg_conns m' i = Some c' \<and> cn_user c' = cn_user c
         \<and> cn_queue c' = cn_queue c @ handed e us fs c))
    \<and> (\<forall>i. mg_conns m i = None \<longrightarrow> mg_conns m' i = None)"
  using assms
proof (induction us arbitrary: m)
  case Nil
  then show ?case by (auto simp: handed_def)
next
  case (Cons u us)
  have nu: "u \<notin> set us" "distinct us" using Cons.prems(2) by auto
  have first: "\<exists>fs1 m1. push_users now e (u # us) m = map_option (\<lambda>(fs2, m'). (fs1 @ fs2, m')) (push_users now e us m1)
      \<and> manager_inv m1 \<and> (\<forall>i c. mg_conns m i = Some c \<longrightarrow> i \<in> pf_conn ` set fs1 \<longrightarrow> cn_user c = u)
      \<and> (\<forall>i c. mg_conns m i = Some c \<longrightarrow> (\<exists>c'. mg_conns m1 i = Some c' \<and> cn_user c' = cn_user c
           \<and> cn_queue c' = cn_queue c @ handed e [u] fs1 c))
      \<and> (\<forall>i. mg_conns m i = None \<longrightarrow> mg_conns m1 i = None)"
  proof (cases "u \<le> 0")
    case True
    then show ?thesis using Cons.prems(1)
      by (intro exI [of _ "[]"] exI [of _ m]) (auto simp: handed_def case_prod_beta option.map_ident_strong)
  next
    case False
    show ?thesis
    proof (cases "eventForUser e u")
      case (Inl err)
      then show ?thesis using False Cons.prems(1,3)
        by (intro exI [of _ "[\<lparr>pf_user = u, pf_conn = [], pf_reason = Error err\<rparr>]"] exI [of _ m])
          (auto simp: handed_def)
    next
      case (Inr ev)
      obtain n fs1 m1 where p: "PushToUserWithFailures now u ev m = Some (n, fs1, m1)" "manager_inv m1"
        "pf_conn ` set fs1 \<subseteq> {i. \<exists>c. mg_conns m i = Some c \<and> cn_user c = u}"
        "\<forall>i c. mg_conns m i = Some c \<longrightarrow> (\<exists>c'. mg_conns m1 i = Some c' \<and> cn_user c' = cn_user c
         \<and> cn_queue c' = (if cn_user c = u \<and> i \<notin> pf_conn ` set fs1 then cn_queue c @ [ev] else cn_queue c))"
        "\<forall>i. mg_conns m i = None \<longrightarrow> mg_conns m1 i = None"
        using PushToUser_exact [OF Cons.prems(1), of now u ev] by blast
      have q: "\<exists>c'. mg_conns m1 i = Some c' \<and> cn_user c' = cn_user c \<and> cn_queue c' = cn_queue c @ handed e [u] fs1 c"
        if c: "mg_conns m i = Some c" for i c
      proof -
        have "cn_id c = i" using Cons.prems(1) c by (auto simp: manager_inv_def)
        then have "cn_queue c @ handed e [u] fs1 c
            = (if cn_user c = u \<and> i \<notin> pf_conn ` set fs1 then cn_queue c @ [ev] else cn_queue c)"
          using False Inr by (simp add: handed_def)
        with p(4) c show ?thesis by metis
      qed
      have "cn_user c = u" if "mg_conns m i = Some c" "i \<in> pf_conn ` set fs1" for i c
        using p(3) that by fastforce
      then show ?thesis using p(1,2,5) q False Inr
        by (intro exI [of _ fs1] exI [of _ m1]) simp
    qed
  qed
  then obtain fs1 m1 where f: "push_users now e (u # us) m = map_option (\<lambda>(fs2, m'). (fs1 @ fs2, m')) (push_users now e us m1)"
    "manager_inv m1" "\<forall>i c. mg_conns m i = Some c \<longrightarrow> i \<in> pf_conn ` set fs1 \<longrightarrow> cn_user c = u"
    "\<forall>i c. mg_conns m i = Some c \<longrightarrow> (\<exists>c'. mg_conns m1 i = Some c' \<and> cn_user c' = cn_user c
           \<and> cn_queue c' = cn_queue c @ handed e [u] fs1 c)"
    "\<forall>i. mg_conns m i = None \<longrightarrow> mg_conns m1 i = None" by blast
  have "mg_conns m1 [] = None" using f(5) Cons.prems(3) by simp
  from Cons.IH [OF f(2) nu(2) this] obtain fs2 m' where g: "push_users now e us m1 = Some (fs2, m')" "manager_inv m'"
    "\<forall>i c. mg_conns m1 i = Some c \<longrightarrow> i \<in> pf_conn ` set fs2 \<longrightarrow> cn_user c \<in> set us"
    "\<forall>i c. mg_conns m1 i = Some c \<longrightarrow> (\<exists>c'. mg_conns m' i = Some c' \<and> cn_user c' = cn_user c
         \<and> cn_queue c' = cn_queue c @ handed e us fs2 c)"
    "\<forall>i. mg_conns m1 i = None \<longrightarrow> mg_conns m' i = None" by blast
  have each: "(i \<in> pf_conn ` set (fs1 @ fs2) \<longrightarrow> cn_user c \<in> set (u # us))
      \<and> (\<exists>c'. mg_conns m' i = Some c' \<and> cn_user c' = cn_user c
         \<and> cn_queue c' = cn_queue c @ handed e (u # us) (fs1 @ fs2) c)" if c: "mg_conns m i = Some c" for i c
  proof -
    from f(4) c obtain c1 where c1: "mg_conns m1 i = Some c1" "cn_user c1 = cn_user c"
      "cn_queue c1 = cn_queue c @ handed e [u] fs1 c" by blast
    from g(4) c1(1) obtain c' where c': "mg_conns m' i = Some c'" "cn_user c' = cn_user c1"
      "cn_queue c' = cn_queue c1 @ handed e us fs2 c1" by blast
    have i: "cn_id c = i" "cn_id c1 = i" using Cons.prems(1) f(2) c c1(1) by (auto simp: manager_inv_def)
    have s: "handed e us fs2 c1 = handed e us fs2 c" unfolding handed_def c1(2) i by (rule refl)
    have fl: "i \<in> pf_conn ` set fs1 \<longrightarrow> cn_user c = u" "i \<in> pf_conn ` set fs2 \<longrightarrow> cn_user c \<in> set us"
      using spec [OF spec [OF f(3)], of i c] spec [OF spec [OF g(3)], of i c1] c c1 by simp_all
    have h: "handed e (u # us) (fs1 @ fs2) c = (if cn_user c = u then handed e [u] fs1 c else handed e us fs2 c)"
      by (rule handed_step) (use nu fl i in auto)
    have z: "cn_user c = u \<Longrightarrow> handed e us fs2 c = []" "cn_user c \<noteq> u \<Longrightarrow> handed e [u] fs1 c = []"
      using nu by (simp_all add: handed_def)
    have "cn_queue c' = cn_queue c @ handed e (u # us) (fs1 @ fs2) c"
      using c'(3) c1(3) s h z by (cases "cn_user c = u") simp_all
    then show ?thesis using c' c1 fl by auto
  qed
  show ?case
  proof (intro exI conjI)
    show "push_users now e (u # us) m = Some (fs1 @ fs2, m')" using f(1) g(1) by simp
    show "\<forall>i. mg_conns m i = None \<longrightarrow> mg_conns m' i = None" using f(5) g(5) by simp
  qed (use each g(2) in blast)+
qed

text \<open>The push event of a record, when it has one.\<close>

definition push_of :: "kmessage \<Rightarrow> push_event option" where
  "push_of m =
     (case decode_envelope (km_value m) of
        Inl env \<Rightarrow> None
      | Inr env \<Rightarrow> if event_type env \<noteq> EventPush then None else as_push zero_time (event_data env))"

lemma deliver_handle_push:
  assumes "push_of m = Some e"
  shows "deliver_handle D now uuid m g =
    (if Seen now (pu_mid e) (gt_seen g) then Some (deliver_commit m g)
     else
       (case push_users now e (pu_targets e) (gt_mgr g) of
          None \<Rightarrow> None
        | Some (fs, mgr) \<Rightarrow>
            (case (if fs \<noteq> [] then pushFailuresToDLQ D now uuid m e fs (g\<lparr>gt_mgr := mgr\<rparr>)
                   else (None, g\<lparr>gt_mgr := mgr\<rparr>)) of
               (Some err, g1) \<Rightarrow> Some (Some err, g1)
             | (None, g1) \<Rightarrow>
                 Some (deliver_commit m (g1\<lparr>gt_seen := Mark now (pu_mid e) (gt_seen g1)\<rparr>)))))"
proof -
  obtain env where "decode_envelope (km_value m) = Inr env" "event_type env = EventPush"
    "as_push zero_time (event_data env) = Some e"
    using assms by (auto simp: push_of_def split: sum.splits if_splits)
  then show ?thesis by (simp add: deliver_handle_def)
qed

lemma deliver_commit_effect:
  "deliver_commit m g = (r, g') \<Longrightarrow> gt_mgr g' = gt_mgr g \<and> gt_seen g' = gt_seen g \<and> gt_kafka g' = gt_kafka g"
  by (auto simp: deliver_commit_def zoomE_def split: prod.splits)

definition push_dead_lettered :: "'s gateway_deps \<Rightarrow> int \<Rightarrow> kmessage \<Rightarrow> push_failure list \<Rightarrow> broker \<Rightarrow> broker \<Rightarrow> bool" where
  "push_dead_lettered D now m fs b b' \<longleftrightarrow> (\<exists>rec. k_topic rec = DLQTopic (gd_prefix D)
     \<and> event_data (k_value rec) = DDlq (push_dlq now m fs)
     \<and> b' = snd (produce rec b) \<and> \<not> IsTechnical (fst (produce rec b)))"

lemma pushFailuresToDLQ_effect:
  assumes "pushFailuresToDLQ D now uuid m e fs g = (r, g')" and "cb_contract (gd_cb D)"
  shows "gt_mgr g' = gt_mgr g \<and> gt_seen g' = gt_seen g \<and> gt_offsets g' = gt_offsets g
    \<and> (r = None \<longrightarrow> push_dead_lettered D now m fs (snd (gt_kafka g)) (snd (gt_kafka g')))"
proof -
  obtain env where ne: "NewEnvelope uuid now EventDLQ ''gateway-worker'' (pu_conv e) (DDlq (push_dlq now m fs)) = Inr env"
    by (simp add: NewEnvelope_def)
  obtain k0 b0 where k0: "gt_kafka g = (k0, b0)" by (rule prod.exhaust)
  obtain x k1 b1 where p: "PublishDLQ (gd_cb D) (gd_prefix D) env (k0, b0) = (x, (k1, b1))" by (metis prod.collapse)
  have g': "r = x" "g' = g\<lparr>gt_kafka := (k1, b1)\<rparr>"
    using assms(1) by (simp_all add: pushFailuresToDLQ_def ne zoomE_def k0 p)
  have "push_dead_lettered D now m fs b0 b1" if "x = None"
  proof -
    let ?rec = "record_of (DLQTopic (gd_prefix D)) (-1) env"
    have "b1 = snd (produce ?rec b0) \<and> \<not> IsTechnical (fst (produce ?rec b0))"
      using p that kafka_publish_None [OF assms(2)] unfolding PublishDLQ_def by fastforce
    moreover have "k_topic ?rec = DLQTopic (gd_prefix D)" by (simp add: record_of_def)
    moreover have "event_data (k_value ?rec) = DDlq (push_dlq now m fs)"
      using NewEnvelope_ok [OF ne] by (simp add: record_of_def)
    ultimately show ?thesis unfolding push_dead_lettered_def by blast
  qed
  then show ?thesis using g' k0 by simp
qed

lemma deliver_handle_exact:
  assumes "mgr_reachable (gt_mgr g)" and "mg_conns (gt_mgr g) [] = None" and "cb_contract (gd_cb D)"
    and "push_of m = Some e" and "\<not> Seen now (pu_mid e) (gt_seen g)" and "distinct (pu_targets e)"
  shows "\<exists>fs r g'. deliver_handle D now uuid m g = Some (r, g')
    \<and> (\<forall>i c. mg_conns (gt_mgr g) i = Some c \<longrightarrow> (\<exists>c'. mg_conns (gt_mgr g') i = Some c'
         \<and> cn_queue c' = cn_queue c @ handed e (pu_targets e) fs c))
    \<and> (os_committed (gt_offsets g') \<noteq> os_committed (gt_offsets g) \<or> r = None
         \<or> Seen now (pu_mid e) (gt_seen g') \<longrightarrow>
         fs = [] \<or> push_dead_lettered D now m fs (snd (gt_kafka g)) (snd (gt_kafka g')))
    \<and> (r = None \<longrightarrow> Seen now (pu_mid e) (gt_seen g'))"
proof -
  obtain fs mgr where p: "push_users now e (pu_targets e) (gt_mgr g) = Some (fs, mgr)"
    "\<forall>i c. mg_conns (gt_mgr g) i = Some c \<longrightarrow> (\<exists>c'. mg_conns mgr i = Some c' \<and> cn_user c' = cn_user c
         \<and> cn_queue c' = cn_queue c @ handed e (pu_targets e) fs c)"
    using push_users_exact [OF mgr_reachable_inv [OF assms(1)] assms(6,2), of now e] by blast
  obtain x g1 where q: "(if fs \<noteq> [] then pushFailuresToDLQ D now uuid m e fs (g\<lparr>gt_mgr := mgr\<rparr>)
      else (None, g\<lparr>gt_mgr := mgr\<rparr>)) = (x, g1)" by (rule prod.exhaust)
  have g1: "gt_mgr g1 = mgr" "gt_seen g1 = gt_seen g" "gt_offsets g1 = gt_offsets g"
    "x = None \<Longrightarrow> fs = [] \<or> push_dead_lettered D now m fs (snd (gt_kafka g)) (snd (gt_kafka g1))"
    using q pushFailuresToDLQ_effect [OF _ assms(3), of now uuid m e fs "g\<lparr>gt_mgr := mgr\<rparr>" x g1]
    by (auto split: if_splits)
  show ?thesis
  proof (cases x)
    case (Some err)
    then have "deliver_handle D now uuid m g = Some (Some err, g1)"
      using p(1) q assms(5) by (simp add: deliver_handle_push [OF assms(4)])
    then show ?thesis using p(2) g1 assms(5) by (intro exI [of _ fs] exI [of _ "Some err"] exI [of _ g1]) fastforce
  next
    case None
    obtain r g' where c: "deliver_commit m (g1\<lparr>gt_seen := Mark now (pu_mid e) (gt_seen g1)\<rparr>) = (r, g')" by (rule prod.exhaust)
    then have h: "deliver_handle D now uuid m g = Some (r, g')"
      using p(1) q assms(5) None by (simp add: deliver_handle_push [OF assms(4)])
    have "Seen now (pu_mid e) (gt_seen g')"
      using deliver_commit_effect [OF c] by (simp add: Seen_def Mark_def Let_def dedupe_ttl_def)
    then show ?thesis using p(2) g1 None h deliver_commit_effect [OF c]
      by (intro exI [of _ fs] exI [of _ r] exI [of _ g']) fastforce
  qed
qed

section \<open>Properties\<close>


text \<open>
  C30: The memory of message ids answers exactly for its window: after an id is marked it is seen until
  the window ends, and what it answers for other ids, now and later, does not change - although
  the cleanup drops old entries when the table is large.
\<close>

theorem dedupe_window:
  assumes "distinct (map fst d)" and "now \<le> later"
  shows "Seen later j (Mark now i d) \<longleftrightarrow> (if j = i then later - now < dedupe_ttl else Seen later j d)"
proof (cases "j = i")
  case True
  then show ?thesis by (simp add: Seen_def Mark_def Let_def)
next
  case False
  have f: "map_of (filter (\<lambda>p. \<not> dedupe_ttl < now - snd p) d) j
      = (case map_of d j of None \<Rightarrow> None | Some t \<Rightarrow> if \<not> dedupe_ttl < now - t then Some t else None)"
    by (rule map_of_filter_time [OF assms(1), of "\<lambda>t. \<not> dedupe_ttl < now - t"])
  show ?thesis using False assms(2)
    by (cases "map_of d j") (simp_all add: Seen_def Mark_def Let_def map_of_filter_key f)
qed

definition demo_push :: "int list \<Rightarrow> push_event" where
  "demo_push targets = \<lparr>pu_mid = 100, pu_seq = 1, pu_sender = 9, pu_client_id = ''a'', pu_conv = 5, pu_type = 1,
     pu_content = Raw_none, pu_preview = [], pu_created = 2000, pu_targets = targets\<rparr>"

definition demo_push_message :: "int list \<Rightarrow> kmessage" where
  "demo_push_message targets = \<lparr>km_topic = ''im.message.push'', km_partition = 3, km_offset = 4, km_key = ''5'',
     km_value = KEnv (Envelope 1 ''evt_u'' EventPush 3000 ''outbox-publisher'' ''5'' (DPush (demo_push targets)))\<rparr>"

definition demo_gateway_deps :: "unit gateway_deps" where
  "demo_gateway_deps = \<lparr>gd_cb = (\<lambda>f (s, b). case f b of (r, b') \<Rightarrow> (r, (s, b'))), gd_prefix = []\<rparr>"

definition demo_push_gateway :: "unit gateway" where
  "demo_push_gateway = \<lparr>gt_mgr = demo_manager, gt_seen = [], gt_kafka = (Map.empty, \<lparr>bk_log = [], bk_faults = []\<rparr>),
     gt_offsets = \<lparr>os_committed = Map.empty, os_faults = []\<rparr>\<rparr>"


lemma dedupe_window_witness:
  "Seen 299999 1 (Mark 0 1 [(2, 0)]) \<and> \<not> Seen 300000 1 (Mark 0 1 [(2, 0)]) \<and> Seen 299999 2 (Mark 0 1 [(2, 0)])"
proof -
  have d: "distinct (map fst [(2 :: int, 0 :: int)])" by simp
  show ?thesis
    using dedupe_window [OF d, of 0 299999 1 1] dedupe_window [OF d, of 0 300000 1 1] dedupe_window [OF d, of 0 299999 2 1]
    by (simp add: dedupe_ttl_def Seen_def)
qed

text \<open>
  The memory does not look at the targets: a second event for a message id, for other users of the
  same gateway (a retried publication after someone else has connected), is dropped unread.
\<close>

lemma second_push_is_dropped:
  assumes "push_of m = Some e" and "Seen now (pu_mid e) (gt_seen g)"
  shows "\<exists>r g'. deliver_handle D now uuid m g = Some (r, g') \<and> gt_mgr g' = gt_mgr g"
proof -
  obtain r g' where "deliver_commit m g = (r, g')" by (rule prod.exhaust)
  with deliver_commit_effect [OF this] assms show ?thesis by (simp add: deliver_handle_push [OF assms(1)])
qed

text \<open>Every dead letter is counted once, however often its commit is repeated.\<close>

lemma dlq_counts_once:
  "dlq_handle n m (counts, os) = (ok, counts', os') \<Longrightarrow>
     counts' = counts(parseDLQ (km_value m) := counts (parseDLQ (km_value m)) + 1)"
  by (auto simp: dlq_handle_def Let_def split: prod.splits)

end
