(* ===== verification/Json.thy ===== *)
theory Json
  imports Content Codec
begin

text \<open>
  Reading client JSON into structures, as \<open>encoding/json\<close> does for the frames of the WebSocket and
  the bodies of HTTP requests: how the keys of an object find the fields, what \<open>null\<close> does, and
  which values are errors. A document is its parse tree (\<open>Content\<close>); text values become the bytes
  of a Go string.
\<close>

section \<open>UTF-8\<close>

definition rune_bytes :: "nat \<Rightarrow> nat list" where
  "rune_bytes r =
     (if r < 128 then [r]
      else if r < 2048 then [192 + r div 64, 128 + r mod 64]
      else if r < 65536 then [224 + r div 4096, 128 + r div 64 mod 64, 128 + r mod 64]
      else [240 + r div 262144, 128 + r div 4096 mod 64, 128 + r div 64 mod 64, 128 + r mod 64])"

definition utf8 :: "runes \<Rightarrow> string" where
  "utf8 rs = map char_of (concat (map rune_bytes rs))"

lemma utf8_append [simp]: "utf8 (a @ b) = utf8 a @ utf8 b"
  by (simp add: utf8_def)

section \<open>Fields\<close>

text \<open>
  A key finds a field when the two are equal up to simple case folding: ASCII letters, and the two
  other runes that fold to one, the long s (C5 BF) and the Kelvin sign (E2 84 AA).
\<close>

fun fold_key :: "string \<Rightarrow> string" where
  "fold_key [] = []"
| "fold_key (a # s) =
     (case s of
        b # t \<Rightarrow>
          if (of_char a :: nat) = 197 \<and> (of_char b :: nat) = 191 then CHR ''s'' # fold_key t
          else
            (case t of
               c # u \<Rightarrow>
                 if (of_char a :: nat) = 226 \<and> (of_char b :: nat) = 132 \<and> (of_char c :: nat) = 170
                 then CHR ''k'' # fold_key u else lower_ascii [a] @ fold_key s
             | [] \<Rightarrow> lower_ascii [a] @ fold_key s)
      | [] \<Rightarrow> lower_ascii [a])"

text \<open>What one value does to a field: leave it, set it, or be of the wrong type.\<close>

datatype 'a field_effect = Keep | Set 'a | Mismatch

fun as_string :: "json \<Rightarrow> string field_effect" where
  "as_string JNull = Keep"
| "as_string (JStr s) = Set (utf8 s)"
| "as_string _ = Mismatch"

fun as_runes :: "json \<Rightarrow> runes field_effect" where
  "as_runes JNull = Keep"
| "as_runes (JStr s) = Set s"
| "as_runes _ = Mismatch"

fun as_int64 :: "json \<Rightarrow> int field_effect" where
  "as_int64 JNull = Keep"
| "as_int64 (JNum i) = (if in_int64 i then Set i else Mismatch)"
| "as_int64 _ = Mismatch"

text \<open>\<open>json.RawMessage\<close> takes every value, \<open>null\<close> included; a pointer to a time is cleared by it.\<close>

definition as_raw :: "json \<Rightarrow> raw field_effect" where
  "as_raw j = Set (Raw_json j)"

fun as_time :: "(runes \<Rightarrow> int option) \<Rightarrow> json \<Rightarrow> int option field_effect" where
  "as_time tm JNull = Set None"
| "as_time tm (JStr s) = (case tm s of Some t \<Rightarrow> Set (Some t) | None \<Rightarrow> Mismatch)"
| "as_time tm _ = Mismatch"

text \<open>A list of strings: \<open>null\<close> elements are empty strings in a fresh slice.\<close>

fun as_string_elems :: "json list \<Rightarrow> string list option" where
  "as_string_elems [] = Some []"
| "as_string_elems (JStr s # js) = map_option ((#) (utf8 s)) (as_string_elems js)"
| "as_string_elems (JNull # js) = map_option ((#) []) (as_string_elems js)"
| "as_string_elems (_ # js) = None"

fun as_strings :: "json \<Rightarrow> string list field_effect" where
  "as_strings JNull = Set []"
| "as_strings (JArr js) = (case as_string_elems js of Some xs \<Rightarrow> Set xs | None \<Rightarrow> Mismatch)"
| "as_strings _ = Mismatch"

text \<open>
  One field of an object: the last value wins, and a mismatch anywhere makes the whole call of
  \<open>Unmarshal\<close> fail (\<open>None\<close>).
\<close>

fun field :: "(json \<Rightarrow> 'a field_effect) \<Rightarrow> string \<Rightarrow> (string \<times> json) list \<Rightarrow> 'a \<Rightarrow> 'a option" where
  "field rd k [] v = Some v"
| "field rd k ((k', j) # fs) v =
     (if fold_key k' = k
      then (case rd j of Keep \<Rightarrow> field rd k fs v | Set v' \<Rightarrow> field rd k fs v' | Mismatch \<Rightarrow> None)
      else field rd k fs v)"

text \<open>The members of the document: \<open>null\<close> leaves a structure as it is, anything else must be an object.\<close>

fun object_of :: "raw \<Rightarrow> (string \<times> json) list option" where
  "object_of (Raw_json JNull) = Some []"
| "object_of (Raw_json (JObj fs)) = Some fs"
| "object_of _ = None"

lemma field_missing: "\<forall>(k', j) \<in> set fs. fold_key k' \<noteq> k \<Longrightarrow> field rd k fs v = Some v"
  by (induction fs) auto

end
