(* ===== verification/Websocket.thy ===== *)
theory Websocket
  imports Json MessageService Connection
begin

text \<open>
  The WebSocket front of the gateway: tickets and the upgrade of \<open>transport/websocket/handler.go\<close>, the
  read loop with the dispatch of client events of \<open>reader.go\<close>, and the decoding of the events of
  \<open>event.go\<close>. The connections live in the table of the connection manager; the services work on the
  world of the message service.
\<close>

section \<open>Client events\<close>

record inbound =
  in_event :: string
  in_request :: string
  in_data :: raw

definition decode_inbound :: "raw \<Rightarrow> inbound option" where
  "decode_inbound r =
     (case object_of r of
        None \<Rightarrow> None
      | Some fs \<Rightarrow>
          (case (field as_string ''event'' fs [], field as_string ''request_id'' fs [], field as_raw ''data'' fs Raw_none) of
             (Some e, Some q, Some d) \<Rightarrow> Some \<lparr>in_event = e, in_request = q, in_data = d\<rparr>
           | _ \<Rightarrow> None))"

record send_payload =
  sp_client_id :: string
  sp_conv :: string
  sp_type :: string
  sp_content :: raw
  sp_sent :: "int option"

text \<open>\<open>tm\<close> reads the text of a time.\<close>

definition parseSend :: "(runes \<Rightarrow> int option) \<Rightarrow> raw \<Rightarrow> gerr + send_payload" where
  "parseSend tm r =
     (case object_of r of
        None \<Rightarrow> Inl (New InvalidArgument ''malformed message.send data'')
      | Some fs \<Rightarrow>
          (case (field as_string ''client_msg_id'' fs [], field as_string ''conversation_id'' fs [],
                 field as_string ''content_type'' fs [], field as_raw ''content'' fs Raw_none,
                 field (as_time tm) ''client_sent_at'' fs None) of
             (Some i, Some c, Some t, Some b, Some s) \<Rightarrow>
               Inr \<lparr>sp_client_id = i, sp_conv = c, sp_type = t, sp_content = b, sp_sent = s\<rparr>
           | _ \<Rightarrow> Inl (New InvalidArgument ''malformed message.send data'')))"

text \<open>\<open>ackPayload\<close> and \<open>readPayload\<close>: a conversation id and a sequence number under the key \<open>k\<close>.\<close>

definition decode_seq_payload :: "string \<Rightarrow> raw \<Rightarrow> (string \<times> int) option" where
  "decode_seq_payload k r =
     (case object_of r of
        None \<Rightarrow> None
      | Some fs \<Rightarrow>
          (case (field as_string ''conversation_id'' fs [], field as_int64 k fs 0) of
             (Some c, Some s) \<Rightarrow> Some (c, s)
           | _ \<Rightarrow> None))"

definition ContentTypeToCode :: "string \<Rightarrow> gerr + int" where
  "ContentTypeToCode ct =
     (if ct = ''text'' then Inr 1 else if ct = ''image'' then Inr 2 else if ct = ''file'' then Inr 3
      else Inl (New InvalidArgument ''unsupported content_type''))"

definition ParseID :: "string \<Rightarrow> gerr + int" where
  "ParseID s =
     (if s = [] then Inl (New InvalidArgument ''empty id'')
      else case ParseInt s of None \<Rightarrow> Inl (New InvalidArgument (''malformed id: '' @ s)) | Some v \<Rightarrow> Inr v)"

section \<open>The handler\<close>

text \<open>
  \<open>Handler\<close> with its configuration: the rate limiter is optional in the read loop; times are in
  milliseconds.
\<close>

record ('l, 's) ws_deps =
  wd_msg :: "('l, 's) msg_deps"
  wd_presence :: "presence_conf option"
  wd_limited :: bool
  wd_time :: "runes \<Rightarrow> int option"
  wd_queue_size :: int
  wd_queue_timeout :: int
  wd_heartbeat :: int
  wd_inbound_burst :: rat
  wd_inbound_rate :: rat
  wd_per_minute :: int
  wd_per_user :: int
  wd_ticket_ttl :: int

record ('l, 's) ws_world =
  ww_mgr :: manager
  ww_msg :: "('l, 's) msg_world"

text \<open>Computations of the services, and the pushes to the own connection, whose errors are only counted.\<close>

definition at_msg :: "(('l, 's) msg_world \<Rightarrow> 'a \<times> ('l, 's) msg_world) \<Rightarrow> ('l, 's) ws_world \<Rightarrow> 'a \<times> ('l, 's) ws_world" where
  "at_msg = zoomE ww_msg (\<lambda>p w. w\<lparr>ww_msg := p\<rparr>)"

definition own_push :: "int \<Rightarrow> string \<Rightarrow> conn_event \<Rightarrow> ('l, 's) ws_world \<Rightarrow> ('l, 's) ws_world option" where
  "own_push now i ev w = map_option (\<lambda>(e, m). w\<lparr>ww_mgr := m\<rparr>) (PushToConnection now i ev (ww_mgr w))"

definition own_update :: "string \<Rightarrow> (conn \<Rightarrow> conn) \<Rightarrow> ('l, 's) ws_world \<Rightarrow> ('l, 's) ws_world" where
  "own_update i f w = w\<lparr>ww_mgr := (ww_mgr w)\<lparr>mg_conns := (mg_conns (ww_mgr w))(i := map_option f (mg_conns (ww_mgr w) i))\<rparr>\<rparr>"

text \<open>\<open>writeError\<close>.\<close>

fun error_data :: "gerr \<Rightarrow> event_data" where
  "error_data (Biz c msg r a k) = ErrorData (code_string c) msg r a"
| "error_data e = ErrorData (code_string InternalError) ''internal server error'' False 0"

definition error_event :: "string \<Rightarrow> gerr \<Rightarrow> conn_event" where
  "error_event q err = \<lparr>ev_name = ''error'', ev_request = q,
     ev_data = error_data (case As err of Some e \<Rightarrow> e | None \<Rightarrow> Internal (Some err))\<rparr>"

definition writeError :: "int \<Rightarrow> string \<Rightarrow> string \<Rightarrow> gerr \<Rightarrow> ('l, 's) ws_world \<Rightarrow> ('l, 's) ws_world option" where
  "writeError now i q err = own_push now i (error_event q err)"

text \<open>
  The reader of the connection \<open>c\<close>, of which it uses the fields that never change. \<open>uuid\<close> and \<open>now\<close> are
  drawn for one event.
\<close>

definition send_command :: "conn \<Rightarrow> send_payload \<Rightarrow> int \<Rightarrow> int \<Rightarrow> send_cmd" where
  "send_command c p cv t = \<lparr>sc_sender = cn_user c, sc_client_id = sp_client_id p, sc_conv = cv, sc_type = t,
     sc_content = sp_content p, sc_client_sent = sp_sent p\<rparr>"

definition accepted_event :: "string \<Rightarrow> int \<Rightarrow> send_result \<Rightarrow> conn_event" where
  "accepted_event q now res = \<lparr>ev_name = ''message.accepted'', ev_request = q,
     ev_data = AcceptedData (sr_client_id res) (sr_conv res) now\<rparr>"

definition onSend ::
  "('l, 's) ws_deps \<Rightarrow> int \<Rightarrow> string \<Rightarrow> conn \<Rightarrow> inbound \<Rightarrow> ('l, 's) ws_world \<Rightarrow> ('l, 's) ws_world option" where
  "onSend D now uuid c env w =
     (case parseSend (wd_time D) (in_data env) of
        Inl err \<Rightarrow> writeError now (cn_id c) (in_request env) err w
      | Inr p \<Rightarrow>
     (case ParseID (sp_conv p) of
        Inl err \<Rightarrow> writeError now (cn_id c) (in_request env) err w
      | Inr cv \<Rightarrow>
     (case ContentTypeToCode (sp_type p) of
        Inl err \<Rightarrow> writeError now (cn_id c) (in_request env) err w
      | Inr t \<Rightarrow>
     (case at_msg (Send (wd_msg D) uuid now (send_command c p cv t)) w of
        (Inl err, w1) \<Rightarrow> writeError now (cn_id c) (in_request env) err w1
      | (Inr res, w1) \<Rightarrow> own_push now (cn_id c) (accepted_event (in_request env) now res) w1))))"

definition onReceivedAck ::
  "('l, 's) ws_deps \<Rightarrow> int \<Rightarrow> conn \<Rightarrow> inbound \<Rightarrow> ('l, 's) ws_world \<Rightarrow> ('l, 's) ws_world option" where
  "onReceivedAck D now c env w =
     (case decode_seq_payload ''received_seq'' (in_data env) of
        None \<Rightarrow> writeError now (cn_id c) (in_request env) (New InvalidArgument ''malformed received_ack data'') w
      | Some (s, seq) \<Rightarrow>
     (case ParseID s of
        Inl err \<Rightarrow> writeError now (cn_id c) (in_request env) err w
      | Inr cv \<Rightarrow>
     (case at_msg (AckReceived (cn_user c) cv seq) w of
        (Inl err, w1) \<Rightarrow> writeError now (cn_id c) (in_request env) err w1
      | (Inr _, w1) \<Rightarrow> Some w1)))"

text \<open>A read receipt starts a goroutine that tells the other members: conversation, seq and reader.\<close>

type_synonym read_note = "int \<times> int \<times> int"

definition onConversationRead ::
  "('l, 's) ws_deps \<Rightarrow> int \<Rightarrow> conn \<Rightarrow> inbound \<Rightarrow> ('l, 's) ws_world \<Rightarrow> (read_note list \<times> ('l, 's) ws_world) option" where
  "onConversationRead D now c env w =
     (case decode_seq_payload ''read_seq'' (in_data env) of
        None \<Rightarrow>
          map_option (Pair [])
            (writeError now (cn_id c) (in_request env) (New InvalidArgument ''malformed conversation.read data'') w)
      | Some (s, seq) \<Rightarrow>
     (case ParseID s of
        Inl err \<Rightarrow> map_option (Pair []) (writeError now (cn_id c) (in_request env) err w)
      | Inr cv \<Rightarrow>
     (case at_msg (MarkRead (cn_user c) cv seq) w of
        (Inl err, w1) \<Rightarrow> map_option (Pair []) (writeError now (cn_id c) (in_request env) err w1)
      | (Inr _, w1) \<Rightarrow> Some ([(cv, seq, cn_user c)], w1))))"

text \<open>The goroutine itself.\<close>

fun push_members :: "int \<Rightarrow> int \<Rightarrow> conn_event \<Rightarrow> int list \<Rightarrow> manager \<Rightarrow> manager option" where
  "push_members now reader ev [] m = Some m"
| "push_members now reader ev (u # us) m =
     (if u = reader then push_members now reader ev us m
      else case PushToUser now u ev m of
             None \<Rightarrow> None
           | Some (n, m') \<Rightarrow> push_members now reader ev us m')"

definition read_event :: "read_note \<Rightarrow> conn_event" where
  "read_event note = (case note of (cv, seq, reader) \<Rightarrow>
     \<lparr>ev_name = ''message.read'', ev_request = [], ev_data = ReadData cv seq reader\<rparr>)"

definition notifyRead :: "int \<Rightarrow> read_note \<Rightarrow> ('l, 's) ws_world \<Rightarrow> ('l, 's) ws_world option" where
  "notifyRead now note w =
     (case note of (cv, seq, reader) \<Rightarrow>
     (case at_msg (at_db (ListMemberIDs cv)) w of
        (Inl err, w1) \<Rightarrow> Some w1
      | (Inr members, w1) \<Rightarrow>
          map_option (\<lambda>m. w1\<lparr>ww_mgr := m\<rparr>) (push_members now reader (read_event note) members (ww_mgr w1))))"

text \<open>\<open>refreshPresence\<close>: its error is dropped.\<close>

definition refreshPresence :: "('l, 's) ws_deps \<Rightarrow> int \<Rightarrow> conn \<Rightarrow> ('l, 's) ws_world \<Rightarrow> ('l, 's) ws_world" where
  "refreshPresence D now c w =
     (case wd_presence D of
        None \<Rightarrow> w
      | Some conf \<Rightarrow> snd (at_msg (at_redis (presence_Heartbeat conf now (route_of (ww_mgr w) c))) w))"

definition dispatch ::
  "('l, 's) ws_deps \<Rightarrow> int \<Rightarrow> string \<Rightarrow> conn \<Rightarrow> raw \<Rightarrow> ('l, 's) ws_world \<Rightarrow> (read_note list \<times> ('l, 's) ws_world) option" where
  "dispatch D now uuid c frame w =
     (case decode_inbound frame of
        None \<Rightarrow> map_option (Pair []) (writeError now (cn_id c) [] (New InvalidArgument ''malformed event'') w)
      | Some env \<Rightarrow>
          if in_event env = ''message.send'' then map_option (Pair []) (onSend D now uuid c env w)
          else if in_event env = ''message.received_ack'' then map_option (Pair []) (onReceivedAck D now c env w)
          else if in_event env = ''conversation.read'' then onConversationRead D now c env w
          else if in_event env = ''heartbeat.pong''
          then Some ([], refreshPresence D now c (own_update (cn_id c) (MarkPong now) w))
          else map_option (Pair [])
            (writeError now (cn_id c) (in_request env) (New InvalidArgument (''unsupported event: '' @ in_event env)) w))"

text \<open>
  One turn of \<open>readerLoop\<close>: \<open>frame\<close> is what \<open>ReadMessage\<close> delivers, \<open>None\<close> its error, \<open>Raw_none\<close> an empty
  message. The answer says whether the loop goes on.
\<close>

definition is_closed :: "string \<Rightarrow> ('l, 's) ws_world \<Rightarrow> bool" where
  "is_closed i w = (case mg_conns (ww_mgr w) i of Some c \<Rightarrow> cn_closed c | None \<Rightarrow> True)"

definition inbound_allowed :: "('l, 's) ws_deps \<Rightarrow> conn \<Rightarrow> ('l, 's) ws_world \<Rightarrow> bool \<times> ('l, 's) ws_world" where
  "inbound_allowed D c w =
     (if \<not> wd_limited D then (True, w)
      else
        (case at_msg (at_limits (AllowConnInbound (md_local (wd_msg D)) (''im:rate:conn:'' @ cn_id c)
                (wd_inbound_burst D) (wd_inbound_rate D))) w of
           ((ok, wait), w1) \<Rightarrow> (ok, w1)))"

definition reader_turn ::
  "('l, 's) ws_deps \<Rightarrow> int \<Rightarrow> string \<Rightarrow> conn \<Rightarrow> raw option \<Rightarrow> ('l, 's) ws_world
     \<Rightarrow> (bool \<times> read_note list \<times> ('l, 's) ws_world) option" where
  "reader_turn D now uuid c frame w =
     (if is_closed (cn_id c) w then Some (False, [], w)
      else
        (case inbound_allowed D c w of (ok, w1) \<Rightarrow>
           if \<not> ok then Some (False, [], own_update (cn_id c) conn_Close w1)
           else
             (case frame of
                None \<Rightarrow> Some (False, [], w1)
              | Some r \<Rightarrow>
                  if r = Raw_none then Some (True, [], w1)
                  else map_option (Pair True) (dispatch D now uuid c r w1))))"

section \<open>Tickets and upgrade\<close>

datatype ws_reply = WsError int string | TicketReply string | Upgraded string | UpgradeFailed

text \<open>\<open>user\<close> is the user of the bearer token (0 without one), \<open>random\<close> the bytes of \<open>crypto/rand\<close>.\<close>

definition CreateTicket ::
  "('l, 's) ws_deps \<Rightarrow> int \<Rightarrow> string \<Rightarrow> int \<Rightarrow> raw \<Rightarrow> ('l, 's) ws_world \<Rightarrow> ws_reply \<times> ('l, 's) ws_world" where
  "CreateTicket D now random user body w =
     (case object_of body of
        None \<Rightarrow> (WsError 400 ''bad request'', w)
      | Some fs \<Rightarrow>
     (case field as_string ''device_id'' fs [] of
        None \<Rightarrow> (WsError 400 ''bad request'', w)
      | Some device \<Rightarrow>
          if user \<le> 0 then (WsError 401 ''not logged in'', w)
          else
            (case at_msg (at_redis (Ticket_Create (wd_ticket_ttl D) random user device now)) w of
               (Inl err, w1) \<Rightarrow> (WsError 503 ''ticket service unavailable'', w1)
             | (Inr token, w1) \<Rightarrow> (TicketReply token, w1))))"

definition sendReady :: "('l, 's) ws_deps \<Rightarrow> int \<Rightarrow> conn \<Rightarrow> ('l, 's) ws_world \<Rightarrow> ('l, 's) ws_world option" where
  "sendReady D now c =
     own_push now (cn_id c)
       \<lparr>ev_name = ''connection.ready'', ev_request = [],
        ev_data = ReadyData (cn_id c) (cn_user c) (cn_device c) now (wd_heartbeat D div 1000)\<rparr>"

text \<open>
  \<open>Upgrade\<close> up to the start of the loops: the ticket, the two rate limits, the upgrade of the library
  (\<open>up\<close>: it succeeds), the registration and the first event. \<open>Upgrade_end\<close> is the deferred end.
\<close>

definition Upgrade ::
  "('l, 's) ws_deps \<Rightarrow> int \<Rightarrow> string \<Rightarrow> string \<Rightarrow> bool \<Rightarrow> string \<Rightarrow> ('l, 's) ws_world
     \<Rightarrow> (ws_reply \<times> ('l, 's) ws_world) option" where
  "Upgrade D now uuid ip up token w =
     (case at_msg (at_redis (Ticket_Consume token)) w of
        (Inl err, w1) \<Rightarrow> Some (WsError 503 ''ticket service unavailable'', w1)
      | (Inr None, w1) \<Rightarrow> Some (WsError 401 ''ticket invalid or used'', w1)
      | (Inr (Some t), w1) \<Rightarrow>
     (case at_msg (at_limits (AllowWSConnectIP (md_local (wd_msg D)) ip (wd_per_minute D))) w1 of
        ((ok1, _), w2) \<Rightarrow>
     if \<not> ok1 then Some (WsError 429 ''connecting too often'', w2) else
     (case at_msg (at_limits (AllowWSConnectUser (md_local (wd_msg D)) (td_user t) (wd_per_user D))) w2 of
        ((ok2, _), w3) \<Rightarrow>
     if \<not> ok2 then Some (WsError 429 ''connecting too often'', w3)
     else if \<not> up then Some (UpgradeFailed, w3)
     else
       let c = NewConn (''conn_'' @ uuid) (td_user t) (td_device t) (wd_queue_size D) (wd_queue_timeout D) now in
       (case mgr_Register now c (ww_mgr w3, mw_redis (ww_msg w3)) of
          (_, (m, r)) \<Rightarrow>
            map_option (Pair (Upgraded (cn_id c)))
              (sendReady D now c (w3\<lparr>ww_mgr := m, ww_msg := (ww_msg w3)\<lparr>mw_redis := r\<rparr>\<rparr>))))))"

definition Upgrade_end :: "conn \<Rightarrow> ('l, 's) ws_world \<Rightarrow> ('l, 's) ws_world" where
  "Upgrade_end c w =
     (case mgr_Unregister c (ww_mgr w, mw_redis (ww_msg w)) of
        (m, r) \<Rightarrow> w\<lparr>ww_mgr := m, ww_msg := (ww_msg w)\<lparr>mw_redis := r\<rparr>\<rparr>)"

section \<open>What the services may change for a user\<close>

text \<open>
  \<open>keeps P m\<close>: whatever \<open>m\<close> answers, the worlds before and after are in the relation \<open>P\<close>. The rules
  below push it through the early returns.
\<close>

definition keeps :: "('w \<Rightarrow> 'w \<Rightarrow> bool) \<Rightarrow> ('w \<Rightarrow> 'a \<times> 'w) \<Rightarrow> bool" where
  "keeps P m \<longleftrightarrow> (\<forall>w. P w (snd (m w)))"

lemma keeps_bindE:
  assumes "\<And>a b c. P a b \<Longrightarrow> P b c \<Longrightarrow> P a c" and "keeps P m" and "\<And>a. keeps P (f a)"
  shows "keeps P (bindE m f)"
  unfolding keeps_def
proof
  fix w
  obtain r w1 where m: "m w = (r, w1)" by (rule prod.exhaust)
  with assms(2) have "P w w1" by (metis keeps_def snd_conv)
  then show "P w (snd (bindE m f w))"
    using m assms(1,3) by (cases r) (auto simp: bindE_def keeps_def)
qed

lemma keeps_simple:
  assumes "\<And>a. P a a"
  shows "keeps P (returnE x)" "keeps P (failE e)"
  using assms by (simp_all add: keeps_def)

lemma keeps_tryE: "keeps P m \<Longrightarrow> keeps P (tryE m)"
  by (simp add: keeps_def tryE_def case_prod_beta)

lemma keeps_errE: "keeps P m \<Longrightarrow> keeps P (errE m)"
  by (simp add: keeps_def errE_def case_prod_beta split: option.splits)

text \<open>
  What may change on behalf of the user \<open>u\<close>: no message, conversation or outbox row, only own
  membership rows, and the broker gets at most records of the inbox with \<open>u\<close> as the sender.
\<close>

definition inbox_of :: "string \<Rightarrow> int \<Rightarrow> krecord \<Rightarrow> bool" where
  "inbox_of prefix u r \<longleftrightarrow> k_topic r = InboxTopic prefix
     \<and> (\<exists>e. event_data (k_value r) = DIngress e \<and> ie_sender e = u)"

definition acts_as :: "string \<Rightarrow> int \<Rightarrow> ('l, 's) msg_world \<Rightarrow> ('l, 's) msg_world \<Rightarrow> bool" where
  "acts_as prefix u w w' \<longleftrightarrow>
     (\<exists>ms. fst (mw_db w') = (fst (mw_db w))\<lparr>d_members := ms\<rparr>
        \<and> filter (\<lambda>r. mb_user r \<noteq> u) ms = filter (\<lambda>r. mb_user r \<noteq> u) (d_members (fst (mw_db w))))
     \<and> (\<exists>rs. bk_log (snd (mw_kafka w')) = bk_log (snd (mw_kafka w)) @ rs \<and> (\<forall>r \<in> set rs. inbox_of prefix u r))"

lemma acts_as_same:
  "fst (mw_db w') = fst (mw_db w) \<Longrightarrow> bk_log (snd (mw_kafka w')) = bk_log (snd (mw_kafka w)) \<Longrightarrow> acts_as p u w w'"
  unfolding acts_as_def
  by (intro conjI exI [of _ "d_members (fst (mw_db w))"] exI [of _ "[]"]) simp_all

lemma acts_as_refl: "acts_as p u w w"
  by (simp add: acts_as_same)

lemma acts_as_trans:
  assumes "acts_as p u a b" and "acts_as p u b c"
  shows "acts_as p u a c"
proof -
  from assms(1) obtain ms rs where 1: "fst (mw_db b) = (fst (mw_db a))\<lparr>d_members := ms\<rparr>"
    "filter (\<lambda>r. mb_user r \<noteq> u) ms = filter (\<lambda>r. mb_user r \<noteq> u) (d_members (fst (mw_db a)))"
    "bk_log (snd (mw_kafka b)) = bk_log (snd (mw_kafka a)) @ rs" "\<forall>r \<in> set rs. inbox_of p u r"
    unfolding acts_as_def by blast
  from assms(2) obtain ms' rs' where 2: "fst (mw_db c) = (fst (mw_db b))\<lparr>d_members := ms'\<rparr>"
    "filter (\<lambda>r. mb_user r \<noteq> u) ms' = filter (\<lambda>r. mb_user r \<noteq> u) (d_members (fst (mw_db b)))"
    "bk_log (snd (mw_kafka c)) = bk_log (snd (mw_kafka b)) @ rs'" "\<forall>r \<in> set rs'. inbox_of p u r"
    unfolding acts_as_def by blast
  show ?thesis unfolding acts_as_def
    using 1 2 by (intro conjI exI [of _ ms'] exI [of _ "rs @ rs'"]) auto
qed

lemma keeps_redis: "keeps (acts_as p u) (at_redis m)" "keeps (acts_as p u) (at_limits m2)" "keeps (acts_as p u) (at_idem m3)"
  by (simp_all add: keeps_def at_defs acts_as_same split: prod.splits)

lemma keeps_db: "(\<And>ms. fst (snd (m ms)) = fst ms) \<Longrightarrow> keeps (acts_as p u) (at_db m)"
  by (simp add: keeps_def at_db_def zoomE_def case_prod_beta acts_as_same)

lemma cursor_keeps_others:
  "filter (\<lambda>r. mb_user r \<noteq> u) (update_where (cursor_target c u s get d) f rows)
     = filter (\<lambda>r. mb_user r \<noteq> u) rows" if "\<And>r. mb_user (f r) = mb_user r"
  using that by (induction rows) (auto simp: update_where_def cursor_target_def)


lemma keeps_cursor:
  "keeps (acts_as p u) (at_db (AdvanceReceivedCursor c u s))" "keeps (acts_as p u) (at_db (AdvanceReadCursor c u s))"
proof -
  have upd: "acts_as p u w (w\<lparr>mw_db := ms\<rparr>)"
    if "fst ms = fst (mw_db w) \<or> fst ms = (fst (mw_db w))\<lparr>d_members := update_where
          (cursor_target c u s get (fst (mw_db w))) f (d_members (fst (mw_db w)))\<rparr>" "\<And>r. mb_user (f r) = mb_user r"
    for w :: "('l, 's) msg_world" and ms get f
    using that(1)
  proof
    assume "fst ms = fst (mw_db w)"
    then show ?thesis by (simp add: acts_as_same)
  next
    assume "fst ms = (fst (mw_db w))\<lparr>d_members := update_where
          (cursor_target c u s get (fst (mw_db w))) f (d_members (fst (mw_db w)))\<rparr>"
    then show ?thesis using cursor_keeps_others [OF that(2)]
      unfolding acts_as_def by (intro conjI exI [of _ "update_where (cursor_target c u s get (fst (mw_db w))) f
        (d_members (fst (mw_db w)))"] exI [of _ "[]"]) simp_all
  qed
  have e1: "fst (snd (AdvanceReceivedCursor c u s ms)) = fst ms
      \<or> fst (snd (AdvanceReceivedCursor c u s ms)) = (fst ms)\<lparr>d_members := update_where
          (cursor_target c u s mb_received_seq (fst ms)) (\<lambda>r. r\<lparr>mb_received_seq := s\<rparr>) (d_members (fst ms))\<rparr>" for ms
    by (auto simp: AdvanceReceivedCursor_def split: prod.splits sum.splits dest!: db_exec_cases)
  have e2: "fst (snd (AdvanceReadCursor c u s ms)) = fst ms
      \<or> fst (snd (AdvanceReadCursor c u s ms)) = (fst ms)\<lparr>d_members := update_where
          (cursor_target c u s mb_read_seq (fst ms)) (\<lambda>r. r\<lparr>mb_read_seq := s\<rparr>) (d_members (fst ms))\<rparr>" for ms
    by (auto simp: AdvanceReadCursor_def split: prod.splits sum.splits dest!: db_exec_cases)
  show "keeps (acts_as p u) (at_db (AdvanceReceivedCursor c u s))"
    unfolding keeps_def at_db_def zoomE_def case_prod_beta snd_conv by (intro allI upd [OF e1]) simp
  show "keeps (acts_as p u) (at_db (AdvanceReadCursor c u s))"
    unfolding keeps_def at_db_def zoomE_def case_prod_beta snd_conv by (intro allI upd [OF e2]) simp
qed

lemma ExecuteByName_log:
  assumes "cb_contract cb"
  shows "bk_log (snd (snd (ExecuteByName cb name (produce r) (m, b)))) \<in> {bk_log b, bk_log b @ [r]}"
proof -
  have p: "bk_log (snd (produce r b)) \<in> {bk_log b, bk_log b @ [r]}"
    by (auto simp: produce_def split: prod.splits)
  show ?thesis
  proof (cases "m name")
    case None
    then show ?thesis using p by (simp add: ExecuteByName_def case_prod_beta)
  next
    case (Some s)
    from breaker_Execute_cases [OF assms, of "produce r" s b]
    have "snd (snd (breaker_Execute cb (produce r) (s, b))) \<in> {b, snd (produce r b)}" by auto
    then show ?thesis using p Some by (auto simp: ExecuteByName_def case_prod_beta)
  qed
qed

lemma keeps_publish:
  fixes cb :: "('s, broker) cb_execute"
  assumes "cb_contract cb" and "ie_sender e = u"
  shows "keeps (acts_as prefix u) (at_kafka (PublishIngress cb prefix uuid now name e))"
  unfolding keeps_def
proof
  fix w :: "('l, 's) msg_world"
  obtain m b where k: "mw_kafka w = (m, b)" by (rule prod.exhaust)
  show "acts_as prefix u w (snd (at_kafka (PublishIngress cb prefix uuid now name e) w))"
  proof (cases "NewEnvelope uuid now EventInbox name (ie_conv e) (DIngress e)")
    case (Inl err)
    then show ?thesis by (simp add: at_defs PublishIngress_def acts_as_same)
  next
    case (Inr env)
    let ?r = "record_of (InboxTopic prefix) (-1) env"
    have i: "inbox_of prefix u ?r"
      using NewEnvelope_ok [OF Inr] assms(2) by (simp add: inbox_of_def record_of_def)
    let ?w' = "snd (at_kafka (PublishIngress cb prefix uuid now name e) w)"
    have "snd (mw_kafka ?w') = snd (snd (ExecuteByName cb ''kafka:inbox_publish'' (produce ?r) (m, b)))"
      by (simp add: at_defs PublishIngress_def Inr producer_PublishIngress_def kafka_publish_def k case_prod_beta
          split: option.splits)
    with ExecuteByName_log [OF assms(1), of "''kafka:inbox_publish''" ?r m b]
    have l: "bk_log (snd (mw_kafka ?w')) = bk_log b @ [] \<or> bk_log (snd (mw_kafka ?w')) = bk_log b @ [?r]" by auto
    have d: "mw_db ?w' = mw_db w" by (simp add: at_defs case_prod_beta)
    show ?thesis using l
    proof
      assume "bk_log (snd (mw_kafka ?w')) = bk_log b @ []"
      then show ?thesis using d k by (simp add: acts_as_same)
    next
      assume "bk_log (snd (mw_kafka ?w')) = bk_log b @ [?r]"
      then show ?thesis using d k i unfolding acts_as_def
        by (intro conjI exI [of _ "d_members (fst (mw_db w))"] exI [of _ "[?r]"]) simp_all
    qed
  qed
qed

lemmas keeps_bind = keeps_bindE [OF acts_as_trans]
lemmas keeps_return = keeps_simple [of "acts_as p u" for p u, OF acts_as_refl]

lemma keeps_reads:
  "keeps (acts_as p u) (at_db (CheckMember c v))" "keeps (acts_as p u) (at_db (conv_Get v c))"
  by (rule keeps_db; metis CheckMember_state conv_Get_state prod.collapse)+

lemma keeps_receipts: "keeps (acts_as p u) (AckReceived u c s)" "keeps (acts_as p u) (MarkRead u c s)"
  unfolding AckReceived_def MarkRead_def
  by (auto intro!: keeps_bind keeps_return keeps_errE keeps_cursor keeps_reads)

lemma keeps_send_publish:
  fixes D :: "('l, 's) msg_deps"
  assumes "cb_contract (md_cb D)"
  shows "keeps (acts_as (md_topic_prefix D) (sc_sender cmd)) (send_publish D uuid now cmd nonce)"
  unfolding keeps_def
proof
  fix w :: "('l, 's) msg_world"
  let ?P = "acts_as (md_topic_prefix D) (sc_sender cmd) :: ('l, 's) msg_world \<Rightarrow> _"
  have "ie_sender (ingress_of cmd) = sc_sender cmd" by (simp add: ingress_of_def)
  from keeps_publish [OF assms this, of "md_topic_prefix D" uuid now "''ws-gateway''"] obtain x w1 where
    p: "at_kafka (PublishIngress (md_cb D) (md_topic_prefix D) uuid now ''ws-gateway'' (ingress_of cmd)) w = (x, w1)"
    "?P w w1" unfolding keeps_def by (metis prod.collapse)
  have r: "?P w1 (snd (at_redis m w1))" for m :: "redis \<Rightarrow> gerr option \<times> redis"
    using keeps_redis(1) [of "md_topic_prefix D" "sc_sender cmd" m] unfolding keeps_def by blast
  note t = acts_as_trans [OF p(2) r]
  show "?P w (snd (send_publish D uuid now cmd nonce w))"
    using p t by (cases x) (auto simp: send_publish_def split: option.splits)
qed

lemma keeps_Send:
  assumes "cb_contract (md_cb D)"
  shows "keeps (acts_as (md_topic_prefix D) (sc_sender cmd)) (Send D uuid now cmd)"
proof -
  note pub = keeps_send_publish [OF assms]
  have "keeps (acts_as (md_topic_prefix D) (sc_sender cmd)) (send_claimed D uuid now cmd)"
    unfolding send_claimed_def
    by (auto intro!: keeps_bind keeps_return keeps_tryE keeps_redis pub split: option.splits sum.splits IdemResult.splits)
  then show ?thesis
    unfolding Send_def
    by (auto intro!: keeps_bind keeps_return keeps_errE keeps_redis keeps_reads split: option.splits)
qed


section \<open>What a turn may do to the connections\<close>

text \<open>
  From \<open>w\<close> to \<open>w'\<close> only the connection \<open>i\<close> changed, and its queue got at most one event, with \<open>Q\<close>.
\<close>

definition answered :: "string \<Rightarrow> (conn_event \<Rightarrow> bool) \<Rightarrow> manager \<Rightarrow> manager \<Rightarrow> bool" where
  "answered i Q m m' \<longleftrightarrow> mgr_reachable m' \<and> (\<forall>j. j \<noteq> i \<longrightarrow> mg_conns m' j = mg_conns m j)
     \<and> (\<exists>c c' evs. mg_conns m i = Some c \<and> mg_conns m' i = Some c' \<and> cn_user c' = cn_user c
          \<and> cn_queue c' = cn_queue c @ evs \<and> length evs \<le> 1 \<and> (\<forall>ev \<in> set evs. Q ev))"

lemma answered_weaken: "answered i Q m m' \<Longrightarrow> (\<And>ev. Q ev \<Longrightarrow> R ev) \<Longrightarrow> answered i R m m'"
  unfolding answered_def by blast

lemma answered_none: "mgr_reachable m \<Longrightarrow> mg_conns m i = Some c \<Longrightarrow> answered i Q m m"
  unfolding answered_def by (intro conjI exI [of _ c] exI [of _ "[]"]) simp_all

lemma own_push_answered:
  assumes "mgr_reachable (ww_mgr w)" and "mg_conns (ww_mgr w) i = Some c" and "Q ev"
  obtains w' where "own_push now i ev w = Some w'" "ww_msg w' = ww_msg w" "answered i Q (ww_mgr w) (ww_mgr w')"
proof -
  note inv = mgr_reachable_inv [OF assms(1)]
  from PushToConnection_inv [OF inv assms(2), of now ev] obtain e c' where
    p: "conn_Push now ev c = Some (e, c')"
      "PushToConnection now i ev (ww_mgr w) = Some (e, (ww_mgr w)\<lparr>mg_conns := (mg_conns (ww_mgr w))(i \<mapsto> c')\<rparr>)" by blast
  let ?m = "(ww_mgr w)\<lparr>mg_conns := (mg_conns (ww_mgr w))(i \<mapsto> c')\<rparr>"
  have "conn_ok c" using inv assms(2) by (auto simp: manager_inv_def)
  from conn_Push_ok [OF this p(1)] have c': "cn_user c' = cn_user c"
    "cn_queue c' = cn_queue c @ (if e = None then [ev] else [])" by simp_all
  have "mgr_reachable ?m" using assms(1) mgr_step.push [OF p(2)] by (rule mgr_reachable.step)
  then have a: "answered i Q (ww_mgr w) ?m" unfolding answered_def
    using assms(2,3) c' by (intro conjI exI [of _ c] exI [of _ c'] exI [of _ "if e = None then [ev] else []"]) auto
  have push: "own_push now i ev w = Some (w\<lparr>ww_mgr := ?m\<rparr>)" by (simp add: own_push_def p(2))
  show ?thesis by (rule that [OF push]) (simp_all add: a)
qed

lemma own_update_answered:
  assumes "mgr_reachable (ww_mgr w)" and "mg_conns (ww_mgr w) i = Some c" and "f = conn_Close \<or> f = MarkPong now"
  shows "answered i Q (ww_mgr w) (ww_mgr (own_update i f w)) \<and> ww_msg (own_update i f w) = ww_msg w"
proof -
  let ?m = "(ww_mgr w)\<lparr>mg_conns := (mg_conns (ww_mgr w))(i \<mapsto> f c)\<rparr>"
  have e: "own_update i f w = w\<lparr>ww_mgr := ?m\<rparr>" by (simp add: own_update_def assms(2))
  have "mgr_step (ww_mgr w) ?m" using assms(2,3) mgr_step.close mgr_step.pong by metis
  then have "mgr_reachable ?m" by (rule mgr_reachable.step [OF assms(1)])
  then have "answered i Q (ww_mgr w) ?m" unfolding answered_def
    using assms(2,3) by (intro conjI exI [of _ c] exI [of _ "f c"] exI [of _ "[]"]) (auto simp: conn_Close_def MarkPong_def)
  then show ?thesis by (simp add: e)
qed

text \<open>
  The outcome of one frame for the user \<open>u\<close> of the connection \<open>i\<close>: the handler returns, the services
  acted for \<open>u\<close> only, and the connection got at most one answer, with \<open>Q\<close>.
\<close>

definition fine ::
  "string \<Rightarrow> string \<Rightarrow> int \<Rightarrow> (conn_event \<Rightarrow> bool) \<Rightarrow> ('l, 's) ws_world \<Rightarrow> ('l, 's) ws_world option \<Rightarrow> bool" where
  "fine prefix i u Q w r \<longleftrightarrow>
     (case r of None \<Rightarrow> False
      | Some w' \<Rightarrow> acts_as prefix u (ww_msg w) (ww_msg w') \<and> answered i Q (ww_mgr w) (ww_mgr w'))"

lemma fine_push:
  assumes "mgr_reachable (ww_mgr w)" and "mg_conns (ww_mgr w) i = Some c" and "Q ev"
    and "ww_mgr w1 = ww_mgr w" and "acts_as p u (ww_msg w) (ww_msg w1)"
  shows "fine p i u Q w (own_push now i ev w1)"
proof -
  have r: "mgr_reachable (ww_mgr w1)" "mg_conns (ww_mgr w1) i = Some c" using assms by simp_all
  obtain w' where "own_push now i ev w1 = Some w'" "ww_msg w' = ww_msg w1" "answered i Q (ww_mgr w1) (ww_mgr w')"
    by (rule own_push_answered [of w1 i c Q ev now, OF r assms(3)])
  then show ?thesis using assms(4,5) by (simp add: fine_def)
qed

lemma fine_quiet:
  assumes "mgr_reachable (ww_mgr w)" and "mg_conns (ww_mgr w) i = Some c"
    and "ww_mgr w1 = ww_mgr w" and "acts_as p u (ww_msg w) (ww_msg w1)"
  shows "fine p i u Q w (Some w1)"
  using assms answered_none by (simp add: fine_def)

lemma at_msg_result:
  assumes "at_msg m w = (r, w1)" and "keeps (acts_as p u) m"
  shows "ww_mgr w1 = ww_mgr w \<and> acts_as p u (ww_msg w) (ww_msg w1)"
proof -
  from assms(1) have "ww_mgr w1 = ww_mgr w" "ww_msg w1 = snd (m (ww_msg w))"
    by (auto simp: at_msg_def zoomE_def split: prod.splits)
  with assms(2) show ?thesis by (simp add: keeps_def)
qed

definition echoes :: "string \<Rightarrow> conn_event \<Rightarrow> bool" where
  "echoes q ev \<longleftrightarrow> ev_request ev = q \<and> (ev_name ev = ''error'' \<or> ev_name ev = ''message.accepted'')"

lemma echoes_simps [simp]: "echoes q (error_event q err)" "echoes q (accepted_event q now res)"
  by (simp_all add: echoes_def error_event_def accepted_event_def)

lemma fine_error:
  assumes "mgr_reachable (ww_mgr w)" and "mg_conns (ww_mgr w) i = Some c"
    and "ww_mgr w1 = ww_mgr w" and "acts_as p u (ww_msg w) (ww_msg w1)"
  shows "fine p i u (echoes q) w (writeError now i q err w1)"
  unfolding writeError_def
  by (rule fine_push [where Q = "echoes q" and ev = "error_event q err", OF assms(1,2) echoes_simps(1) assms(3,4)])

lemma onSend_fine:
  assumes "cb_contract (md_cb (wd_msg D))" and "mgr_reachable (ww_mgr w)" and "mg_conns (ww_mgr w) (cn_id c) = Some c"
  shows "fine (md_topic_prefix (wd_msg D)) (cn_id c) (cn_user c) (echoes (in_request env)) w (onSend D now uuid c env w)"
proof -
  note err = fine_error [OF assms(2,3)]
  note err0 = err [OF refl acts_as_refl]
  show ?thesis
  proof (cases "parseSend (wd_time D) (in_data env)")
    case (Inl e)
    then show ?thesis by (simp add: onSend_def err0)
  next
    case p: (Inr p)
    show ?thesis
    proof (cases "ParseID (sp_conv p)")
      case (Inl e)
      then show ?thesis by (simp add: onSend_def p err0)
    next
      case cv: (Inr cv)
      show ?thesis
      proof (cases "ContentTypeToCode (sp_type p)")
        case (Inl e)
        then show ?thesis by (simp add: onSend_def p cv err0)
      next
        case t: (Inr t)
        obtain r w1 where s: "at_msg (Send (wd_msg D) uuid now (send_command c p cv t)) w = (r, w1)" by (rule prod.exhaust)
        have "sc_sender (send_command c p cv t) = cn_user c" by (simp add: send_command_def)
        with at_msg_result [OF s keeps_Send [OF assms(1)]]
        have a: "ww_mgr w1 = ww_mgr w" "acts_as (md_topic_prefix (wd_msg D)) (cn_user c) (ww_msg w) (ww_msg w1)" by simp_all
        show ?thesis
        proof (cases r)
          case (Inl e)
          then show ?thesis using err [OF a] by (simp add: onSend_def p cv t s)
        next
          case (Inr res)
          then show ?thesis
            using fine_push [where Q = "echoes (in_request env)" and ev = "accepted_event (in_request env) now res",
                OF assms(2,3) echoes_simps(2) a]
            by (simp add: onSend_def p cv t s)
        qed
      qed
    qed
  qed
qed


lemma onReceivedAck_fine:
  assumes "mgr_reachable (ww_mgr w)" and "mg_conns (ww_mgr w) (cn_id c) = Some c"
  shows "fine p (cn_id c) (cn_user c) (echoes (in_request env)) w (onReceivedAck D now c env w)"
proof -
  note err = fine_error [OF assms]
  note err0 = err [OF refl acts_as_refl]
  show ?thesis
  proof (cases "decode_seq_payload ''received_seq'' (in_data env)")
    case None
    then show ?thesis by (simp add: onReceivedAck_def err0)
  next
    case d: (Some v)
    obtain s seq where v: "v = (s, seq)" by (rule prod.exhaust)
    show ?thesis
    proof (cases "ParseID s")
      case (Inl e)
      then show ?thesis by (simp add: onReceivedAck_def d v err0)
    next
      case cv: (Inr cv)
      obtain r w1 where a: "at_msg (AckReceived (cn_user c) cv seq) w = (r, w1)" by (rule prod.exhaust)
      from at_msg_result [OF this keeps_receipts(1)]
      have k: "ww_mgr w1 = ww_mgr w" "acts_as p (cn_user c) (ww_msg w) (ww_msg w1)" by simp_all
      show ?thesis using err [OF k] fine_quiet [OF assms k]
        by (cases r) (simp_all add: onReceivedAck_def d v cv a)
    qed
  qed
qed

text \<open>The same for the handlers that also answer which goroutines they started.\<close>

definition fine_notes ::
  "string \<Rightarrow> string \<Rightarrow> int \<Rightarrow> (conn_event \<Rightarrow> bool) \<Rightarrow> ('l, 's) ws_world \<Rightarrow> (read_note list \<times> ('l, 's) ws_world) option \<Rightarrow> bool" where
  "fine_notes prefix i u Q w r \<longleftrightarrow>
     fine prefix i u Q w (map_option snd r) \<and> (\<forall>notes w'. r = Some (notes, w') \<longrightarrow> (\<forall>(cv, seq, reader) \<in> set notes. reader = u))"

lemma fine_notes_none: "fine p i u Q w r \<Longrightarrow> fine_notes p i u Q w (map_option (Pair []) r)"
  by (cases r) (auto simp: fine_notes_def)

lemma onConversationRead_fine:
  assumes "mgr_reachable (ww_mgr w)" and "mg_conns (ww_mgr w) (cn_id c) = Some c"
  shows "fine_notes p (cn_id c) (cn_user c) (echoes (in_request env)) w (onConversationRead D now c env w)"
proof -
  note err = fine_notes_none [OF fine_error [OF assms]]
  note err0 = err [OF refl acts_as_refl]
  show ?thesis
  proof (cases "decode_seq_payload ''read_seq'' (in_data env)")
    case None
    then show ?thesis by (simp add: onConversationRead_def err0)
  next
    case d: (Some v)
    obtain s seq where v: "v = (s, seq)" by (rule prod.exhaust)
    show ?thesis
    proof (cases "ParseID s")
      case (Inl e)
      then show ?thesis by (simp add: onConversationRead_def d v err0)
    next
      case cv: (Inr cv)
      obtain r w1 where a: "at_msg (MarkRead (cn_user c) cv seq) w = (r, w1)" by (rule prod.exhaust)
      from at_msg_result [OF this keeps_receipts(2)]
      have k: "ww_mgr w1 = ww_mgr w" "acts_as p (cn_user c) (ww_msg w) (ww_msg w1)" by simp_all
      have q: "fine_notes p (cn_id c) (cn_user c) Q w (Some ([(cv, seq, cn_user c)], w1))" for Q
        using fine_quiet [OF assms k] by (simp add: fine_notes_def)
      show ?thesis using err [OF k] q by (cases r) (simp_all add: onConversationRead_def d v cv a)
    qed
  qed
qed

lemma refreshPresence_state:
  "ww_mgr (refreshPresence D now c w) = ww_mgr w \<and> acts_as p u (ww_msg w) (ww_msg (refreshPresence D now c w))"
proof (cases "wd_presence D")
  case None
  then show ?thesis by (simp add: refreshPresence_def acts_as_refl)
next
  case (Some conf)
  let ?m = "at_redis (presence_Heartbeat conf now (route_of (ww_mgr w) c))"
  obtain r w1 where "at_msg ?m w = (r, w1)" by (rule prod.exhaust)
  with at_msg_result [OF this keeps_redis(1)] Some show ?thesis by (simp add: refreshPresence_def)
qed

text \<open>The request id that an answer to the frame carries.\<close>

definition request_of :: "raw \<Rightarrow> string" where
  "request_of frame = (case decode_inbound frame of None \<Rightarrow> [] | Some env \<Rightarrow> in_request env)"

lemma dispatch_fine:
  assumes "cb_contract (md_cb (wd_msg D))" and "mgr_reachable (ww_mgr w)" and "mg_conns (ww_mgr w) (cn_id c) = Some c"
  shows "fine_notes (md_topic_prefix (wd_msg D)) (cn_id c) (cn_user c) (echoes (request_of frame)) w
    (dispatch D now uuid c frame w)"
proof (cases "decode_inbound frame")
  case None
  then show ?thesis
    using fine_notes_none [OF fine_error [OF assms(2,3) refl acts_as_refl]] by (simp add: dispatch_def request_of_def)
next
  case (Some env)
  let ?u = "own_update (cn_id c) (MarkPong now) w"
  have pong: "fine_notes p (cn_id c) (cn_user c) Q w (Some ([], refreshPresence D now c ?u))" for p Q
  proof -
    note own_update_answered [OF assms(2,3), of "MarkPong now" now Q]
    moreover note refreshPresence_state [of D now c ?u p "cn_user c"]
    ultimately show ?thesis by (simp add: fine_notes_def fine_def)
  qed
  note fine_notes_none [OF onSend_fine [OF assms], of env now uuid]
  moreover note fine_notes_none [OF onReceivedAck_fine [OF assms(2,3)], of "md_topic_prefix (wd_msg D)" env D now]
  moreover note onConversationRead_fine [OF assms(2,3), of "md_topic_prefix (wd_msg D)" env D now]
  moreover note fine_notes_none [OF fine_error [OF assms(2,3) refl acts_as_refl]]
  ultimately show ?thesis using pong Some by (simp add: dispatch_def request_of_def)
qed

section \<open>Properties\<close>



lemma redis_call_reply:
  assumes "redis_call cmd r = (Inr a, r')"
  shows "\<exists>r0. rd_str r0 = rd_str r \<and> rd_now r0 = rd_now r \<and> cmd r0 = (a, r')"
proof -
  obtain f fs where p: "pop_fault (rd_faults r) = (f, fs)" by (rule prod.exhaust)
  with assms have "cmd (r\<lparr>rd_faults := fs\<rparr>) = (a, r')"
    by (cases f) (auto simp: redis_call_def Let_def split: prod.splits)
  then show ?thesis by (intro exI [of _ "r\<lparr>rd_faults := fs\<rparr>"]) simp
qed

lemma Ticket_Consume_ok:
  assumes "Ticket_Consume token r = (Inr (Some t), r')"
  shows "get_str (WSTicketKey token) r = Some (RTicket t)" "get_str (WSTicketKey token) r' = None"
proof -
  from assms obtain r1 where c: "redis_call (consume_ws_ticket (WSTicketKey token)) r = (Inr (Some (RTicket t)), r1)"
    and r': "r' = r1"
    by (auto simp: Ticket_Consume_def split: if_splits prod.splits sum.splits option.splits rvalue.splits)
  from redis_call_reply [OF c] obtain r0 where r0: "rd_str r0 = rd_str r" "rd_now r0 = rd_now r"
    "consume_ws_ticket (WSTicketKey token) r0 = (Some (RTicket t), r1)" by blast
  then have "get_str (WSTicketKey token) r0 = Some (RTicket t)" "r1 = del_str (WSTicketKey token) r0"
    by (auto simp: consume_ws_ticket_def split: option.splits)
  then show "get_str (WSTicketKey token) r = Some (RTicket t)" "get_str (WSTicketKey token) r' = None"
    using r' get_str_eq [OF r0(1,2)] by (simp_all add: get_str_def del_str_def)
qed

lemma Ticket_Consume_none:
  assumes "get_str (WSTicketKey token) r = None"
  shows "fst (Ticket_Consume token r) \<noteq> Inr (Some t)"
proof
  assume "fst (Ticket_Consume token r) = Inr (Some t)"
  then obtain r' where "Ticket_Consume token r = (Inr (Some t), r')" by (metis prod.collapse)
  from Ticket_Consume_ok(1) [OF this] assms show False by simp
qed

lemma ticket_key_is_no_presence_key: "WSTicketKey token \<noteq> PresenceConnKey cid"
  by (simp add: WSTicketKey_def PresenceConnKey_def)

lemma presence_keeps_tickets:
  "get_str (WSTicketKey token) (snd (presence_Register conf now rt r)) = get_str (WSTicketKey token) r"
proof -
  let ?cmd = "\<lambda>r. ((), add_member conf rt now (set_str (PresenceConnKey (rt_conn rt)) (RRoute rt) (pr_conn_ttl conf) r))"
  have a: "get_str (WSTicketKey token) (add_member conf rt now r1) = get_str (WSTicketKey token) r1" for r1
    by (rule get_str_eq) (simp_all add: add_member_def Let_def put_zset_def)
  have s: "get_str (WSTicketKey token) (set_str (PresenceConnKey i) v ttl r1) = get_str (WSTicketKey token) r1" for i v ttl r1
    using ticket_key_is_no_presence_key [of token i] by (simp add: get_str_def set_str_def split: option.split)
  obtain f fs where p: "pop_fault (rd_faults r) = (f, fs)" by (rule prod.exhaust)
  have f: "get_str (WSTicketKey token) (r\<lparr>rd_faults := fs\<rparr>) = get_str (WSTicketKey token) r"
    by (rule get_str_eq) simp_all
  show ?thesis
    by (cases f) (simp_all add: presence_Register_def as_error_def redis_call_def p a s f Let_def)
qed


text \<open>
  C24: A ticket opens one connection, as the user it was made for. When \<open>Upgrade\<close> accepts, the token
  named a live ticket; the table has the new connection with the user and the device of that
  ticket, its queue holds the ready event, and no other connection changed; the ticket is gone, so
  another upgrade with the token - from anywhere, at any time - is refused until a ticket with
  this token is made again.
\<close>

theorem ticket_opens_one_connection:
  assumes "mgr_reachable (ww_mgr w)" and "mg_conns (ww_mgr w) (''conn_'' @ uuid) = None"
    and "Upgrade D now uuid ip up token w = Some (Upgraded i, w')"
  shows "\<exists>t. get_str (WSTicketKey token) (mw_redis (ww_msg w)) = Some (RTicket t)
    \<and> (\<exists>c. mg_conns (ww_mgr w') i = Some c \<and> cn_user c = td_user t \<and> cn_device c = td_device t
         \<and> map ev_name (cn_queue c) = [''connection.ready''])
    \<and> (\<forall>j. j \<noteq> i \<longrightarrow> mg_conns (ww_mgr w') j = mg_conns (ww_mgr w) j)
    \<and> (\<forall>later D2 now2 uuid2 ip2 up2 (w2 :: ('lb, 'sb) ws_world) j w3.
         mw_redis (ww_msg w2) = (mw_redis (ww_msg w'))\<lparr>rd_now := rd_now (mw_redis (ww_msg w')) + later\<rparr> \<and> 0 \<le> later \<longrightarrow>
         Upgrade D2 now2 uuid2 ip2 up2 token w2 \<noteq> Some (Upgraded j, w3))"
proof -
  let ?key = "WSTicketKey token"
  obtain x w1 where tc: "at_msg (at_redis (Ticket_Consume token)) w = (x, w1)" by (rule prod.exhaust)
  from assms(3) tc obtain t where x: "x = Inr (Some t)"
    by (auto simp: Upgrade_def split: sum.splits option.splits)
  obtain ok1 a1 w2 where l1: "at_msg (at_limits (AllowWSConnectIP (md_local (wd_msg D)) ip (wd_per_minute D))) w1
      = ((ok1, a1), w2)" by (metis prod.collapse)
  obtain ok2 a2 w3 where l2: "at_msg (at_limits (AllowWSConnectUser (md_local (wd_msg D)) (td_user t) (wd_per_user D))) w2
      = ((ok2, a2), w3)" by (metis prod.collapse)
  let ?c = "NewConn (''conn_'' @ uuid) (td_user t) (td_device t) (wd_queue_size D) (wd_queue_timeout D) now"
  obtain e m r where reg: "mgr_Register now ?c (ww_mgr w3, mw_redis (ww_msg w3)) = (e, (m, r))" by (metis prod.collapse)
  let ?w4 = "w3\<lparr>ww_mgr := m, ww_msg := (ww_msg w3)\<lparr>mw_redis := r\<rparr>\<rparr>"
  from assms(3) tc x l1 l2 reg have rdy: "sendReady D now ?c ?w4 = Some w'" and i: "i = cn_id ?c"
    by (auto simp: Upgrade_def Let_def split: if_splits)
  have id: "cn_id ?c = ''conn_'' @ uuid" by (simp add: NewConn_def)
  have ticket: "get_str ?key (mw_redis (ww_msg w)) = Some (RTicket t)" "get_str ?key (mw_redis (ww_msg w1)) = None"
    "ww_mgr w1 = ww_mgr w"
    using tc x Ticket_Consume_ok by (auto simp: at_msg_def at_redis_def zoomE_def split: prod.splits)
  have limit: "get_str ?key (mw_redis (ww_msg w3)) = None" "ww_mgr w3 = ww_mgr w"
  proof -
    have "rd_str (mw_redis (ww_msg w3)) = rd_str (mw_redis (ww_msg w1))"
      "rd_now (mw_redis (ww_msg w3)) = rd_now (mw_redis (ww_msg w1))" "ww_mgr w3 = ww_mgr w1"
      using l1 l2 by (auto simp: at_msg_def at_limits_def zoomE_def AllowWSConnectIP_def AllowWSConnectUser_def
          split: prod.splits dest!: Allow_str)
    then show "get_str ?key (mw_redis (ww_msg w3)) = None" "ww_mgr w3 = ww_mgr w"
      using ticket get_str_eq by metis+
  qed
  have m: "mg_conns m = (mg_conns (ww_mgr w))(cn_id ?c \<mapsto> ?c)" "get_str ?key r = None"
    using reg limit by (auto simp: mgr_Register_def Let_def presence_keeps_tickets split: option.splits)
  have "mgr_step (ww_mgr w) (fst (snd (mgr_Register now ?c (ww_mgr w, mw_redis (ww_msg w3)))))"
    by (rule mgr_step.register [OF _ refl]) (unfold id, rule assms(2))
  then have "mgr_step (ww_mgr w) m" using reg limit(2) by simp
  with assms(1) have reach: "mgr_reachable (ww_mgr ?w4)" by (simp add: mgr_reachable.step)
  have c4: "mg_conns (ww_mgr ?w4) (cn_id ?c) = Some ?c" using m by simp
  let ?ev = "\<lparr>ev_name = ''connection.ready'', ev_request = [],
        ev_data = ReadyData (cn_id ?c) (cn_user ?c) (cn_device ?c) now (wd_heartbeat D div 1000)\<rparr>"
  have push: "PushToConnection now (cn_id ?c) ?ev (ww_mgr ?w4)
      = Some (None, m\<lparr>mg_conns := (mg_conns m)(cn_id ?c \<mapsto> ?c\<lparr>cn_queue := [?ev], cn_stalled := 0\<rparr>)\<rparr>)"
    using c4 by (simp add: PushToConnection_def conn_Push_def push_check_def push_send_def NewConn_def)
  have w': "ww_mgr w' = m\<lparr>mg_conns := (mg_conns m)(cn_id ?c \<mapsto> ?c\<lparr>cn_queue := [?ev], cn_stalled := 0\<rparr>)\<rparr>"
    "mw_redis (ww_msg w') = r"
    using rdy unfolding sendReady_def own_push_def push by auto
  have conn: "mg_conns (ww_mgr w') i = Some (?c\<lparr>cn_queue := [?ev], cn_stalled := 0\<rparr>)"
    "\<forall>j. j \<noteq> i \<longrightarrow> mg_conns (ww_mgr w') j = mg_conns (ww_mgr w) j"
    using w' m i by simp_all
  have refused: "Upgrade D2 now2 uuid2 ip2 up2 token w2 \<noteq> Some (Upgraded j, w3)"
    if "mw_redis (ww_msg w2) = (mw_redis (ww_msg w'))\<lparr>rd_now := rd_now (mw_redis (ww_msg w')) + later\<rparr> \<and> 0 \<le> later"
    for later D2 now2 uuid2 ip2 up2 j w3 and w2 :: "('lb, 'sb) ws_world"
  proof -
    have "get_str ?key (mw_redis (ww_msg w2)) = None"
      using that m(2) w'(2) by (auto simp: get_str_def split: option.splits if_splits)
    from Ticket_Consume_none [OF this] show ?thesis
      by (auto simp: Upgrade_def at_msg_def at_redis_def zoomE_def split: prod.splits sum.splits option.splits) (metis fst_conv)
  qed
  show ?thesis
  proof (intro exI conjI)
    show "get_str ?key (mw_redis (ww_msg w)) = Some (RTicket t)" by (rule ticket(1))
    show "mg_conns (ww_mgr w') i = Some (?c\<lparr>cn_queue := [?ev], cn_stalled := 0\<rparr>)" by (rule conn(1))
    show "\<forall>j. j \<noteq> i \<longrightarrow> mg_conns (ww_mgr w') j = mg_conns (ww_mgr w) j" by (rule conn(2))
    show "\<forall>later D2 now2 uuid2 ip2 up2 (w2 :: ('lb, 'sb) ws_world) j w3.
         mw_redis (ww_msg w2) = (mw_redis (ww_msg w'))\<lparr>rd_now := rd_now (mw_redis (ww_msg w')) + later\<rparr> \<and> 0 \<le> later \<longrightarrow>
         Upgrade D2 now2 uuid2 ip2 up2 token w2 \<noteq> Some (Upgraded j, w3)"
      by (intro allI impI) (rule refused)
  qed (simp_all add: NewConn_def)
qed


definition demo_ws :: "(unit, counting_breaker) ws_deps" where
  "demo_ws = \<lparr>wd_msg = demo_deps, wd_presence = None, wd_limited = False, wd_time = (\<lambda>s. None), wd_queue_size = 4,
     wd_queue_timeout = 0, wd_heartbeat = 30000, wd_inbound_burst = 10, wd_inbound_rate = 5, wd_per_minute = 60,
     wd_per_user = 5, wd_ticket_ttl = 30000\<rparr>"

definition demo_ws_world :: "(unit, counting_breaker) ws_world" where
  "demo_ws_world = \<lparr>ww_mgr = demo_manager, ww_msg = demo_gateway []\<rparr>"

definition demo_frame :: raw where
  "demo_frame = Raw_json (JObj [(''Event'', JStr (map of_char ''shout'')), (''request_id'', JStr [114, 49])])"

lemma demo_ws_contract: "cb_contract (md_cb (wd_msg demo_ws))"
  by (simp add: demo_ws_def demo_deps_def counting_execute_contract)


text \<open>A world in which a ticket for user 7 has just been made.\<close>

definition demo_ticket_world :: "(unit, counting_breaker) ws_world" where
  "demo_ticket_world = snd (CreateTicket demo_ws 0 ''r4nd'' 7
     (Raw_json (JObj [(''device_id'', JStr (map of_char ''web''))])) demo_ws_world)"

lemma ticket_opens_one_connection_witness:
  "\<exists>w' c. Upgrade demo_ws 5 ''u'' ''ip'' True (EncodeToString ''r4nd'') demo_ticket_world = Some (Upgraded ''conn_u'', w')
     \<and> mg_conns (ww_mgr w') ''conn_u'' = Some c \<and> cn_user c = 7
     \<and> Upgrade demo_ws 6 ''v'' ''ip'' True (EncodeToString ''r4nd'') w' \<noteq> Some (Upgraded ''conn_v'', w')"
proof -
  let ?up = "Upgrade demo_ws 5 ''u'' ''ip'' True (EncodeToString ''r4nd'') demo_ticket_world"
  have t: "map_option fst ?up = Some (Upgraded ''conn_u'')" by code_simp
  then obtain w' where u: "?up = Some (Upgraded ''conn_u'', w')" by auto
  have mgr: "ww_mgr demo_ticket_world = demo_manager"
    by (simp add: demo_ticket_world_def CreateTicket_def at_msg_def zoomE_def demo_ws_world_def
        split: option.split prod.split sum.split)
  have r: "mgr_reachable (ww_mgr demo_ticket_world)" unfolding mgr by (rule demo_manager_reachable)
  have f: "mg_conns (ww_mgr demo_ticket_world) (''conn_'' @ ''u'') = None"
    by (simp add: mgr demo_manager_def mgr_Register_def Let_def demo_conn_def NewConn_def NewManager_def
        NewManagerWithPartition_def)
  have k: "map_option td_user (case get_str (WSTicketKey (EncodeToString ''r4nd'')) (mw_redis (ww_msg demo_ticket_world)) of
      Some (RTicket t) \<Rightarrow> Some t | _ \<Rightarrow> None) = Some 7" by code_simp
  from ticket_opens_one_connection [where ?'lb = unit and ?'sb = counting_breaker, OF r f u] obtain t c where
    c: "get_str (WSTicketKey (EncodeToString ''r4nd'')) (mw_redis (ww_msg demo_ticket_world)) = Some (RTicket t)"
      "mg_conns (ww_mgr w') ''conn_u'' = Some c" "cn_user c = td_user t"
    and again: "\<forall>later D2 now2 uuid2 ip2 up2 (w2 :: (unit, counting_breaker) ws_world) j w3.
         mw_redis (ww_msg w2) = (mw_redis (ww_msg w'))\<lparr>rd_now := rd_now (mw_redis (ww_msg w')) + later\<rparr> \<and> 0 \<le> later \<longrightarrow>
         Upgrade D2 now2 uuid2 ip2 up2 (EncodeToString ''r4nd'') w2 \<noteq> Some (Upgraded j, w3)"
    by (elim exE conjE) (rule that)
  have "mw_redis (ww_msg w') = (mw_redis (ww_msg w'))\<lparr>rd_now := rd_now (mw_redis (ww_msg w')) + 0\<rparr> \<and> (0 :: int) \<le> 0" by simp
  then have n: "Upgrade demo_ws 6 ''v'' ''ip'' True (EncodeToString ''r4nd'') w' \<noteq> Some (Upgraded ''conn_v'', w')"
    by (rule again [rule_format])
  have seven: "cn_user c = 7" using k c(1,3) by simp
  show ?thesis by (intro exI conjI) (rule u, rule c(2), rule seven, rule n)
qed

end
