(* ===== verification/Users.thy ===== *)
theory Users
  imports Json IdPort Db
begin

text \<open>
  Accounts: password hashes and access tokens (\<open>auth/token.go\<close>), the user table
  (\<open>mysql/repository/user_repository.go\<close>), and registration, login and search
  (\<open>user/service.go\<close>). Argon2, the JWT library, the random source, the collation of MySQL and the
  part of Unicode's case table outside ASCII are parameters.
\<close>

section \<open>Password hashes\<close>

text \<open>The standard alphabet of base64 differs from the URL alphabet in two characters.\<close>

definition to_std :: "char \<Rightarrow> char" where
  "to_std c = (if c = CHR ''-'' then CHR ''+'' else if c = CHR ''_'' then CHR ''/'' else c)"

definition of_std :: "char \<Rightarrow> char" where
  "of_std c = (if c = CHR ''+'' then CHR ''-'' else if c = CHR ''/'' then CHR ''_'' else c)"

definition std_EncodeToString :: "string \<Rightarrow> string" where
  "std_EncodeToString s = map to_std (EncodeToString s)"

definition std_DecodeString :: "string \<Rightarrow> string option" where
  "std_DecodeString s =
     (if CHR ''-'' \<in> set s \<or> CHR ''_'' \<in> set s then None else DecodeString (map of_std s))"

text \<open>\<open>strings.Split\<close> at a one-byte separator.\<close>

fun split_all :: "char \<Rightarrow> string \<Rightarrow> string list" where
  "split_all sep [] = [[]]"
| "split_all sep (c # cs) =
     (if c = sep then [] # split_all sep cs
      else case split_all sep cs of (p # ps) \<Rightarrow> (c # p) # ps | [] \<Rightarrow> [[c]])"

text \<open>
  \<open>fmt.Sscanf\<close> with literal text and \<open>%d\<close>: blanks before a number are skipped (a line feed is an
  error), text after the last verb is ignored. The first kind of target is an \<open>int\<close>, the second a
  \<open>uint32\<close>, which takes no sign.
\<close>

definition skip_blanks :: "string \<Rightarrow> string" where
  "skip_blanks s = strip_all (length s) (filter (\<lambda>p. p \<noteq> [CHR 0x0A]) spaces) s"

definition scan_digits :: "string \<Rightarrow> (nat \<times> string) option" where
  "scan_digits s =
     (let ds = takeWhile is_digit s in if ds = [] then None else Some (digits_value ds, dropWhile is_digit s))"

definition scan_int :: "string \<Rightarrow> (int \<times> string) option" where
  "scan_int s =
     (let t = skip_blanks s; neg = (t \<noteq> [] \<and> hd t = CHR ''-'');
          u = (if t \<noteq> [] \<and> (hd t = CHR ''-'' \<or> hd t = CHR ''+'') then tl t else t) in
      case scan_digits u of
        None \<Rightarrow> None
      | Some (n, rest) \<Rightarrow>
          let i = (if neg then - int n else int n) in if in_int64 i then Some (i, rest) else None)"

definition scan_uint32 :: "string \<Rightarrow> (int \<times> string) option" where
  "scan_uint32 s =
     (case scan_digits (skip_blanks s) of
        None \<Rightarrow> None
      | Some (n, rest) \<Rightarrow> if n < 2 ^ 32 then Some (int n, rest) else None)"

definition scan_version :: "string \<Rightarrow> int option" where
  "scan_version s = Option.bind (strip_prefix ''v='' s) (\<lambda>r. map_option fst (scan_int r))"

definition scan_params :: "string \<Rightarrow> (int \<times> int \<times> int) option" where
  "scan_params s =
     Option.bind (Option.bind (strip_prefix ''m='' s) scan_uint32) (\<lambda>(m, r1).
     Option.bind (Option.bind (strip_prefix '',t='' r1) scan_uint32) (\<lambda>(t, r2).
     map_option (\<lambda>(p, r3). (m, t, p)) (Option.bind (strip_prefix '',p='' r2) scan_uint32)))"

text \<open>\<open>argon2.IDKey\<close>: password, salt, time, memory, threads, length of the key. It panics (\<open>None\<close>) for
  zero rounds or threads.\<close>

type_synonym kdf = "string \<Rightarrow> string \<Rightarrow> int \<Rightarrow> int \<Rightarrow> int \<Rightarrow> int \<Rightarrow> string option"

record argon2_params =
  ap_time :: int
  ap_memory :: int
  ap_threads :: int
  ap_key_len :: int

definition DefaultArgon2Params :: argon2_params where
  "DefaultArgon2Params = \<lparr>ap_time = 1, ap_memory = 64 * 1024, ap_threads = 4, ap_key_len = 32\<rparr>"

definition argon2idVersion :: int where "argon2idVersion = 19"

definition encode_hash :: "argon2_params \<Rightarrow> string \<Rightarrow> string \<Rightarrow> string" where
  "encode_hash P salt hash =
     ''$argon2id$v='' @ FormatInt argon2idVersion @ ''$m='' @ FormatInt (ap_memory P) @ '',t='' @ FormatInt (ap_time P)
     @ '',p='' @ FormatInt (ap_threads P) @ ''$'' @ std_EncodeToString salt @ ''$'' @ std_EncodeToString hash"

text \<open>\<open>salt\<close> is the outcome of the random source.\<close>

definition HashPassword :: "kdf \<Rightarrow> gerr + string \<Rightarrow> string \<Rightarrow> argon2_params \<Rightarrow> (gerr + string) option" where
  "HashPassword K salt password P =
     (case salt of
        Inl e \<Rightarrow> Some (Inl (Internal (Some e)))
      | Inr s \<Rightarrow>
          map_option (\<lambda>h. Inr (encode_hash P s h))
            (K password s (ap_time P) (ap_memory P) (ap_threads P) (ap_key_len P)))"

definition bad_hash :: "string \<Rightarrow> gerr" where
  "bad_hash msg = Wrap InternalError msg (Some (Sentinel ErrInvalidHash))"

definition VerifyPassword :: "kdf \<Rightarrow> string \<Rightarrow> string \<Rightarrow> (gerr + bool) option" where
  "VerifyPassword K password encodedHash =
     (case split_all (CHR ''$'') encodedHash of
        [_, alg, v, params, salt64, hash64] \<Rightarrow>
          if alg \<noteq> ''argon2id'' then Some (Inl (bad_hash ''malformed password hash''))
          else
            (case scan_version v of
               None \<Rightarrow> Some (Inl (bad_hash ''malformed password hash''))
             | Some version \<Rightarrow>
            if version \<noteq> argon2idVersion then Some (Inl (bad_hash ''unsupported Argon2 version''))
            else
            (case scan_params params of
               None \<Rightarrow> Some (Inl (bad_hash ''malformed password hash''))
             | Some (m, t, p) \<Rightarrow>
            (case (std_DecodeString salt64, std_DecodeString hash64) of
               (Some salt, Some want) \<Rightarrow>
                 map_option (\<lambda>got. Inr (got = want)) (K password salt t m (p mod 256) (int (length want)))
             | _ \<Rightarrow> Some (Inl (bad_hash ''malformed password hash'')))))
      | _ \<Rightarrow> Some (Inl (bad_hash ''malformed password hash'')))"

section \<open>Access tokens\<close>

text \<open>\<open>Claims\<close>; times in milliseconds, which a numeric date cuts to seconds.\<close>

record claims =
  cl_uid :: int
  cl_device :: string
  cl_issuer :: string
  cl_issued :: int
  cl_not_before :: int
  cl_expires :: int

text \<open>
  The JWT library: signing with HS256, and parsing with the key function that answers the secret
  for HMAC tokens and an error for any other method; a parsed token says whether it is valid.
\<close>

record jwt_lib =
  jwt_sign :: "claims \<Rightarrow> string \<Rightarrow> gerr + string"
  jwt_parse :: "string \<Rightarrow> string \<Rightarrow> int \<Rightarrow> gerr + claims \<times> bool"

definition numeric_date :: "int \<Rightarrow> int" where "numeric_date t = t div 1000 * 1000"

definition Issue :: "jwt_lib \<Rightarrow> string \<Rightarrow> int \<Rightarrow> int \<Rightarrow> int \<Rightarrow> string \<Rightarrow> gerr + string" where
  "Issue J secret ttl now u device =
     (case jwt_sign J \<lparr>cl_uid = u, cl_device = device, cl_issuer = ''gochat'', cl_issued = numeric_date now,
             cl_not_before = numeric_date now, cl_expires = numeric_date (now + ttl)\<rparr> secret of
        Inl e \<Rightarrow> Inl (Internal (Some e))
      | Inr s \<Rightarrow> Inr s)"

definition token_Parse :: "jwt_lib \<Rightarrow> string \<Rightarrow> int \<Rightarrow> string \<Rightarrow> gerr + claims" where
  "token_Parse J secret now tok =
     (case jwt_parse J tok secret now of
        Inl e \<Rightarrow>
          if errors_Is e JwtTokenExpired then Inl (New TokenExpired ''token expired'')
          else Inl (Wrap AuthRequired ''invalid token'' (Some e))
      | Inr (c, valid) \<Rightarrow>
          if \<not> valid then Inl (New AuthRequired ''invalid token'')
          else if cl_uid c \<le> 0 then Inl (New AuthRequired ''token without user'')
          else Inr c)"

section \<open>The user table\<close>

text \<open>
  The collation: which user names are equal for the unique key and for \<open>=\<close>, and which characters
  are equal for \<open>LIKE\<close>.
\<close>

record collation =
  same_name :: "runes \<Rightarrow> runes \<Rightarrow> bool"
  same_char :: "nat \<Rightarrow> nat \<Rightarrow> bool"

text \<open>The pattern language of \<open>LIKE\<close>: percent, underscore, and the backslash before a literal.\<close>

function sql_like :: "(nat \<Rightarrow> nat \<Rightarrow> bool) \<Rightarrow> runes \<Rightarrow> runes \<Rightarrow> bool" where
  "sql_like eq [] s = (s = [])"
| "sql_like eq (p # ps) s =
     (if p = 37 then sql_like eq ps s \<or> (case s of [] \<Rightarrow> False | _ # t \<Rightarrow> sql_like eq (p # ps) t)
      else if p = 95 then (case s of [] \<Rightarrow> False | _ # t \<Rightarrow> sql_like eq ps t)
      else if p = 92 \<and> ps \<noteq> []
      then (case s of [] \<Rightarrow> False | c # t \<Rightarrow> eq (hd ps) c \<and> sql_like eq (tl ps) t)
      else (case s of [] \<Rightarrow> False | c # t \<Rightarrow> eq p c \<and> sql_like eq ps t))"
  by pat_completeness auto

termination
  by (relation "measure (\<lambda>(eq, p, s). length p + length s)") (auto simp: neq_Nil_conv)

record user =
  us_id :: int
  us_username :: runes
  us_nickname :: runes
  us_avatar :: string
  us_status :: int
  us_created :: int

definition StatusUserNormal :: int where "StatusUserNormal = 1"

definition toDomainUser :: "user_row \<Rightarrow> user" where
  "toDomainUser r = \<lparr>us_id = ur_id r, us_username = ur_username r, us_nickname = ur_nickname r,
     us_avatar = ur_avatar r, us_status = ur_status r, us_created = ur_created r\<rparr>"

definition user_row_of :: "user \<Rightarrow> string \<Rightarrow> user_row" where
  "user_row_of u hash = \<lparr>ur_id = us_id u, ur_username = us_username u, ur_password_hash = hash,
     ur_nickname = us_nickname u, ur_avatar = us_avatar u, ur_status = us_status u, ur_created = us_created u\<rparr>"

definition insert_user :: "collation \<Rightarrow> user_row \<Rightarrow> db \<Rightarrow> (gerr + unit) \<times> db" where
  "insert_user C r d =
     (if list_ex (\<lambda>x. ur_id x = ur_id r \<or> same_name C (ur_username x) (ur_username r)) (d_users d)
      then (Inl duplicate_key, d) else (Inr (), d\<lparr>d_users := d_users d @ [r]\<rparr>))"

definition user_Create :: "collation \<Rightarrow> user \<Rightarrow> string \<Rightarrow> mysql \<Rightarrow> gerr option \<times> mysql" where
  "user_Create C u hash ms =
     (case db_tx (insert_user C (user_row_of u hash)) ms of
        (Inl e, ms') \<Rightarrow>
          (Some (if isDuplicateKey e then New UsernameConflict ''user name exists'' else Internal (Some e)), ms')
      | (Inr _, ms') \<Rightarrow> (None, ms'))"

definition FindByUsername :: "collation \<Rightarrow> runes \<Rightarrow> (mysql, (user \<times> string) option) svc" where
  "FindByUsername C name ms =
     (case db_query (\<lambda>d. find (\<lambda>r. same_name C (ur_username r) name) (d_users d)) ms of
        (r, ms') \<Rightarrow>
          (wrap_internal (map_sum id (map_option (\<lambda>r. (toDomainUser r, ur_password_hash r))) r), ms'))"

definition FindByID :: "int \<Rightarrow> (mysql, user option) svc" where
  "FindByID u ms =
     (case db_query (\<lambda>d. find (\<lambda>r. ur_id r = u) (d_users d)) ms of
        (r, ms') \<Rightarrow> (wrap_internal (map_sum id (map_option toDomainUser) r), ms'))"

definition user_found :: "collation \<Rightarrow> runes \<Rightarrow> int \<Rightarrow> user_row \<Rightarrow> bool" where
  "user_found C keyword cursor r \<longleftrightarrow>
     (sql_like (same_char C) ([37] @ keyword @ [37]) (ur_username r)
      \<or> sql_like (same_char C) ([37] @ keyword @ [37]) (ur_nickname r))
     \<and> ur_status r = StatusUserNormal \<and> (0 < cursor \<longrightarrow> cursor < ur_id r)"

definition user_Search :: "collation \<Rightarrow> runes \<Rightarrow> int \<Rightarrow> int \<Rightarrow> (mysql, user list) svc" where
  "user_Search C keyword cursor limit ms =
     (case db_query (\<lambda>d. sql_limit limit (sort_key ur_id (filter (user_found C keyword cursor) (d_users d)))) ms of
        (r, ms') \<Rightarrow> (wrap_internal (map_sum id (map toDomainUser) r), ms'))"

section \<open>The service\<close>

record 'g user_deps =
  ud_draw :: "('g, int) svc"
  ud_kdf :: kdf
  ud_argon2 :: argon2_params
  ud_jwt :: jwt_lib
  ud_secret :: string
  ud_ttl :: int
  ud_collation :: collation
  ud_lower :: "nat \<Rightarrow> nat"

record 'g user_world =
  uw_db :: mysql
  uw_ids :: 'g

definition uw_at_db :: "(mysql \<Rightarrow> 'a \<times> mysql) \<Rightarrow> 'g user_world \<Rightarrow> 'a \<times> 'g user_world" where
  "uw_at_db = zoomE uw_db (\<lambda>p w. w\<lparr>uw_db := p\<rparr>)"

definition uw_at_ids :: "('g \<Rightarrow> 'a \<times> 'g) \<Rightarrow> 'g user_world \<Rightarrow> 'a \<times> 'g user_world" where
  "uw_at_ids = zoomE uw_ids (\<lambda>p w. w\<lparr>uw_ids := p\<rparr>)"

text \<open>\<open>strings.TrimSpace\<close> and \<open>strings.ToLower\<close> on code points. Two runes outside ASCII have an ASCII
  lower case (the dotted I and the Kelvin sign); the others go through the parameter.\<close>

definition is_space_rune :: "nat \<Rightarrow> bool" where
  "is_space_rune r \<longleftrightarrow> 9 \<le> r \<and> r \<le> 13 \<or> r = 32 \<or> r = 133 \<or> r = 160 \<or> r = 5760
     \<or> 8192 \<le> r \<and> r \<le> 8202 \<or> r = 8232 \<or> r = 8233 \<or> r = 8239 \<or> r = 8287 \<or> r = 12288"

definition trim_runes :: "runes \<Rightarrow> runes" where
  "trim_runes s = rev (dropWhile is_space_rune (rev (dropWhile is_space_rune s)))"

definition lower_rune :: "(nat \<Rightarrow> nat) \<Rightarrow> nat \<Rightarrow> nat" where
  "lower_rune other r =
     (if r < 128 then (if 65 \<le> r \<and> r \<le> 90 then r + 32 else r)
      else if r = 304 then 105 else if r = 8490 then 107 else other r)"

definition normal_name :: "(nat \<Rightarrow> nat) \<Rightarrow> runes \<Rightarrow> runes" where
  "normal_name other s = map (lower_rune other) (trim_runes s)"

definition name_rune :: "nat \<Rightarrow> bool" where
  "name_rune r \<longleftrightarrow> 97 \<le> r \<and> r \<le> 122 \<or> 48 \<le> r \<and> r \<le> 57 \<or> r = 95"

definition usernamePattern :: "runes \<Rightarrow> bool" where
  "usernamePattern s \<longleftrightarrow> 3 \<le> length s \<and> length s \<le> 32 \<and> list_all name_rune s"

definition MaxNicknameLen :: nat where "MaxNicknameLen = 32"

record register_cmd =
  rg_username :: runes
  rg_password :: string
  rg_nickname :: runes

text \<open>
  The answer \<open>None\<close> is a panic of the key derivation, in the world it left; \<open>salt\<close> and \<open>now\<close> are
  drawn for the call.
\<close>

definition register_user ::
  "'g user_deps \<Rightarrow> gerr + string \<Rightarrow> int \<Rightarrow> runes \<Rightarrow> runes \<Rightarrow> string \<Rightarrow> int \<Rightarrow> 'g user_world
     \<Rightarrow> (gerr + user) option \<times> 'g user_world" where
  "register_user D salt now username nickname password uid w =
     (case HashPassword (ud_kdf D) salt password (ud_argon2 D) of
        None \<Rightarrow> (None, w)
      | Some (Inl e) \<Rightarrow> (Some (Inl e), w)
      | Some (Inr hash) \<Rightarrow>
          let u = \<lparr>us_id = uid, us_username = username, us_nickname = nickname, us_avatar = [],
                   us_status = StatusUserNormal, us_created = now\<rparr> in
          (case uw_at_db (user_Create (ud_collation D) u hash) w of
             (Some e, w') \<Rightarrow> (Some (Inl e), w')
           | (None, w') \<Rightarrow> (Some (Inr u), w')))"

definition user_Register ::
  "'g user_deps \<Rightarrow> gerr + string \<Rightarrow> int \<Rightarrow> register_cmd \<Rightarrow> 'g user_world \<Rightarrow> (gerr + user) option \<times> 'g user_world" where
  "user_Register D salt now cmd w =
     (let username = normal_name (ud_lower D) (rg_username cmd);
          trimmed = trim_runes (rg_nickname cmd);
          nickname = (if trimmed = [] then username else trimmed) in
      if \<not> usernamePattern username then (Some (Inl (New InvalidArgument ''malformed user name'')), w)
      else if length (rg_password cmd) < 8 then (Some (Inl (New InvalidArgument ''password too short'')), w)
      else if MaxNicknameLen < length nickname then (Some (Inl (New InvalidArgument ''nickname too long'')), w)
      else
        (case uw_at_ids (ud_draw D) w of
           (Inl e, w1) \<Rightarrow> (Some (Inl e), w1)
         | (Inr uid, w1) \<Rightarrow> register_user D salt now username nickname (rg_password cmd) uid w1))"

record login_cmd =
  lg_username :: runes
  lg_password :: string
  lg_device :: string

record login_result =
  lr_token :: string
  lr_expires_in :: int
  lr_user :: user

definition bad_credentials :: gerr where
  "bad_credentials = New InvalidArgument ''wrong user name or password''"

definition user_Login ::
  "'g user_deps \<Rightarrow> int \<Rightarrow> login_cmd \<Rightarrow> mysql \<Rightarrow> (gerr + login_result) option \<times> mysql" where
  "user_Login D now cmd ms =
     (case FindByUsername (ud_collation D) (normal_name (ud_lower D) (lg_username cmd)) ms of
        (Inl e, ms') \<Rightarrow> (Some (Inl e), ms')
      | (Inr None, ms') \<Rightarrow> (Some (Inl bad_credentials), ms')
      | (Inr (Some (u, hash)), ms') \<Rightarrow>
          if us_status u \<noteq> StatusUserNormal then (Some (Inl (Wrap AuthRequired ''account disabled'' None)), ms')
          else
            (case VerifyPassword (ud_kdf D) (lg_password cmd) hash of
               None \<Rightarrow> (None, ms')
             | Some (Inl e) \<Rightarrow> (Some (Inl (Wrap InternalError ''password check failed'' (Some e))), ms')
             | Some (Inr False) \<Rightarrow> (Some (Inl bad_credentials), ms')
             | Some (Inr True) \<Rightarrow>
                 (case Issue (ud_jwt D) (ud_secret D) (ud_ttl D) now (us_id u) (lg_device cmd) of
                    Inl e \<Rightarrow> (Some (Inl e), ms')
                  | Inr tok \<Rightarrow> (Some (Inr \<lparr>lr_token = tok, lr_expires_in = ud_ttl D div 1000, lr_user = u\<rparr>), ms'))))"

definition user_Get :: "int \<Rightarrow> (mysql, user) svc" where
  "user_Get u =
     bindE (FindByID u) (\<lambda>x. case x of None \<Rightarrow> failE (New UserNotFound ''no such user'') | Some u \<Rightarrow> returnE u)"

record user_page =
  up_items :: "user list"
  up_next :: string
  up_more :: bool

definition service_Search :: "collation \<Rightarrow> runes \<Rightarrow> string \<Rightarrow> int \<Rightarrow> (mysql, user_page) svc" where
  "service_Search C keyword0 cursor limit0 =
     (let keyword = trim_runes keyword0;
          limit1 = (if limit0 \<le> 0 then 20 else limit0); limit = (if 100 < limit1 then 100 else limit1) in
      if keyword = [] then failE (New InvalidArgument ''empty keyword'')
      else
        case (if cursor = [] then Some 0 else parseOpaqueCursor cursor) of
          None \<Rightarrow> failE (New InvalidArgument ''invalid cursor'')
        | Some cursorID \<Rightarrow>
            bindE (user_Search C keyword cursorID (limit + 1)) (\<lambda>users.
              let hasMore = limit < int (length users);
                  items = (if hasMore then take (nat limit) users else users)
              in returnE \<lparr>up_items = items,
                   up_next = (if hasMore \<and> items \<noteq> [] then encodeOpaqueCursor (us_id (last items)) else []),
                   up_more = hasMore\<rparr>))"


section \<open>Facts about hashes\<close>

lemma split_all_first: "sep \<notin> set p \<Longrightarrow> split_all sep (p @ sep # s) = p # split_all sep s"
  by (induction p) auto

lemma split_all_last: "sep \<notin> set p \<Longrightarrow> split_all sep p = [p]"
  by (induction p) auto

lemma url_char_cases: "b64_value c \<noteq> None \<Longrightarrow> c \<noteq> CHR ''+'' \<and> c \<noteq> CHR ''/'' \<and> c \<noteq> CHR ''$''"
  by (auto simp: b64_value_def b64_alphabet_def)

lemma of_std_to_std: "b64_value c \<noteq> None \<Longrightarrow> of_std (to_std c) = c"
  using url_char_cases [of c] by (simp add: of_std_def to_std_def)

lemma to_std_chars: "to_std c \<noteq> CHR ''-'' \<and> to_std c \<noteq> CHR ''_''"
  by (simp add: to_std_def)

lemma std_roundtrip: "std_DecodeString (std_EncodeToString s) = Some s"
proof -
  have m: "map of_std (std_EncodeToString s) = EncodeToString s"
    using EncodeToString_chars [of _ s] of_std_to_std by (auto simp: std_EncodeToString_def intro!: map_idI)
  have "CHR ''-'' \<notin> set (std_EncodeToString s)" "CHR ''_'' \<notin> set (std_EncodeToString s)"
    using to_std_chars by (auto simp: std_EncodeToString_def) metis+
  then show ?thesis by (simp add: std_DecodeString_def m DecodeString_EncodeToString)
qed

lemma std_no_dollar: "CHR ''$'' \<notin> set (std_EncodeToString s)"
proof
  assume "CHR ''$'' \<in> set (std_EncodeToString s)"
  then obtain c where c: "c \<in> set (EncodeToString s)" "to_std c = CHR ''$''" by (auto simp: std_EncodeToString_def)
  with url_char_cases [OF EncodeToString_chars [OF c(1)]] show False by (simp add: to_std_def split: if_splits)
qed

lemma skip_blanks_digit:
  assumes "is_digit c"
  shows "skip_blanks (c # s) = c # s"
proof -
  have d: "b64_value c \<noteq> None"
  proof -
    have "\<forall>n \<in> set [48..<58]. b64_value (char_of n) \<noteq> None" by code_simp
    moreover have "(of_char c :: nat) \<in> set [48..<58]"
      using assms unfolding is_digit_def set_upt atLeastLessThan_iff by linarith
    ultimately have "b64_value (char_of (of_char c :: nat)) \<noteq> None" by blast
    then show ?thesis by simp
  qed
  have "strip_one (filter (\<lambda>p. p \<noteq> [CHR 0x0A]) spaces) (c # s) = None"
    by (rule strip_one_none) (use space_heads(1) d in auto)
  then show ?thesis by (simp add: skip_blanks_def strip_all_id)
qed

lemma FormatInt_nat: "0 \<le> i \<Longrightarrow> FormatInt i = decimal (nat i)"
  by (simp add: FormatInt_def)

lemma scan_uint32_format:
  assumes "0 \<le> i" and "i < 2 ^ 32" and "s = [] \<or> \<not> is_digit (hd s)"
  shows "scan_uint32 (FormatInt i @ s) = Some (i, s)"
proof -
  obtain c cs where d: "decimal (nat i) = c # cs" using decimal_ne [of "nat i"] by (cases "decimal (nat i)") auto
  have all: "list_all is_digit (decimal (nat i))" by (rule decimal_digits)
  have sk: "skip_blanks (decimal (nat i) @ s) = decimal (nat i) @ s"
    using all d by (simp add: skip_blanks_digit)
  have tw: "takeWhile is_digit (decimal (nat i) @ s) = decimal (nat i)" "dropWhile is_digit (decimal (nat i) @ s) = s"
    using all assms(3) by (cases s; simp add: takeWhile_append list_all_iff dropWhile_append)+
  have "nat i < 2 ^ 32" using assms(1,2) by (simp add: nat_less_iff)
  then show ?thesis
    using assms(1) decimal_ne by (simp add: scan_uint32_def scan_digits_def FormatInt_nat sk tw Let_def digits_value_decimal)
qed

text \<open>The ranges of the Go types of the parameters.\<close>

definition params_ok :: "argon2_params \<Rightarrow> bool" where
  "params_ok P \<longleftrightarrow> 0 \<le> ap_time P \<and> ap_time P < 2 ^ 32 \<and> 0 \<le> ap_memory P \<and> ap_memory P < 2 ^ 32
     \<and> 0 \<le> ap_threads P \<and> ap_threads P < 256 \<and> 0 \<le> ap_key_len P \<and> ap_key_len P < 2 ^ 32"

lemma scan_params_format:
  assumes "params_ok P"
  shows "scan_params (''m='' @ FormatInt (ap_memory P) @ '',t='' @ FormatInt (ap_time P) @ '',p='' @ FormatInt (ap_threads P))
    = Some (ap_memory P, ap_time P, ap_threads P)"
proof -
  have sp: "strip_prefix p (p @ s) = Some s" for p s :: string by (simp add: strip_prefix_def)
  have nd: "\<not> is_digit (CHR '','')" by (simp add: is_digit_def)
  have a: "scan_uint32 (FormatInt (ap_memory P) @ '',t='' @ s) = Some (ap_memory P, '',t='' @ s)"
    "scan_uint32 (FormatInt (ap_time P) @ '',p='' @ s) = Some (ap_time P, '',p='' @ s)" for s
    using assms nd by (simp_all add: params_ok_def scan_uint32_format)
  have b: "scan_uint32 (FormatInt (ap_threads P)) = Some (ap_threads P, [])"
    using scan_uint32_format [of "ap_threads P" "[]"] assms by (simp add: params_ok_def)
  show ?thesis by (simp only: scan_params_def append_assoc sp Option.bind_lunit a b split_conv option.map)
qed

lemma FormatInt_no_dollar: "CHR ''$'' \<notin> set (FormatInt i)"
  using FormatInt_chars [of "CHR ''$''" i] by (auto simp: is_digit_def)

lemma VerifyPassword_encode:
  assumes "params_ok P"
  shows "VerifyPassword K q (encode_hash P salt h)
    = map_option (\<lambda>got. Inr (got = h)) (K q salt (ap_time P) (ap_memory P) (ap_threads P) (int (length h)))"
proof -
  let ?params = "''m='' @ FormatInt (ap_memory P) @ '',t='' @ FormatInt (ap_time P) @ '',p='' @ FormatInt (ap_threads P)"
  have v: "FormatInt argon2idVersion = ''19''" by code_simp
  have sv: "scan_version ''v=19'' = Some argon2idVersion" by code_simp
  have e: "encode_hash P salt h = [] @ CHR ''$'' # (''argon2id'' @ CHR ''$'' # (''v=19'' @ CHR ''$'' # (?params @ CHR ''$'' #
      (std_EncodeToString salt @ CHR ''$'' # std_EncodeToString h))))"
    by (simp add: encode_hash_def v)
  have nd: "CHR ''$'' \<notin> set ?params" using FormatInt_no_dollar by auto
  have s: "split_all (CHR ''$'') (encode_hash P salt h)
      = [[], ''argon2id'', ''v=19'', ?params, std_EncodeToString salt, std_EncodeToString h]"
  proof -
    have n: "CHR ''$'' \<notin> set ([] :: string)" "CHR ''$'' \<notin> set ''argon2id''" "CHR ''$'' \<notin> set ''v=19''" by simp_all
    show ?thesis
      unfolding e split_all_first [OF n(1)] split_all_first [OF n(2)] split_all_first [OF n(3)] split_all_first [OF nd]
        split_all_first [OF std_no_dollar] split_all_last [OF std_no_dollar] by (rule refl)
  qed
  have "ap_threads P mod 256 = ap_threads P" using assms by (simp add: params_ok_def)
  then show ?thesis
    by (simp add: VerifyPassword_def s sv scan_params_format [OF assms] std_roundtrip del: append.simps)
qed


section \<open>Contracts of the libraries\<close>

text \<open>
  Argon2 answers a key of the length it is asked for. The JWT library signs every claim set; the
  token parses, with the secret it was signed with, to the claims from the begin of its validity
  until it expires, and from then on to an error that wraps \<open>ErrTokenExpired\<close>.
\<close>

definition kdf_contract :: "kdf \<Rightarrow> bool" where
  "kdf_contract K \<longleftrightarrow> (\<forall>pw s t m p n k. K pw s t m p n = Some k \<longrightarrow> int (length k) = n)"

definition jwt_contract :: "jwt_lib \<Rightarrow> bool" where
  "jwt_contract J \<longleftrightarrow> (\<forall>c s. \<exists>tok. jwt_sign J c s = Inr tok
     \<and> (\<forall>t. cl_not_before c \<le> t \<and> t < cl_expires c \<longrightarrow> jwt_parse J tok s t = Inr (c, True))
     \<and> (\<forall>t. cl_expires c \<le> t \<longrightarrow> (\<exists>e. jwt_parse J tok s t = Inl e \<and> errors_Is e JwtTokenExpired)))"

lemma Issue_Parse:
  assumes "jwt_contract J" and "0 < u"
  obtains tok where "Issue J secret ttl now u dev = Inr tok"
    "\<And>t. now \<le> t \<Longrightarrow> t < numeric_date (now + ttl) \<Longrightarrow>
       \<exists>c. token_Parse J secret t tok = Inr c \<and> cl_uid c = u \<and> cl_device c = dev"
    "\<And>t. numeric_date (now + ttl) \<le> t \<Longrightarrow> token_Parse J secret t tok = Inl (New TokenExpired ''token expired'')"
proof -
  let ?c = "\<lparr>cl_uid = u, cl_device = dev, cl_issuer = ''gochat'', cl_issued = numeric_date now,
             cl_not_before = numeric_date now, cl_expires = numeric_date (now + ttl)\<rparr>"
  from assms(1) obtain tok where tok: "jwt_sign J ?c secret = Inr tok"
    "\<And>t. cl_not_before ?c \<le> t \<and> t < cl_expires ?c \<Longrightarrow> jwt_parse J tok secret t = Inr (?c, True)"
    "\<And>t. cl_expires ?c \<le> t \<Longrightarrow> \<exists>e. jwt_parse J tok secret t = Inl e \<and> errors_Is e JwtTokenExpired"
    unfolding jwt_contract_def by blast
  have nb: "numeric_date now \<le> now" by (simp add: numeric_date_def)
  show ?thesis
  proof (rule that)
    show "Issue J secret ttl now u dev = Inr tok" using tok(1) by (simp add: Issue_def)
    show "\<exists>c. token_Parse J secret t tok = Inr c \<and> cl_uid c = u \<and> cl_device c = dev"
      if "now \<le> t" "t < numeric_date (now + ttl)" for t
      using tok(2) [of t] that nb assms(2) by (simp add: token_Parse_def)
    show "token_Parse J secret t tok = Inl (New TokenExpired ''token expired'')" if "numeric_date (now + ttl) \<le> t" for t
      using tok(3) [of t] that by (auto simp: token_Parse_def)
  qed
qed

section \<open>Facts about accounts\<close>

lemma user_Create_ok:
  assumes "user_Create C u hash ms = (None, ms')"
  shows "fst ms' = (fst ms)\<lparr>d_users := d_users (fst ms) @ [user_row_of u hash]\<rparr>
    \<and> (\<forall>x \<in> set (d_users (fst ms)). ur_id x \<noteq> us_id u \<and> \<not> same_name C (ur_username x) (us_username u))"
proof -
  from assms obtain r where t: "db_tx (insert_user C (user_row_of u hash)) ms = (Inr r, ms')"
    by (auto simp: user_Create_def split: prod.splits sum.splits)
  from db_tx_cases [OF t] have "fst (insert_user C (user_row_of u hash) (fst ms)) = Inr r"
    "fst ms' = snd (insert_user C (user_row_of u hash) (fst ms))" by auto
  then show ?thesis by (auto simp: insert_user_def user_row_of_def list_ex_iff split: if_splits)
qed

text \<open>What a successful registration has done.\<close>

lemma user_Register_ok:
  assumes "user_Register D salt now cmd w = (Some (Inr u), w')"
  obtains s k where "salt = Inr s" "usernamePattern (us_username u)"
    "us_username u = normal_name (ud_lower D) (rg_username cmd)" "us_status u = StatusUserNormal"
    "ud_kdf D (rg_password cmd) s (ap_time (ud_argon2 D)) (ap_memory (ud_argon2 D)) (ap_threads (ud_argon2 D))
       (ap_key_len (ud_argon2 D)) = Some k"
    "d_users (fst (uw_db w')) = d_users (fst (uw_db w)) @ [user_row_of u (encode_hash (ud_argon2 D) s k)]"
    "\<forall>x \<in> set (d_users (fst (uw_db w))). ur_id x \<noteq> us_id u \<and> \<not> same_name (ud_collation D) (ur_username x) (us_username u)"
proof -
  let ?name = "normal_name (ud_lower D) (rg_username cmd)"
  let ?nick = "if trim_runes (rg_nickname cmd) = [] then ?name else trim_runes (rg_nickname cmd)"
  obtain x w1 where ids: "uw_at_ids (ud_draw D) w = (x, w1)" by (rule prod.exhaust)
  from assms ids obtain uid where pat: "usernamePattern ?name" and x: "x = Inr uid"
    and r: "register_user D salt now ?name ?nick (rg_password cmd) uid w1 = (Some (Inr u), w')"
    by (auto simp: user_Register_def Let_def split: if_splits sum.splits)
  from r obtain hash where h: "HashPassword (ud_kdf D) salt (rg_password cmd) (ud_argon2 D) = Some (Inr hash)"
    by (auto simp: register_user_def split: option.splits sum.splits)
  from h obtain s k where sk: "salt = Inr s" "hash = encode_hash (ud_argon2 D) s k"
    "ud_kdf D (rg_password cmd) s (ap_time (ud_argon2 D)) (ap_memory (ud_argon2 D)) (ap_threads (ud_argon2 D))
       (ap_key_len (ud_argon2 D)) = Some k"
    by (auto simp: HashPassword_def split: sum.splits)
  have db1: "uw_db w1 = uw_db w" using ids by (auto simp: uw_at_ids_def zoomE_def split: prod.splits)
  from r h obtain ms where c: "user_Create (ud_collation D) u hash (uw_db w1) = (None, ms)" "uw_db w' = ms"
    and u: "us_username u = ?name" "us_status u = StatusUserNormal"
    by (auto simp: register_user_def Let_def uw_at_db_def zoomE_def split: prod.splits option.splits)
  from user_Create_ok [OF c(1)] c(2) db1 sk pat u that show ?thesis by simp
qed

lemma find_appended: "\<forall>x \<in> set xs. \<not> P x \<Longrightarrow> P y \<Longrightarrow> find P (xs @ [y]) = Some y"
  by (induction xs) auto

section \<open>Properties\<close>

text \<open>
  C38: Who has registered can log in, and only with the password. After a registration, a login with
  the user name in any spelling that normalises to it and with the registered password answers a
  token for that user; until the token expires it is read back as this user and device, and from
  then on it is refused as expired. A password with another Argon2 key is refused, and the user
  name is never registered again, in whatever spelling.
\<close>

theorem login_after_register:
  assumes "params_ok (ud_argon2 D)" and "kdf_contract (ud_kdf D)" and "jwt_contract (ud_jwt D)"
    and "\<And>n. same_name (ud_collation D) n n"
    and "user_Register D salt now cmd w = (Some (Inr u), w')" and "0 < us_id u"
    and "normal_name (ud_lower D) name = us_username u"
  shows "(\<exists>res. user_Login D now2 \<lparr>lg_username = name, lg_password = rg_password cmd, lg_device = dev\<rparr> (fst (uw_db w'), [])
        = (Some (Inr res), (fst (uw_db w'), [])) \<and> lr_user res = u
      \<and> (\<forall>t. now2 \<le> t \<and> t < numeric_date (now2 + ud_ttl D) \<longrightarrow>
           (\<exists>c. token_Parse (ud_jwt D) (ud_secret D) t (lr_token res) = Inr c \<and> cl_uid c = us_id u \<and> cl_device c = dev))
      \<and> (\<forall>t. numeric_date (now2 + ud_ttl D) \<le> t \<longrightarrow>
           token_Parse (ud_jwt D) (ud_secret D) t (lr_token res) = Inl (New TokenExpired ''token expired'')))
    \<and> (\<forall>pw s. salt = Inr s \<and> ud_kdf D pw s (ap_time (ud_argon2 D)) (ap_memory (ud_argon2 D)) (ap_threads (ud_argon2 D))
           (ap_key_len (ud_argon2 D)) \<notin> {None, ud_kdf D (rg_password cmd) s (ap_time (ud_argon2 D)) (ap_memory (ud_argon2 D))
             (ap_threads (ud_argon2 D)) (ap_key_len (ud_argon2 D))} \<longrightarrow>
         user_Login D now2 \<lparr>lg_username = name, lg_password = pw, lg_device = dev\<rparr> (fst (uw_db w'), [])
           = (Some (Inl bad_credentials), (fst (uw_db w'), [])))
    \<and> (\<forall>salt2 now3 cmd2 g u2 w2. normal_name (ud_lower D) (rg_username cmd2) = us_username u \<longrightarrow>
         user_Register D salt2 now3 cmd2 (w'\<lparr>uw_ids := g\<rparr>) \<noteq> (Some (Inr u2), w2))"
proof -
  let ?P = "ud_argon2 D"
  let ?K = "\<lambda>pw s. ud_kdf D pw s (ap_time ?P) (ap_memory ?P) (ap_threads ?P) (ap_key_len ?P)"
  from assms(5) obtain s k where r: "salt = Inr s" "us_status u = StatusUserNormal" "?K (rg_password cmd) s = Some k"
    "d_users (fst (uw_db w')) = d_users (fst (uw_db w)) @ [user_row_of u (encode_hash ?P s k)]"
    "\<forall>x \<in> set (d_users (fst (uw_db w))). ur_id x \<noteq> us_id u \<and> \<not> same_name (ud_collation D) (ur_username x) (us_username u)"
    by (rule user_Register_ok)
  have len: "int (length k) = ap_key_len ?P" using assms(2) r(3) unfolding kdf_contract_def by blast
  have dom: "toDomainUser (user_row_of u h) = u" "ur_password_hash (user_row_of u h) = h"
    "ur_username (user_row_of u h) = us_username u" for h
    by (simp_all add: toDomainUser_def user_row_of_def)
  have find: "find (\<lambda>x. same_name (ud_collation D) (ur_username x) (us_username u)) (d_users (fst (uw_db w')))
      = Some (user_row_of u (encode_hash ?P s k))"
    unfolding r(4) by (rule find_appended) (use r(5) assms(4) in \<open>auto simp: dom\<close>)
  then have by_name: "FindByUsername (ud_collation D) (us_username u) (fst (uw_db w'), [])
      = (Inr (Some (u, encode_hash ?P s k)), (fst (uw_db w'), []))"
    by (simp add: FindByUsername_def dom)
  have verify: "VerifyPassword (ud_kdf D) pw (encode_hash ?P s k) = map_option (\<lambda>got. Inr (got = k)) (?K pw s)" for pw
    using VerifyPassword_encode [OF assms(1)] len by simp
  have login: "user_Login D now2 \<lparr>lg_username = name, lg_password = pw, lg_device = dev\<rparr> (fst (uw_db w'), [])
    = (case ?K pw s of None \<Rightarrow> (None, (fst (uw_db w'), []))
       | Some got \<Rightarrow> if got \<noteq> k then (Some (Inl bad_credentials), (fst (uw_db w'), []))
           else (case Issue (ud_jwt D) (ud_secret D) (ud_ttl D) now2 (us_id u) dev of
                    Inl e \<Rightarrow> (Some (Inl e), (fst (uw_db w'), []))
                  | Inr tok \<Rightarrow> (Some (Inr \<lparr>lr_token = tok, lr_expires_in = ud_ttl D div 1000, lr_user = u\<rparr>),
                      (fst (uw_db w'), []))))" for pw
    by (cases "?K pw s") (auto simp: user_Login_def assms(7) by_name r(2) verify split: option.split sum.split)
  obtain tok where tok: "Issue (ud_jwt D) (ud_secret D) (ud_ttl D) now2 (us_id u) dev = Inr tok"
    "\<And>t. now2 \<le> t \<Longrightarrow> t < numeric_date (now2 + ud_ttl D) \<Longrightarrow>
       \<exists>c. token_Parse (ud_jwt D) (ud_secret D) t tok = Inr c \<and> cl_uid c = us_id u \<and> cl_device c = dev"
    "\<And>t. numeric_date (now2 + ud_ttl D) \<le> t \<Longrightarrow>
       token_Parse (ud_jwt D) (ud_secret D) t tok = Inl (New TokenExpired ''token expired'')"
    by (rule Issue_Parse [OF assms(3,6), of "ud_secret D" "ud_ttl D" now2 dev]) blast
  have again: "user_Register D salt2 now3 cmd2 (w'\<lparr>uw_ids := g\<rparr>) \<noteq> (Some (Inr u2), w2)"
    if n: "normal_name (ud_lower D) (rg_username cmd2) = us_username u" for salt2 now3 cmd2 g u2 w2
  proof
    assume "user_Register D salt2 now3 cmd2 (w'\<lparr>uw_ids := g\<rparr>) = (Some (Inr u2), w2)"
    then obtain s2 k2 where "us_username u2 = us_username u"
      "\<forall>x \<in> set (d_users (fst (uw_db (w'\<lparr>uw_ids := g\<rparr>)))). \<not> same_name (ud_collation D) (ur_username x) (us_username u2)"
      using n by (elim user_Register_ok) auto
    then show False using r(4) assms(4) by (simp add: dom)
  qed
  show ?thesis
  proof (intro conjI)
    show "\<exists>res. user_Login D now2 \<lparr>lg_username = name, lg_password = rg_password cmd, lg_device = dev\<rparr> (fst (uw_db w'), [])
        = (Some (Inr res), (fst (uw_db w'), [])) \<and> lr_user res = u
      \<and> (\<forall>t. now2 \<le> t \<and> t < numeric_date (now2 + ud_ttl D) \<longrightarrow>
           (\<exists>c. token_Parse (ud_jwt D) (ud_secret D) t (lr_token res) = Inr c \<and> cl_uid c = us_id u \<and> cl_device c = dev))
      \<and> (\<forall>t. numeric_date (now2 + ud_ttl D) \<le> t \<longrightarrow>
           token_Parse (ud_jwt D) (ud_secret D) t (lr_token res) = Inl (New TokenExpired ''token expired''))"
      using tok by (intro exI [of _ "\<lparr>lr_token = tok, lr_expires_in = ud_ttl D div 1000, lr_user = u\<rparr>"])
        (simp add: login r(3))
  next
    show "\<forall>pw s. salt = Inr s \<and> ?K pw s \<notin> {None, ?K (rg_password cmd) s} \<longrightarrow>
         user_Login D now2 \<lparr>lg_username = name, lg_password = pw, lg_device = dev\<rparr> (fst (uw_db w'), [])
           = (Some (Inl bad_credentials), (fst (uw_db w'), []))"
      using r(1,3) by (auto simp: login)
  qed (use again in blast)
qed

text \<open>A key derivation that pads or cuts the password, and tokens that spell the claims out.\<close>

definition demo_kdf :: kdf where
  "demo_kdf pw s t m p n = (if n < 0 then None else Some (take (nat n) (pw @ replicate (nat n) (CHR ''x''))))"

definition claims_parts :: "claims \<Rightarrow> string list" where
  "claims_parts c = [FormatInt (cl_uid c), FormatInt (cl_issued c), FormatInt (cl_not_before c), FormatInt (cl_expires c),
     EncodeToString (cl_issuer c), EncodeToString (cl_device c)]"

fun join_bar :: "string list \<Rightarrow> string" where
  "join_bar [] = []"
| "join_bar [x] = x"
| "join_bar (x # xs) = x @ CHR ''|'' # join_bar xs"

definition read_int :: "string \<Rightarrow> int" where
  "read_int s = (if s \<noteq> [] \<and> hd s = CHR ''-'' then - int (digits_value (tl s)) else int (digits_value s))"

definition claims_of :: "string list \<Rightarrow> claims option" where
  "claims_of ps =
     (case ps of
        [a, b, c, d, e, f] \<Rightarrow>
          (case (DecodeString e, DecodeString f) of
             (Some iss, Some dev) \<Rightarrow> Some \<lparr>cl_uid = read_int a, cl_device = dev, cl_issuer = iss, cl_issued = read_int b,
                cl_not_before = read_int c, cl_expires = read_int d\<rparr>
           | _ \<Rightarrow> None)
      | _ \<Rightarrow> None)"

definition demo_jwt :: jwt_lib where
  "demo_jwt = \<lparr>jwt_sign = (\<lambda>c s. Inr (join_bar (claims_parts c))),
     jwt_parse = (\<lambda>tok s t. case claims_of (split_all (CHR ''|'') tok) of
         None \<Rightarrow> Inl (OtherError ''malformed token'')
       | Some c \<Rightarrow> if cl_expires c \<le> t then Inl (Wrapped ''invalid claims'' (Sentinel JwtTokenExpired))
                   else if t < cl_not_before c then Inl (OtherError ''not valid yet'') else Inr (c, True))\<rparr>"

lemma read_int_format: "read_int (FormatInt i) = i"
proof (cases "i < 0")
  case True
  then show ?thesis by (simp add: read_int_def FormatInt_def digits_value_decimal)
next
  case False
  obtain c cs where d: "decimal (nat i) = c # cs" using decimal_ne [of "nat i"] by (cases "decimal (nat i)") auto
  with decimal_digits [of "nat i"] have "c \<noteq> CHR ''-''" using not_digit_sign by auto
  then show ?thesis using False d digits_value_decimal [of "nat i"] by (simp add: read_int_def FormatInt_def)
qed

lemma split_join: "\<forall>p \<in> set ps. CHR ''|'' \<notin> set p \<Longrightarrow> ps \<noteq> [] \<Longrightarrow> split_all (CHR ''|'') (join_bar ps) = ps"
  by (induction ps rule: join_bar.induct) (simp_all add: split_all_first split_all_last)

lemma claims_roundtrip: "claims_of (split_all (CHR ''|'') (join_bar (claims_parts c))) = Some c"
proof -
  have b: "CHR ''|'' \<notin> set (EncodeToString x)" for x
  proof
    assume "CHR ''|'' \<in> set (EncodeToString x)"
    from EncodeToString_chars [OF this] show False by (simp add: b64_value_def b64_alphabet_def)
  qed
  have "split_all (CHR ''|'') (join_bar (claims_parts c)) = claims_parts c"
    by (rule split_join) (use b cursor_sep in \<open>auto simp: claims_parts_def\<close>)
  then show ?thesis by (simp add: claims_of_def claims_parts_def read_int_format DecodeString_EncodeToString)
qed

definition demo_users :: "int user_deps" where
  "demo_users = \<lparr>ud_draw = (\<lambda>g. (Inr (g + 1), g + 1)), ud_kdf = demo_kdf, ud_argon2 = \<lparr>ap_time = 1, ap_memory = 8, ap_threads = 1, ap_key_len = 2\<rparr>, ud_jwt = demo_jwt,
     ud_secret = ''secret'', ud_ttl = 7200000, ud_collation = \<lparr>same_name = (=), same_char = (=)\<rparr>, ud_lower = (\<lambda>r. r)\<rparr>"

definition demo_register :: register_cmd where
  "demo_register = \<lparr>rg_username = [32, 65, 100, 97, 95, 49], rg_password = ''correct horse'', rg_nickname = []\<rparr>"

lemma demo_kdf_contract: "kdf_contract demo_kdf"
  by (auto simp: kdf_contract_def demo_kdf_def split: if_splits)

lemma demo_jwt_contract: "jwt_contract demo_jwt"
proof -
  have "jwt_sign demo_jwt c s = Inr (join_bar (claims_parts c))" for c s by (simp add: demo_jwt_def)
  moreover have "\<forall>t. cl_not_before c \<le> t \<and> t < cl_expires c \<longrightarrow> jwt_parse demo_jwt (join_bar (claims_parts c)) s t = Inr (c, True)" for c s
    by (simp add: demo_jwt_def claims_roundtrip)
  moreover have "\<forall>t. cl_expires c \<le> t \<longrightarrow>
      (\<exists>e. jwt_parse demo_jwt (join_bar (claims_parts c)) s t = Inl e \<and> errors_Is e JwtTokenExpired)" for c s
    by (simp add: demo_jwt_def claims_roundtrip)
  ultimately show ?thesis unfolding jwt_contract_def by blast
qed

lemma login_after_register_witness:
  "\<exists>u w' res. user_Register demo_users (Inr ''salt'') 1000 demo_register \<lparr>uw_db = (empty_db, []), uw_ids = 6\<rparr> = (Some (Inr u), w')
     \<and> us_id u = 7
     \<and> user_Login demo_users 5000 \<lparr>lg_username = [97, 68, 65, 95, 49, 10], lg_password = ''correct horse'', lg_device = ''web''\<rparr>
         (fst (uw_db w'), []) = (Some (Inr res), (fst (uw_db w'), [])) \<and> lr_user res = u"
proof -
  let ?w = "\<lparr>uw_db = (empty_db, []), uw_ids = 6 :: int\<rparr>"
  have e: "map_option (map_sum (\<lambda>e. ()) (\<lambda>u. (us_id u, us_username u)))
      (fst (user_Register demo_users (Inr ''salt'') 1000 demo_register ?w)) = Some (Inr (7, [97, 100, 97, 95, 49]))" by code_simp
  then obtain x where x: "fst (user_Register demo_users (Inr ''salt'') 1000 demo_register ?w) = Some x"
    "map_sum (\<lambda>e. ()) (\<lambda>u. (us_id u, us_username u)) x = Inr (7, [97, 100, 97, 95, 49])" by (auto simp del: map_sum.simps)
  then obtain u where u: "x = Inr u" "us_id u = 7" "us_username u = [97, 100, 97, 95, 49]" by (cases x) auto
  with x(1) obtain w' where r: "user_Register demo_users (Inr ''salt'') 1000 demo_register ?w = (Some (Inr u), w')"
    "us_id u = 7" "us_username u = [97, 100, 97, 95, 49]" by (metis prod.collapse)
  have p: "params_ok (ud_argon2 demo_users)" by (simp add: demo_users_def params_ok_def)
  have k: "kdf_contract (ud_kdf demo_users)" "jwt_contract (ud_jwt demo_users)"
    by (simp_all add: demo_users_def demo_kdf_contract demo_jwt_contract)
  have c: "same_name (ud_collation demo_users) n n" for n by (simp add: demo_users_def)
  have n: "normal_name (ud_lower demo_users) [97, 68, 65, 95, 49, 10] = us_username u" unfolding r(3) by code_simp
  have pos: "0 < us_id u" by (simp add: r(2))
  have pw: "rg_password demo_register = ''correct horse''" by (simp add: demo_register_def)
  from conjunct1 [OF login_after_register [OF p k c r(1) pos n, of 5000 "''web''"]] obtain res where
    "user_Login demo_users 5000 \<lparr>lg_username = [97, 68, 65, 95, 49, 10], lg_password = ''correct horse'', lg_device = ''web''\<rparr>
       (fst (uw_db w'), []) = (Some (Inr res), (fst (uw_db w'), []))" "lr_user res = u"
    unfolding pw by (elim exE conjE) (rule that)
  with r(1,2) show ?thesis by (intro exI conjI)
qed

text \<open>The search does not escape the keyword: an underscore finds any character.\<close>

lemma underscore_is_a_wildcard:
  "user_found \<lparr>same_name = (=), same_char = (=)\<rparr> [97, 95, 98] 0
     \<lparr>ur_id = 1, ur_username = [97, 120, 98], ur_password_hash = [], ur_nickname = [], ur_avatar = [], ur_status = 1, ur_created = 0\<rparr>"
  by code_simp

end
