(* ===== verification/Http.thy ===== *)
theory Http
  imports Websocket Users
begin

text \<open>
  The HTTP interface: \<open>transport/http\<close> with its router, the middleware (request id, bearer token,
  recovery), the response format and every handler, over the services of the other theories. Gin
  itself appears as the request it has parsed: method, non-empty path segments, query values that
  are valid UTF-8, and the first JSON value of the body.
\<close>

section \<open>Requests and responses\<close>

record request =
  rq_method :: string
  rq_path :: "string list"
  rq_authorization :: string
  rq_request_id :: string
  rq_query :: "string \<Rightarrow> runes"
  rq_body :: raw
  rq_ip :: string

text \<open>What the server draws for one request, and the probes of the readiness check.\<close>

record draws =
  dr_uuid :: string
  dr_conn :: string
  dr_now :: int
  dr_salt :: "gerr + string"
  dr_random :: string
  dr_upgraded :: bool
  dr_mysql :: "gerr option option"
  dr_redis :: "gerr option option"
  dr_kafka :: "gerr option option"

text \<open>\<open>gin.Context\<close>: the request and the private keys of the middleware.\<close>

record gin_context =
  gx_request :: request
  gx_request_id :: string
  gx_user :: "int option"
  gx_device :: "string option"

record message_dto =
  dt_message_id :: string
  dt_client_msg_id :: string
  dt_conversation_id :: string
  dt_seq :: int
  dt_sender_id :: string
  dt_content_type :: string
  dt_content :: raw
  dt_status :: string
  dt_sent_at :: int

record last_message_dto =
  dl_message_id :: string
  dl_seq :: int
  dl_content_type :: string
  dl_text :: runes
  dl_sent_at :: "int option"

record conversation_dto =
  dc_conversation_id :: string
  dc_type :: string
  dc_name :: runes
  dc_avatar_url :: string
  dc_last_seq :: int
  dc_read_seq :: int
  dc_unread_count :: int
  dc_last_message :: "last_message_dto option"
  dc_updated_at :: int

record public_user =
  pu_user_id :: string
  pu_username :: runes
  pu_nickname :: runes
  pu_avatar_url :: string

datatype reply_data =
    RegisterReply string runes runes int
  | LoginReply string string int string runes runes
  | MeReply public_user int
  | UserItems "public_user list" string bool
  | ConversationReply conversation_dto
  | ConversationItems "conversation_dto list" string bool
  | MessageReply message_dto
  | MessageItems "message_dto list" int int bool bool
  | ReadSeqReply int

record error_field =
  ef_code :: string
  ef_message :: string
  ef_details :: string
  ef_retryable :: bool
  ef_retry_after_ms :: int

datatype body =
    Body string reply_data
  | ErrorBody string error_field
  | WsBody ws_reply
  | HealthBody string "(string \<times> string) list"
  | MetricsBody
  | NoRoute

record response =
  rs_status :: int
  rs_body :: body

definition OK :: "string \<Rightarrow> reply_data \<Rightarrow> response" where
  "OK rid d = \<lparr>rs_status = 200, rs_body = Body rid d\<rparr>"

definition Created :: "string \<Rightarrow> reply_data \<Rightarrow> response" where
  "Created rid d = \<lparr>rs_status = 201, rs_body = Body rid d\<rparr>"

definition detailOf :: "gerr option \<Rightarrow> string" where
  "detailOf cause = (case cause of None \<Rightarrow> [] | Some e \<Rightarrow> Error e)"

fun error_field_of :: "gerr \<Rightarrow> error_field" where
  "error_field_of (Biz c msg r a k) =
     \<lparr>ef_code = code_string c, ef_message = msg, ef_details = detailOf k, ef_retryable = r, ef_retry_after_ms = a\<rparr>"
| "error_field_of e =
     \<lparr>ef_code = [], ef_message = [], ef_details = [], ef_retryable = False, ef_retry_after_ms = 0\<rparr>"

definition resp_Err :: "string \<Rightarrow> gerr \<Rightarrow> response" where
  "resp_Err rid err =
     (let e = (case As err of Some e \<Rightarrow> e | None \<Rightarrow> Internal (Some err)) in
      \<lparr>rs_status = HTTPStatus e, rs_body = ErrorBody rid (error_field_of e)\<rparr>)"

section \<open>The server\<close>

text \<open>
  The server: the WebSocket side with its services, the two identifier generators and the bulkhead
  of the history queries. \<open>hd_limited\<close>, \<open>hd_bulkhead\<close> and \<open>hd_metrics\<close> say whether the optional parts
  are there.
\<close>

record ('l, 's, 'g) http_world =
  hw_ws :: "('l, 's) ws_world"
  hw_user_ids :: 'g
  hw_conv_ids :: 'g
  hw_history :: bulkhead

record ('l, 's, 'g) http_deps =
  hd_ws :: "('l, 's) ws_deps"
  hd_users :: "'g user_deps"
  hd_conv_next :: "('g, int) svc"
  hd_max_group :: int
  hd_limited :: bool
  hd_bulkhead :: bool
  hd_metrics :: bool

definition hw_msg :: "('l, 's, 'g) http_world \<Rightarrow> ('l, 's) msg_world" where
  "hw_msg w = ww_msg (hw_ws w)"

definition put_msg :: "('l, 's) msg_world \<Rightarrow> ('l, 's, 'g) http_world \<Rightarrow> ('l, 's, 'g) http_world" where
  "put_msg m w = w\<lparr>hw_ws := (hw_ws w)\<lparr>ww_msg := m\<rparr>\<rparr>"

definition at_ws :: "(('l, 's) ws_world \<Rightarrow> 'a \<times> ('l, 's) ws_world) \<Rightarrow> ('l, 's, 'g) http_world \<Rightarrow> 'a \<times> ('l, 's, 'g) http_world" where
  "at_ws = zoomE hw_ws (\<lambda>p w. w\<lparr>hw_ws := p\<rparr>)"

definition at_service :: "(('l, 's) msg_world \<Rightarrow> 'a \<times> ('l, 's) msg_world) \<Rightarrow> ('l, 's, 'g) http_world \<Rightarrow> 'a \<times> ('l, 's, 'g) http_world" where
  "at_service = zoomE hw_msg put_msg"

definition at_users :: "('g user_world \<Rightarrow> 'a \<times> 'g user_world) \<Rightarrow> ('l, 's, 'g) http_world \<Rightarrow> 'a \<times> ('l, 's, 'g) http_world" where
  "at_users = zoomE (\<lambda>w. \<lparr>uw_db = mw_db (hw_msg w), uw_ids = hw_user_ids w\<rparr>)
     (\<lambda>p w. put_msg ((hw_msg w)\<lparr>mw_db := uw_db p\<rparr>) (w\<lparr>hw_user_ids := uw_ids p\<rparr>))"

definition at_convs :: "('g conv_world \<Rightarrow> 'a \<times> 'g conv_world) \<Rightarrow> ('l, 's, 'g) http_world \<Rightarrow> 'a \<times> ('l, 's, 'g) http_world" where
  "at_convs = zoomE (\<lambda>w. (mw_db (hw_msg w), hw_conv_ids w))
     (\<lambda>p w. put_msg ((hw_msg w)\<lparr>mw_db := fst p\<rparr>) (w\<lparr>hw_conv_ids := snd p\<rparr>))"

definition CurrentUserID :: "gin_context \<Rightarrow> int" where
  "CurrentUserID c = (case gx_user c of Some u \<Rightarrow> u | None \<Rightarrow> 0)"

definition query :: "gin_context \<Rightarrow> string \<Rightarrow> string" where
  "query c k = utf8 (rq_query (gx_request c) k)"

definition atoiDefault :: "string \<Rightarrow> int \<Rightarrow> int" where
  "atoiDefault s def =
     (if s = [] then def else case ParseInt s of None \<Rightarrow> def | Some v \<Rightarrow> if v \<le> 0 then def else v)"

text \<open>A handler answers a response, or panics (\<open>None\<close>), in the world it leaves.\<close>

type_synonym ('l, 's, 'g) handler = "('l, 's, 'g) http_world \<Rightarrow> response option \<times> ('l, 's, 'g) http_world"

definition answer :: "gin_context \<Rightarrow> ('a \<Rightarrow> response) \<Rightarrow> (gerr + 'a) \<times> 'w \<Rightarrow> response option \<times> 'w" where
  "answer c f x =
     (case x of
        (Inl err, w) \<Rightarrow> (Some (resp_Err (gx_request_id c) err), w)
      | (Inr a, w) \<Rightarrow> (Some (f a), w))"

definition refuse :: "gin_context \<Rightarrow> code \<Rightarrow> string \<Rightarrow> 'w \<Rightarrow> response option \<times> 'w" where
  "refuse c k msg w = (Some (resp_Err (gx_request_id c) (New k msg)), w)"

section \<open>Accounts\<close>

definition parse_register :: "raw \<Rightarrow> register_cmd option" where
  "parse_register b =
     Option.bind (object_of b) (\<lambda>fs.
     Option.bind (field as_runes ''username'' fs []) (\<lambda>name.
     Option.bind (field as_string ''password'' fs []) (\<lambda>pw.
     map_option (\<lambda>nick. \<lparr>rg_username = name, rg_password = pw, rg_nickname = nick\<rparr>)
       (field as_runes ''nickname'' fs []))))"

definition parse_login :: "raw \<Rightarrow> login_cmd option" where
  "parse_login b =
     Option.bind (object_of b) (\<lambda>fs.
     Option.bind (field as_runes ''username'' fs []) (\<lambda>name.
     Option.bind (field as_string ''password'' fs []) (\<lambda>pw.
     map_option (\<lambda>dev. \<lparr>lg_username = name, lg_password = pw, lg_device = dev\<rparr>)
       (field as_string ''device_id'' fs []))))"

definition handle_Register :: "('l, 's, 'g) http_deps \<Rightarrow> draws \<Rightarrow> gin_context \<Rightarrow> ('l, 's, 'g) handler" where
  "handle_Register D E c w =
     (case parse_register (rq_body (gx_request c)) of
        None \<Rightarrow> refuse c InvalidArgument ''malformed request body'' w
      | Some cmd \<Rightarrow>
          (case at_users (user_Register (hd_users D) (dr_salt E) (dr_now E) cmd) w of
             (None, w') \<Rightarrow> (None, w')
           | (Some r, w') \<Rightarrow>
               answer c (\<lambda>u. Created (gx_request_id c)
                 (RegisterReply (FormatInt (us_id u)) (us_username u) (us_nickname u) (us_created u))) (r, w')))"

definition login_service :: "('l, 's, 'g) http_deps \<Rightarrow> draws \<Rightarrow> gin_context \<Rightarrow> login_cmd \<Rightarrow> ('l, 's, 'g) handler" where
  "login_service D E c cmd w =
     (case at_service (at_db (user_Login (hd_users D) (dr_now E) cmd)) w of
        (None, w') \<Rightarrow> (None, w')
      | (Some r, w') \<Rightarrow>
          answer c (\<lambda>res. OK (gx_request_id c)
            (LoginReply (lr_token res) ''Bearer'' (lr_expires_in res) (FormatInt (us_id (lr_user res)))
              (us_username (lr_user res)) (us_nickname (lr_user res)))) (r, w'))"

definition handle_Login :: "('l, 's, 'g) http_deps \<Rightarrow> draws \<Rightarrow> gin_context \<Rightarrow> ('l, 's, 'g) handler" where
  "handle_Login D E c w =
     (case parse_login (rq_body (gx_request c)) of
        None \<Rightarrow> refuse c InvalidArgument ''malformed request body'' w
      | Some cmd \<Rightarrow>
          if \<not> hd_limited D then login_service D E c cmd w
          else
            (case at_service (at_limits (AllowLogin (md_local (wd_msg (hd_ws D))) (rq_ip (gx_request c))
                    (utf8 (lg_username cmd)) 5)) w of
               ((ok, retryAfter), w1) \<Rightarrow>
                 if \<not> ok
                 then (Some (resp_Err (gx_request_id c) (Retryable RateLimited ''too many login attempts'' retryAfter)), w1)
                 else login_service D E c cmd w1))"

definition ToPublic :: "user \<Rightarrow> public_user" where
  "ToPublic u = \<lparr>pu_user_id = FormatInt (us_id u), pu_username = us_username u, pu_nickname = us_nickname u,
     pu_avatar_url = us_avatar u\<rparr>"

definition handle_Me :: "gin_context \<Rightarrow> ('l, 's, 'g) handler" where
  "handle_Me c w =
     answer c (\<lambda>u. OK (gx_request_id c) (MeReply (ToPublic u) (us_created u)))
       (at_service (at_db (user_Get (CurrentUserID c))) w)"

definition handle_Search :: "('l, 's, 'g) http_deps \<Rightarrow> gin_context \<Rightarrow> ('l, 's, 'g) handler" where
  "handle_Search D c w =
     answer c (\<lambda>p. OK (gx_request_id c) (UserItems (map ToPublic (up_items p)) (up_next p) (up_more p)))
       (at_service (at_db (service_Search (ud_collation (hd_users D)) (rq_query (gx_request c) ''keyword'')
          (query c ''cursor'') (atoiDefault (query c ''limit'') 20))) w)"

section \<open>Conversations\<close>

definition parseType :: "string \<Rightarrow> gerr + int" where
  "parseType s =
     (if s = ''single'' then Inr TypeSingle
      else if s = ''group'' then Inr TypeGroup
      else Inl (New InvalidArgument ''invalid conversation type''))"

fun parseMemberIDs :: "string list \<Rightarrow> gerr + int list" where
  "parseMemberIDs [] = Inr []"
| "parseMemberIDs (s # ss) =
     (case ParseInt s of
        None \<Rightarrow> Inl (New InvalidArgument ''invalid member id'')
      | Some v \<Rightarrow>
          if v \<le> 0 then Inl (New InvalidArgument ''invalid member id'')
          else map_sum id ((#) v) (parseMemberIDs ss))"

definition last_message_of :: "conversation \<Rightarrow> last_message_dto option" where
  "last_message_of c =
     (if 0 < co_last_mid c
      then Some \<lparr>dl_message_id = FormatInt (co_last_mid c), dl_seq = co_last_seq c, dl_content_type = ''text'',
                 dl_text = co_last_preview c, dl_sent_at = co_last_at c\<rparr>
      else None)"

definition conversationDTO :: "conversation \<Rightarrow> conversation_dto" where
  "conversationDTO c =
     \<lparr>dc_conversation_id = FormatInt (co_id c), dc_type = (if co_type c = TypeGroup then ''group'' else ''single''),
      dc_name = co_name c, dc_avatar_url = co_avatar c, dc_last_seq = co_last_seq c, dc_read_seq = co_read_seq c,
      dc_unread_count = co_unread c, dc_last_message = last_message_of c, dc_updated_at = co_updated c\<rparr>"

definition parse_create :: "raw \<Rightarrow> (string \<times> runes \<times> string list) option" where
  "parse_create b =
     Option.bind (object_of b) (\<lambda>fs.
     Option.bind (field as_string ''type'' fs []) (\<lambda>typ.
     Option.bind (field as_runes ''name'' fs []) (\<lambda>name.
     map_option (\<lambda>ids. (typ, name, ids)) (field as_strings ''member_ids'' fs []))))"

text \<open>The service marks an index panic as an error of its own, which here becomes one.\<close>

definition handle_Create :: "('l, 's, 'g) http_deps \<Rightarrow> draws \<Rightarrow> gin_context \<Rightarrow> ('l, 's, 'g) handler" where
  "handle_Create D E c w =
     (case parse_create (rq_body (gx_request c)) of
        None \<Rightarrow> refuse c InvalidArgument ''malformed request body'' w
      | Some (typ, name, ids) \<Rightarrow>
     (case parseType typ of
        Inl err \<Rightarrow> (Some (resp_Err (gx_request_id c) err), w)
      | Inr convType \<Rightarrow>
     (case parseMemberIDs ids of
        Inl err \<Rightarrow> (Some (resp_Err (gx_request_id c) err), w)
      | Inr memberIDs \<Rightarrow>
     (case at_convs (conv_Create (hd_max_group D) (dr_now E) (hd_conv_next D)
             \<lparr>cc_sender = CurrentUserID c, cc_type = convType, cc_name = name, cc_members = memberIDs\<rparr>) w of
        (Inl (OtherError msg), w') \<Rightarrow>
          if msg = ''panic: index out of range'' then (None, w')
          else (Some (resp_Err (gx_request_id c) (OtherError msg)), w')
      | x \<Rightarrow>
          answer c (\<lambda>(conv, created).
            (if created then Created else OK) (gx_request_id c) (ConversationReply (conversationDTO conv))) x))))"

definition handle_List :: "gin_context \<Rightarrow> ('l, 's, 'g) handler" where
  "handle_List c w =
     answer c (\<lambda>p. OK (gx_request_id c) (ConversationItems (map conversationDTO (cp_items p)) (cp_next p) (cp_has_more p)))
       (at_service (at_db (conv_List (CurrentUserID c) (query c ''cursor'') (atoiDefault (query c ''limit'') 20))) w)"

definition handle_Get :: "gin_context \<Rightarrow> string \<Rightarrow> ('l, 's, 'g) handler" where
  "handle_Get c cid w =
     (case ParseInt cid of
        None \<Rightarrow> refuse c InvalidArgument ''invalid conversation id'' w
      | Some conv \<Rightarrow>
          answer c (\<lambda>conv. OK (gx_request_id c) (ConversationReply (conversationDTO conv)))
            (at_service (at_db (conv_Get (CurrentUserID c) conv)) w))"

section \<open>Messages\<close>

definition StatusRecalled :: int where "StatusRecalled = 2"

definition contentTypeName :: "int \<Rightarrow> string" where
  "contentTypeName t =
     (if t = TypeText then ''text'' else if t = TypeImage then ''image'' else if t = TypeFile then ''file''
      else ''system'')"

definition statusName :: "int \<Rightarrow> string" where
  "statusName s = (if s = Content.StatusNormal then ''persisted'' else if s = StatusRecalled then ''recalled'' else ''deleted'')"

definition messageDTO :: "message \<Rightarrow> message_dto" where
  "messageDTO m =
     \<lparr>dt_message_id = FormatInt (m_id m), dt_client_msg_id = m_client_id m, dt_conversation_id = FormatInt (m_conv m),
      dt_seq = m_seq m, dt_sender_id = FormatInt (m_sender m), dt_content_type = contentTypeName (m_type m),
      dt_content = m_content m, dt_status = statusName (m_status m), dt_sent_at = m_created m\<rparr>"

definition history_page :: "('l, 's, 'g) http_deps \<Rightarrow> gin_context \<Rightarrow> int \<Rightarrow> ('l, 's, 'g) handler" where
  "history_page D c conv w =
     answer c (\<lambda>p. OK (gx_request_id c)
         (MessageItems (map messageDTO (mp_items p)) (mp_next_before p) (mp_next_after p) (mp_has_more p) (mp_resync p)))
       (at_service (ListHistory (wd_msg (hd_ws D))
          \<lparr>hq_actor = CurrentUserID c, hq_conv = conv, hq_before = atoiDefault (query c ''before_seq'') 0,
           hq_after = atoiDefault (query c ''after_seq'') 0, hq_limit = atoiDefault (query c ''limit'') 20\<rparr>) w)"

text \<open>The deferred \<open>Release\<close> comes after the answer.\<close>

definition history_bulkhead :: "('l, 's, 'g) http_deps \<Rightarrow> gin_context \<Rightarrow> int \<Rightarrow> ('l, 's, 'g) handler" where
  "history_bulkhead D c conv w =
     (if \<not> hd_bulkhead D then history_page D c conv w
      else
        (case bh_Acquire (hw_history w) of
           (Some err, b) \<Rightarrow> (Some (resp_Err (gx_request_id c) err), w\<lparr>hw_history := b\<rparr>)
         | (None, b) \<Rightarrow>
             (case history_page D c conv (w\<lparr>hw_history := b\<rparr>) of
                (r, w') \<Rightarrow> (r, w'\<lparr>hw_history := bh_Release (hw_history w')\<rparr>))))"

definition handle_Messages :: "('l, 's, 'g) http_deps \<Rightarrow> gin_context \<Rightarrow> string \<Rightarrow> ('l, 's, 'g) handler" where
  "handle_Messages D c cid w =
     (case ParseInt cid of
        None \<Rightarrow> refuse c InvalidArgument ''invalid conversation id'' w
      | Some conv \<Rightarrow>
          if \<not> hd_limited D then history_bulkhead D c conv w
          else
            (case at_service (at_limits (AllowHistory (md_local (wd_msg (hd_ws D))) (CurrentUserID c) conv 20 10)) w of
               ((ok, retryAfter), w1) \<Rightarrow>
                 if \<not> ok
                 then (Some (resp_Err (gx_request_id c) (Retryable RateLimited ''querying too often'' retryAfter)), w1)
                 else history_bulkhead D c conv w1))"

definition handle_MarkRead :: "gin_context \<Rightarrow> string \<Rightarrow> ('l, 's, 'g) handler" where
  "handle_MarkRead c cid w =
     (case ParseInt cid of
        None \<Rightarrow> refuse c InvalidArgument ''invalid conversation id'' w
      | Some conv \<Rightarrow>
          (case Option.bind (object_of (rq_body (gx_request c))) (\<lambda>fs. field as_int64 ''read_seq'' fs 0) of
             None \<Rightarrow> refuse c InvalidArgument ''malformed request body'' w
           | Some seq \<Rightarrow>
               answer c (\<lambda>_. OK (gx_request_id c) (ReadSeqReply seq))
                 (at_service (MarkRead (CurrentUserID c) conv seq) w)))"

definition handle_ByClientID :: "('l, 's, 'g) http_deps \<Rightarrow> gin_context \<Rightarrow> string \<Rightarrow> ('l, 's, 'g) handler" where
  "handle_ByClientID D c cid w =
     answer c (\<lambda>m. OK (gx_request_id c) (MessageReply (messageDTO m)))
       (at_service (GetByClientMessageID (wd_msg (hd_ws D)) (CurrentUserID c) cid) w)"

section \<open>Health and WebSocket entry\<close>

definition statusOf :: "gerr option \<Rightarrow> string" where
  "statusOf err = (case err of None \<Rightarrow> ''ok'' | Some e \<Rightarrow> ''error: '' @ Error e)"

definition handle_Live :: response where
  "handle_Live = \<lparr>rs_status = 200, rs_body = HealthBody ''alive'' []\<rparr>"

definition handle_Ready :: "draws \<Rightarrow> response" where
  "handle_Ready E =
     (let probes = concat (map (\<lambda>(name, p). case p of None \<Rightarrow> [] | Some err \<Rightarrow> [(name, err)])
            [(''mysql'', dr_mysql E), (''redis'', dr_redis E), (''kafka'', dr_kafka E)]);
          ok = list_all (\<lambda>(name, err). err = None) probes in
      \<lparr>rs_status = (if ok then 200 else 503),
       rs_body = HealthBody (if ok then ''ready'' else ''not_ready'') (map (\<lambda>(name, err). (name, statusOf err)) probes)\<rparr>)"

text \<open>The status of the answers of the WebSocket handler; after an upgrade, or when the library refused
  one, this code writes nothing (status 0).\<close>

fun ws_response :: "ws_reply \<Rightarrow> response" where
  "ws_response (WsError s msg) = \<lparr>rs_status = s, rs_body = WsBody (WsError s msg)\<rparr>"
| "ws_response (TicketReply t) = \<lparr>rs_status = 200, rs_body = WsBody (TicketReply t)\<rparr>"
| "ws_response r = \<lparr>rs_status = 0, rs_body = WsBody r\<rparr>"

definition handle_Ticket :: "('l, 's, 'g) http_deps \<Rightarrow> draws \<Rightarrow> gin_context \<Rightarrow> ('l, 's, 'g) handler" where
  "handle_Ticket D E c w =
     (case at_ws (CreateTicket (hd_ws D) (dr_now E) (dr_random E) (CurrentUserID c) (rq_body (gx_request c))) w of
        (r, w') \<Rightarrow> (Some (ws_response r), w'))"

definition handle_Upgrade :: "('l, 's, 'g) http_deps \<Rightarrow> draws \<Rightarrow> gin_context \<Rightarrow> ('l, 's, 'g) handler" where
  "handle_Upgrade D E c w =
     (case Upgrade (hd_ws D) (dr_now E) (dr_conn E) (rq_ip (gx_request c)) (dr_upgraded E) (query c ''ticket'') (hw_ws w) of
        None \<Rightarrow> (None, w)
      | Some (r, ws) \<Rightarrow> (Some (ws_response r), w\<lparr>hw_ws := ws\<rparr>))"

section \<open>Router and middleware\<close>

datatype endpoint =
    LiveRoute | ReadyRoute | MetricsRoute | WsRoute | RegisterRoute | LoginRoute
  | MeRoute | SearchRoute | CreateRoute | ListRoute | GetRoute string | MessagesRoute string
  | MarkReadRoute string | ByClientIDRoute string | TicketRoute

definition api_route :: "string \<Rightarrow> string list \<Rightarrow> endpoint option" where
  "api_route m p =
     (if m = ''POST'' \<and> p = [''auth'', ''register''] then Some RegisterRoute
      else if m = ''POST'' \<and> p = [''auth'', ''login''] then Some LoginRoute
      else if m = ''GET'' \<and> p = [''users'', ''me''] then Some MeRoute
      else if m = ''GET'' \<and> p = [''users'', ''search''] then Some SearchRoute
      else if m = ''POST'' \<and> p = [''conversations''] then Some CreateRoute
      else if m = ''GET'' \<and> p = [''conversations''] then Some ListRoute
      else if m = ''POST'' \<and> p = [''ws-tickets''] then Some TicketRoute
      else
        (case p of
           [a, cid] \<Rightarrow> if m = ''GET'' \<and> a = ''conversations'' then Some (GetRoute cid) else None
         | [a, b, s] \<Rightarrow>
             if m = ''GET'' \<and> a = ''conversations'' \<and> s = ''messages'' then Some (MessagesRoute b)
             else if m = ''PUT'' \<and> a = ''conversations'' \<and> s = ''read-cursor'' then Some (MarkReadRoute b)
             else if m = ''GET'' \<and> a = ''messages'' \<and> b = ''by-client-id'' then Some (ByClientIDRoute s)
             else None
         | _ \<Rightarrow> None))"

definition route_of :: "bool \<Rightarrow> string \<Rightarrow> string list \<Rightarrow> endpoint option" where
  "route_of with_metrics m p =
     (if m = ''GET'' \<and> p = [''health'', ''live''] then Some LiveRoute
      else if m = ''GET'' \<and> p = [''health'', ''ready''] then Some ReadyRoute
      else if with_metrics \<and> m = ''GET'' \<and> p = [''metrics''] then Some MetricsRoute
      else if m = ''GET'' \<and> p = [''ws''] then Some WsRoute
      else case p of a # b # q \<Rightarrow> if a = ''api'' \<and> b = ''v1'' then api_route m q else None | _ \<Rightarrow> None)"

text \<open>The routes behind \<open>middleware.Auth\<close>.\<close>

fun authorized :: "endpoint \<Rightarrow> bool" where
  "authorized LiveRoute = False"
| "authorized ReadyRoute = False"
| "authorized MetricsRoute = False"
| "authorized WsRoute = False"
| "authorized RegisterRoute = False"
| "authorized LoginRoute = False"
| "authorized _ = True"

fun handle_route :: "('l, 's, 'g) http_deps \<Rightarrow> draws \<Rightarrow> endpoint \<Rightarrow> gin_context \<Rightarrow> ('l, 's, 'g) handler" where
  "handle_route D E LiveRoute c w = (Some handle_Live, w)"
| "handle_route D E ReadyRoute c w = (Some (handle_Ready E), w)"
| "handle_route D E MetricsRoute c w = (Some \<lparr>rs_status = 200, rs_body = MetricsBody\<rparr>, w)"
| "handle_route D E WsRoute c w = handle_Upgrade D E c w"
| "handle_route D E RegisterRoute c w = handle_Register D E c w"
| "handle_route D E LoginRoute c w = handle_Login D E c w"
| "handle_route D E MeRoute c w = handle_Me c w"
| "handle_route D E SearchRoute c w = handle_Search D c w"
| "handle_route D E CreateRoute c w = handle_Create D E c w"
| "handle_route D E ListRoute c w = handle_List c w"
| "handle_route D E (GetRoute cid) c w = handle_Get c cid w"
| "handle_route D E (MessagesRoute cid) c w = handle_Messages D c cid w"
| "handle_route D E (MarkReadRoute cid) c w = handle_MarkRead c cid w"
| "handle_route D E (ByClientIDRoute cid) c w = handle_ByClientID D c cid w"
| "handle_route D E TicketRoute c w = handle_Ticket D E c w"

text \<open>\<open>Auth\<close> reads the claims of the bearer token; the rest of the chain runs only with them.\<close>

definition bearer :: "'g user_deps \<Rightarrow> int \<Rightarrow> string \<Rightarrow> gerr + claims" where
  "bearer D now header =
     (case strip_prefix ''Bearer '' header of
        None \<Rightarrow> Inl (New AuthRequired ''missing access token'')
      | Some tok \<Rightarrow> token_Parse (ud_jwt D) (ud_secret D) now tok)"

definition Auth :: "('l, 's, 'g) http_deps \<Rightarrow> draws \<Rightarrow> (gin_context \<Rightarrow> ('l, 's, 'g) handler) \<Rightarrow> gin_context \<Rightarrow> ('l, 's, 'g) handler" where
  "Auth D E rest c w =
     (case bearer (hd_users D) (dr_now E) (rq_authorization (gx_request c)) of
        Inl err \<Rightarrow> (Some (resp_Err (gx_request_id c) err), w)
      | Inr cl \<Rightarrow> rest (c\<lparr>gx_user := Some (cl_uid cl), gx_device := Some (cl_device cl)\<rparr>) w)"

definition RequestID :: "draws \<Rightarrow> request \<Rightarrow> string" where
  "RequestID E rq =
     (if rq_request_id rq = [] then ''req_'' @ filter (\<lambda>x. x \<noteq> CHR ''-'') (dr_uuid E) else rq_request_id rq)"

definition Recovery :: "string \<Rightarrow> response option \<times> 'w \<Rightarrow> response \<times> 'w" where
  "Recovery rid x = (case x of (None, w) \<Rightarrow> (resp_Err rid (Internal None), w) | (Some r, w) \<Rightarrow> (r, w))"

definition serve :: "('l, 's, 'g) http_deps \<Rightarrow> draws \<Rightarrow> request \<Rightarrow> ('l, 's, 'g) http_world \<Rightarrow> response \<times> ('l, 's, 'g) http_world" where
  "serve D E rq w =
     (let rid = RequestID E rq;
          c = \<lparr>gx_request = rq, gx_request_id = rid, gx_user = None, gx_device = None\<rparr> in
      case route_of (hd_metrics D) (rq_method rq) (rq_path rq) of
        None \<Rightarrow> (\<lparr>rs_status = 404, rs_body = NoRoute\<rparr>, w)
      | Some ep \<Rightarrow>
          Recovery rid (if authorized ep then Auth D E (handle_route D E ep) c w else handle_route D E ep c w))"

section \<open>What a request may change\<close>

definition tables :: "('l, 's, 'g) http_world \<Rightarrow> db" where
  "tables w = fst (mw_db (hw_msg w))"

definition slots :: "('l, 's, 'g) http_world \<Rightarrow> nat \<times> int \<times> nat" where
  "slots w = (bh_sem (hw_history w), bh_active (hw_history w), bh_holders (hw_history w))"

text \<open>Tables, broker and the slots of the bulkhead are as before.\<close>

definition still :: "('l, 's, 'g) http_world \<Rightarrow> ('l, 's, 'g) http_world \<Rightarrow> bool" where
  "still w w' \<longleftrightarrow> tables w' = tables w \<and> mw_kafka (hw_msg w') = mw_kafka (hw_msg w) \<and> slots w' = slots w"

definition reads :: "('l, 's) msg_world \<Rightarrow> ('l, 's) msg_world \<Rightarrow> bool" where
  "reads w w' \<longleftrightarrow> fst (mw_db w') = fst (mw_db w) \<and> mw_kafka w' = mw_kafka w"

lemma reads_trans: "reads a b \<Longrightarrow> reads b c \<Longrightarrow> reads a c"
  by (simp add: reads_def)

lemma reads_refl: "reads a a"
  by (simp add: reads_def)

lemma reads_bind: "keeps reads m \<Longrightarrow> (\<And>a. keeps reads (f a)) \<Longrightarrow> keeps reads (bindE m f)"
  by (rule keeps_bindE [OF reads_trans])

lemmas reads_simple = keeps_simple [of reads, OF reads_refl]

lemma reads_stores:
  "keeps reads (at_redis m)" "keeps reads (at_limits m2)"
  "(\<And>ms. fst (snd (m3 ms)) = fst ms) \<Longrightarrow> keeps reads (at_db m3)"
  by (simp_all add: keeps_def at_defs reads_def case_prod_beta)

lemma still_refl: "still w w"
  by (simp add: still_def)

lemma still_trans: "still a b \<Longrightarrow> still b c \<Longrightarrow> still a c"
  by (simp add: still_def)

lemma still_service: "keeps reads m \<Longrightarrow> still w (snd (at_service m w))"
  by (simp add: keeps_def at_service_def zoomE_def put_msg_def hw_msg_def still_def reads_def tables_def slots_def case_prod_beta)

lemma db_query_fst [simp]: "fst (snd (db_query q ms)) = fst ms"
  using db_query_cases by (metis prod.collapse)

lemma answer_world [simp]: "snd (answer c f x) = snd x"
  by (simp add: answer_def case_prod_beta split: sum.split prod.split)

lemma refuse_world [simp]: "snd (refuse c k msg w) = w"
  by (simp add: refuse_def)

lemma bindE_tables:
  assumes "\<And>ms. fst (snd (m ms)) = fst ms" and "\<And>a ms. fst (snd (f a ms)) = fst ms"
  shows "fst (snd (bindE m f ms)) = fst ms"
proof -
  obtain r w1 where m: "m ms = (r, w1)" by (rule prod.exhaust)
  have "fst w1 = fst ms" using assms(1) [of ms] by (simp add: m)
  then show ?thesis using assms(2) [of "projr r" w1] by (cases r) (simp_all add: bindE_def m)
qed

lemma queries_keep_tables:
  "fst (snd (FindByUsername C n ms)) = fst ms" "fst (snd (FindByID u ms)) = fst ms"
  "fst (snd (user_Search C kw cu li ms)) = fst ms" "fst (snd (ListByUser u ci ct li ms)) = fst ms"
  "fst (snd (ListBefore U co be li ms)) = fst ms" "fst (snd (ListAfter U co be li ms)) = fst ms"
  "fst (snd (FindByClientMessageID U s cid ms)) = fst ms" "fst (snd (GetByDirectUsers lo hi ms)) = fst ms"
  by (simp_all add: FindByUsername_def FindByID_def user_Search_def ListByUser_def ListBefore_def ListAfter_def
      FindByClientMessageID_def GetByDirectUsers_def case_prod_beta split: option.split)

lemma services_keep_tables:
  "fst (snd (CheckMember c u ms)) = fst ms" "fst (snd (conv_Get u c ms)) = fst ms"
proof -
  show "fst (snd (CheckMember c u ms)) = fst ms"
    using CheckMember_state [of c u ms "fst (CheckMember c u ms)" "snd (CheckMember c u ms)"] by simp
  show "fst (snd (conv_Get u c ms)) = fst ms"
    using conv_Get_state [of u c ms "fst (conv_Get u c ms)" "snd (conv_Get u c ms)"] by simp
qed

lemma user_services_keep_tables:
  "fst (snd (user_Get u ms)) = fst ms" "fst (snd (service_Search C kw cu li ms)) = fst ms"
proof -
  show "fst (snd (user_Get u ms)) = fst ms"
    unfolding user_Get_def by (rule bindE_tables) (simp_all add: queries_keep_tables split: option.split)
  show "fst (snd (service_Search C kw cu li ms)) = fst ms"
    unfolding service_Search_def Let_def
    by (simp split: option.split) (intro impI conjI allI bindE_tables; simp add: queries_keep_tables)
qed

lemma conv_List_keeps_tables: "fst (snd (conv_List u cu li ms)) = fst ms"
  unfolding conv_List_def Let_def
  by (simp split: option.split prod.split) (intro impI conjI allI bindE_tables; simp add: queries_keep_tables)

lemma Login_keeps_tables: "fst (snd (user_Login D now cmd ms)) = fst ms"
proof -
  obtain x ms' where f: "FindByUsername (ud_collation D) (normal_name (ud_lower D) (lg_username cmd)) ms = (x, ms')"
    by (rule prod.exhaust)
  with queries_keep_tables(1) have "fst ms' = fst ms" by (metis snd_conv)
  then show ?thesis by (auto simp: user_Login_def f split: sum.split option.split bool.split)
qed


lemma still_query: "(\<And>ms. fst (snd (m ms)) = fst ms) \<Longrightarrow> still w (snd (at_service (at_db m) w))"
  by (intro still_service reads_stores)

lemma recordCursor_reads: "reads w (recordCursor D q page w)"
  using reads_stores(1) [of "cursor_Advance c u s" for c u s] unfolding keeps_def
  by (auto simp: recordCursor_def Let_def reads_refl)

lemma history_reads: "keeps reads (ListHistory D q)"
proof -
  have after: "keeps reads (\<lambda>w. returnE page (recordCursor D q2 page w))" for page q2
    by (simp add: keeps_def recordCursor_reads)
  have "keeps reads (listAfter D q2 v)" for q2 v
    unfolding listAfter_def Let_def
    by (intro reads_bind reads_stores(3) after) (rule queries_keep_tables)
  moreover have "keeps reads (listBefore D q2 v)" for q2 v
    unfolding listBefore_def Let_def
    by (intro reads_bind reads_stores(3) reads_simple) (rule queries_keep_tables)
  ultimately show ?thesis
    unfolding ListHistory_def Let_def
    by (auto intro!: reads_bind reads_stores(3) reads_simple simp: services_keep_tables)
qed

lemma by_client_reads: "keeps reads (GetByClientMessageID D s cid)"
  unfolding GetByClientMessageID_def
  by (auto intro!: reads_bind reads_stores(3) reads_simple split: option.split simp: queries_keep_tables)

lemma at_users_login: "snd (at_service (at_db (user_Login D now cmd)) w) = w' \<Longrightarrow> still w w'"
  using still_query [of "user_Login D now cmd", OF Login_keeps_tables] by blast

lemma login_service_still: "still w (snd (login_service D E c cmd w))"
proof -
  obtain x w' where l: "at_service (at_db (user_Login (hd_users D) (dr_now E) cmd)) w = (x, w')" by (rule prod.exhaust)
  with at_users_login have "still w w'" by (metis snd_conv)
  then show ?thesis by (cases x) (simp_all add: login_service_def l)
qed

lemma limited_still:
  assumes "at_service (at_limits m) w = ((ok, wait), w1)"
  shows "still w w1"
  using still_service [OF reads_stores(2), of w m] assms by simp

lemma handle_Login_still: "still w (snd (handle_Login D E c w))"
  by (auto simp: handle_Login_def still_refl split: option.split prod.split dest!: limited_still
      intro: login_service_still still_trans [OF _ login_service_still])

lemma history_bulkhead_still: "still w (snd (history_bulkhead D c conv w))"
proof -
  have page: "still w (snd (history_page D c conv w))" for w
    by (simp add: history_page_def still_service history_reads)
  have "still w ((snd (history_page D c conv (w\<lparr>hw_history := b\<rparr>)))
      \<lparr>hw_history := bh_Release (hw_history (snd (history_page D c conv (w\<lparr>hw_history := b\<rparr>))))\<rparr>)"
    if "bh_Acquire (hw_history w) = (None, b)" for b
    using page [of "w\<lparr>hw_history := b\<rparr>"] that
    by (auto simp: still_def tables_def slots_def hw_msg_def bh_Acquire_def bh_Release_def split: if_splits)
  moreover have "still w (w\<lparr>hw_history := b\<rparr>)" if "bh_Acquire (hw_history w) = (Some e, b)" for e b
    using that by (auto simp: still_def tables_def slots_def hw_msg_def bh_Acquire_def split: if_splits)
  ultimately show ?thesis
    using page by (auto simp: history_bulkhead_def case_prod_beta split: option.split) (metis prod.collapse)+
qed

lemma handle_Messages_still: "still w (snd (handle_Messages D c cid w))"
  by (auto simp: handle_Messages_def still_refl split: option.split prod.split dest!: limited_still
      intro: history_bulkhead_still still_trans [OF _ history_bulkhead_still])

lemma handle_queries_still:
  "still w (snd (handle_Me c w))" "still w (snd (handle_Search D c w))" "still w (snd (handle_List c w))"
  "still w (snd (handle_Get c cid w))" "still w (snd (handle_ByClientID D c cid w))"
  unfolding handle_Me_def handle_Search_def handle_List_def handle_Get_def handle_ByClientID_def
  by (auto intro!: still_query simp: still_refl still_service [OF by_client_reads] user_services_keep_tables
      conv_List_keeps_tables services_keep_tables split: option.split)

lemma handle_Ticket_still: "still w (snd (handle_Ticket D E c w))"
  by (auto simp: handle_Ticket_def at_ws_def CreateTicket_def at_msg_def at_redis_def zoomE_def still_def tables_def slots_def
      hw_msg_def split: prod.splits sum.splits option.splits)

lemma handle_Upgrade_still: "still w (snd (handle_Upgrade D E c w))"
proof (cases "Upgrade (hd_ws D) (dr_now E) (dr_conn E) (rq_ip (gx_request c)) (dr_upgraded E) (query c ''ticket'') (hw_ws w)")
  case None
  then show ?thesis by (simp add: handle_Upgrade_def still_refl)
next
  case (Some x)
  then have "mw_db (ww_msg (snd x)) = mw_db (ww_msg (hw_ws w)) \<and> mw_kafka (ww_msg (snd x)) = mw_kafka (ww_msg (hw_ws w))"
    by (auto simp: Upgrade_def Let_def sendReady_def own_push_def at_msg_def at_redis_def at_limits_def zoomE_def
        split: prod.splits sum.splits option.splits if_splits)
  with Some show ?thesis by (auto simp: handle_Upgrade_def still_def tables_def slots_def hw_msg_def split: prod.split)
qed


section \<open>What the other requests change\<close>

lemma user_Create_tables:
  "fst (snd (user_Create C u hash ms)) \<in> {fst ms, (fst ms)\<lparr>d_users := d_users (fst ms) @ [user_row_of u hash]\<rparr>}"
proof -
  obtain x ms' where t: "db_tx (insert_user C (user_row_of u hash)) ms = (x, ms')" by (rule prod.exhaust)
  have "fst ms' \<in> {fst ms, (fst ms)\<lparr>d_users := d_users (fst ms) @ [user_row_of u hash]\<rparr>}"
    using db_tx_cases [OF t] by (auto simp: insert_user_def split: if_splits)
  then show ?thesis by (auto simp: user_Create_def t split: sum.split)
qed

text \<open>At most one more user row.\<close>

definition one_user_more :: "db \<Rightarrow> db \<Rightarrow> bool" where
  "one_user_more d d' \<longleftrightarrow> (\<exists>rows. length rows \<le> 1 \<and> d' = d\<lparr>d_users := d_users d @ rows\<rparr>)"

lemma one_user_more_cases: "d' \<in> {d, d\<lparr>d_users := d_users d @ [r]\<rparr>} \<Longrightarrow> one_user_more d d'"
proof -
  assume "d' \<in> {d, d\<lparr>d_users := d_users d @ [r]\<rparr>}"
  then have "d' = d\<lparr>d_users := d_users d @ []\<rparr> \<or> d' = d\<lparr>d_users := d_users d @ [r]\<rparr>" by simp
  then show ?thesis unfolding one_user_more_def by (metis One_nat_def le_SucI list.size(3,4) order_refl add_0)
qed

lemma user_Create_more: "user_Create C u hash ms = (e, ms') \<Longrightarrow> one_user_more (fst ms) (fst ms')"
  using one_user_more_cases [OF user_Create_tables, of ms C u hash] by simp

lemma one_user_more_refl: "one_user_more d d"
  by (rule one_user_more_cases) simp

lemma register_user_tables: "register_user D salt now n k p i w = (r, w') \<Longrightarrow> one_user_more (fst (uw_db w)) (fst (uw_db w'))"
  by (auto simp: register_user_def Let_def uw_at_db_def zoomE_def one_user_more_refl
      split: option.splits sum.splits prod.splits dest!: user_Create_more)

lemma user_Register_tables: "user_Register D salt now cmd w = (r, w') \<Longrightarrow> one_user_more (fst (uw_db w)) (fst (uw_db w'))"
  by (auto simp: user_Register_def Let_def one_user_more_refl uw_at_ids_def zoomE_def
      split: if_splits sum.splits prod.splits dest!: register_user_tables)

lemma handle_Register_effect:
  "one_user_more (tables w) (tables (snd (handle_Register D E c w)))
   \<and> mw_kafka (hw_msg (snd (handle_Register D E c w))) = mw_kafka (hw_msg w)
   \<and> slots (snd (handle_Register D E c w)) = slots w"
proof (cases "parse_register (rq_body (gx_request c))")
  case None
  then show ?thesis by (simp add: handle_Register_def one_user_more_refl)
next
  case (Some cmd)
  let ?uw = "\<lparr>uw_db = mw_db (hw_msg w), uw_ids = hw_user_ids w\<rparr>"
  obtain x uw where u: "user_Register (hd_users D) (dr_salt E) (dr_now E) cmd ?uw = (x, uw)" by (rule prod.exhaust)
  from user_Register_tables [OF u] have "one_user_more (tables w) (fst (uw_db uw))" by (simp add: tables_def)
  then show ?thesis
    by (cases x) (simp_all add: handle_Register_def Some at_users_def zoomE_def u [unfolded hw_msg_def] put_msg_def tables_def hw_msg_def slots_def)
qed

text \<open>A new conversation with its members: owned by \<open>u\<close>, who is one of them, under a new id.\<close>

definition conversation_more :: "int \<Rightarrow> db \<Rightarrow> db \<Rightarrow> bool" where
  "conversation_more u d d' \<longleftrightarrow>
     (\<exists>c ms. d' = d\<lparr>d_convs := d_convs d @ [c], d_members := d_members d @ ms\<rparr>
        \<and> cr_owner c = u \<and> cr_id c \<notin> cr_id ` set (d_convs d)
        \<and> u \<in> mb_user ` set ms \<and> (\<forall>m \<in> set ms. mb_conv m = cr_id c \<and> mb_status m = MemberStatusNormal))"

lemma set_dedupe_from: "set (dedupe_from seen is) = {i \<in> set is. 0 < i \<and> i \<notin> set seen}"
proof (induction "is" arbitrary: seen)
  case (Cons i js)
  show ?case by (cases "i \<le> 0 \<or> i \<in> set seen") (auto simp: List.member_iff Cons.IH)
qed simp

lemma create_tx_more:
  assumes "create_tx now conv ids d = (Inr b, d')" and "co_owner conv \<in> set ids"
  shows "conversation_more (co_owner conv) d d'"
proof -
  from assms(1) obtain pair d1 where i: "insert_conversation (new_conversation_row now conv pair) d = Inr d1"
    and m: "insert_members now conv ids d1 = Inr d'"
    by (auto simp: create_tx_def Let_def split: if_splits sum.splits)
  let ?c = "new_conversation_row now conv pair"
  from i have d1: "d1 = d\<lparr>d_convs := d_convs d @ [?c]\<rparr>" "cr_id ?c \<notin> cr_id ` set (d_convs d)"
    by (auto simp: insert_conversation_def list_ex_iff split: if_splits)
  from m have "d' = d1\<lparr>d_members := d_members d1 @ map (new_member now conv) ids\<rparr>" by (simp add: insert_members_ok)
  with d1(1) have "d' = d\<lparr>d_convs := d_convs d @ [?c], d_members := d_members d @ map (new_member now conv) ids\<rparr>" by simp
  moreover have "cr_owner ?c = co_owner conv" "cr_id ?c = co_id conv" by (simp_all add: new_conversation_row_def)
  ultimately show ?thesis
    using d1(2) assms(2) unfolding conversation_more_def
    by (intro exI [of _ ?c] exI [of _ "map (new_member now conv) ids"]) (force simp: new_member_def image_image)
qed

lemma CreateWithMembers_more:
  assumes "co_owner conv \<in> set ids"
  shows "fst (snd (CreateWithMembers now conv ids ms)) = fst ms
    \<or> conversation_more (co_owner conv) (fst ms) (fst (snd (CreateWithMembers now conv ids ms)))"
proof -
  obtain x ms' where t: "db_tx (create_tx now conv ids) ms = (x, ms')" by (rule prod.exhaust)
  have "fst ms' = fst ms \<or> conversation_more (co_owner conv) (fst ms) (fst ms')"
    using db_tx_cases [OF t] create_tx_more [OF _ assms, of now "fst ms"] by (metis prod.collapse)
  then show ?thesis by (auto simp: CreateWithMembers_def t split: sum.split)
qed


lemma on_db_tables: "(\<And>ms. fst (snd (m ms)) = fst ms) \<Longrightarrow> on_db m w = (r, w') \<Longrightarrow> fst (fst w') = fst (fst w)"
  by (cases w') (metis on_db_iff snd_conv fst_conv)

lemma conv_create_new_more:
  assumes "conv_create_new mx now draw cmd mem w = (r, w')" and "cc_sender cmd \<in> set mem"
  shows "fst (fst w') = fst (fst w) \<or> conversation_more (cc_sender cmd) (fst (fst w)) (fst (fst w'))"
proof -
  obtain x w1 where ids: "on_ids draw w = (x, w1)" by (rule prod.exhaust)
  then have w1: "fst w1 = fst w" by (auto simp: on_ids_def split: prod.splits)
  show ?thesis
  proof (cases x)
    case (Inl e)
    then show ?thesis using assms(1) ids w1 by (simp add: conv_create_new_def bindE_def)
  next
    case (Inr i)
    let ?conv = "new_conversation now cmd i"
    have o: "co_owner ?conv = cc_sender cmd" by (simp add: new_conversation_def)
    obtain y w2 where cw: "on_db (CreateWithMembers now ?conv mem) w1 = (y, w2)" by (rule prod.exhaust)
    then have "fst (fst w2) = fst (fst w) \<or> conversation_more (cc_sender cmd) (fst (fst w)) (fst (fst w2))"
      using CreateWithMembers_more [of ?conv mem now "fst w1"] assms(2) w1 o
      by (auto simp: on_db_def split: prod.splits)
    moreover have "fst (fst w') = fst (fst w) \<or> fst (fst w') = fst (fst w2)"
      using assms(1) ids Inr w1 cw
      by (auto simp: conv_create_new_def bindE_def Let_def queries_keep_tables
          split: if_splits prod.splits sum.splits list.splits option.splits dest!: on_db_tables [rotated])
    ultimately show ?thesis by auto
  qed
qed


lemma conv_Create_more:
  assumes "conv_Create mx now draw cmd w = (r, w')" and "0 < cc_sender cmd"
  shows "fst (fst w') = fst (fst w) \<or> conversation_more (cc_sender cmd) (fst (fst w)) (fst (fst w'))"
proof -
  let ?mem = "dedupe (cc_members cmd @ [cc_sender cmd])"
  have s: "cc_sender cmd \<in> set ?mem" using assms(2) by (simp add: dedupe_def set_dedupe_from)
  note new = conv_create_new_more [OF _ s]
  show ?thesis
  proof (cases "\<exists>other. cc_type cmd = TypeSingle \<and> membersWithout ?mem (cc_sender cmd) = [other]")
    case True
    then obtain other where o: "cc_type cmd = TypeSingle" "membersWithout ?mem (cc_sender cmd) = [other]" by blast
    obtain low high where p: "sortPair (cc_sender cmd) other = (low, high)" by (rule prod.exhaust)
    obtain x w1 where g: "on_db (GetByDirectUsers low high) w = (x, w1)" by (rule prod.exhaust)
    have w1: "fst (fst w1) = fst (fst w)" by (rule on_db_tables [OF queries_keep_tables(8) g])
    have "fst (fst w') = fst (fst w1) \<or> conv_create_new mx now draw cmd ?mem w1 = (r, w')"
      using assms(1) o p g by (auto simp: conv_Create_def bindE_def Let_def split: sum.splits option.splits)
    then show ?thesis using new w1 by metis
  next
    case False
    then have "w' = w \<or> conv_create_new mx now draw cmd ?mem w = (r, w')"
      using assms(1) by (auto simp: conv_Create_def Let_def split: if_splits list.splits)
    then show ?thesis using new by metis
  qed
qed

lemma handle_Create_effect:
  assumes "gx_user c = Some u" and "0 < u"
  shows "(tables (snd (handle_Create D E c w)) = tables w \<or> conversation_more u (tables w) (tables (snd (handle_Create D E c w))))
    \<and> mw_kafka (hw_msg (snd (handle_Create D E c w))) = mw_kafka (hw_msg w)
    \<and> slots (snd (handle_Create D E c w)) = slots w"
proof -
  have create: "(tables w' = tables w \<or> conversation_more u (tables w) (tables w'))
      \<and> mw_kafka (hw_msg w') = mw_kafka (hw_msg w) \<and> slots w' = slots w"
    if a: "at_convs (conv_Create (hd_max_group D) (dr_now E) (hd_conv_next D)
      \<lparr>cc_sender = CurrentUserID c, cc_type = ty, cc_name = nm, cc_members = mem\<rparr>) w = (x, w')" for ty nm mem x w'
  proof -
    let ?cmd = "\<lparr>cc_sender = u, cc_type = ty, cc_name = nm, cc_members = mem\<rparr>"
    obtain ms g where cc: "conv_Create (hd_max_group D) (dr_now E) (hd_conv_next D) ?cmd (mw_db (hw_msg w), hw_conv_ids w)
        = (x, (ms, g))" and w': "w' = put_msg ((hw_msg w)\<lparr>mw_db := ms\<rparr>) (w\<lparr>hw_conv_ids := g\<rparr>)"
      using a assms(1) by (auto simp: at_convs_def zoomE_def CurrentUserID_def split: prod.splits)
    from conv_Create_more [OF cc] assms(2) show ?thesis
      by (auto simp: w' tables_def put_msg_def hw_msg_def slots_def)
  qed
  show ?thesis
  proof (cases "parse_create (rq_body (gx_request c))")
    case None
    then show ?thesis by (simp add: handle_Create_def)
  next
    case (Some p)
    obtain name0 nm ids where p: "p = (name0, nm, ids)" by (metis prod_cases3)
    show ?thesis
    proof (cases "\<exists>ty mem. parseType name0 = Inr ty \<and> parseMemberIDs ids = Inr mem")
      case False
      then show ?thesis by (auto simp: handle_Create_def Some p split: sum.split)
    next
      case True
      then obtain ty mem where t: "parseType name0 = Inr ty" "parseMemberIDs ids = Inr mem" by blast
      obtain x w' where a: "at_convs (conv_Create (hd_max_group D) (dr_now E) (hd_conv_next D)
        \<lparr>cc_sender = CurrentUserID c, cc_type = ty, cc_name = nm, cc_members = mem\<rparr>) w = (x, w')" by (rule prod.exhaust)
      have "snd (handle_Create D E c w) = w'"
        by (simp add: handle_Create_def Some p t a split: sum.split gerr.split)
      with create [OF a] show ?thesis by simp
    qed
  qed
qed

text \<open>Rows of the user got a higher read sequence, all others are as before.\<close>

definition own_reads :: "int \<Rightarrow> db \<Rightarrow> db \<Rightarrow> bool" where
  "own_reads u d d' \<longleftrightarrow>
     (\<exists>ms. d' = d\<lparr>d_members := ms\<rparr>
        \<and> list_all2 (\<lambda>r r'. r' = r \<or> mb_user r = u \<and> mb_read_seq r < mb_read_seq r' \<and> r' = r\<lparr>mb_read_seq := mb_read_seq r'\<rparr>)
            (d_members d) ms)"

lemma own_reads_refl: "own_reads u d d"
  by (auto simp: own_reads_def list_all2_refl intro!: exI [of _ "d_members d"])

lemma AdvanceReadCursor_own: "AdvanceReadCursor c u s ms = (e, ms') \<Longrightarrow> own_reads u (fst ms) (fst ms')"
proof -
  assume a: "AdvanceReadCursor c u s ms = (e, ms')"
  have "own_reads u d (d\<lparr>d_members := update_where (cursor_target c u s mb_read_seq d)
      (\<lambda>r. r\<lparr>mb_read_seq := s\<rparr>) (d_members d)\<rparr>)" for d
    unfolding own_reads_def
    by (intro exI conjI refl) (auto simp: update_where_def list_all2_map2 cursor_target_def intro!: list_all2_refl)
  with a own_reads_refl show ?thesis
    by (auto simp: AdvanceReadCursor_def split: prod.splits sum.splits dest!: db_exec_cases)
qed


lemma MarkRead_own:
  assumes "MarkRead u c s m = (r, m')"
  shows "own_reads u (fst (mw_db m)) (fst (mw_db m')) \<and> mw_kafka m' = mw_kafka m"
proof -
  let ?P = "\<lambda>a b :: ('l, 's) msg_world. own_reads u (fst (mw_db a)) (fst (mw_db b)) \<and> mw_kafka b = mw_kafka a"
  obtain x m1 where check: "at_db (CheckMember c u) m = (x, m1)" by (rule prod.exhaust)
  obtain y m2 where get: "at_db (conv_Get u c) m1 = (y, m2)" by (rule prod.exhaust)
  have k: "reads m m1" "reads m1 m2"
    using reads_stores(3) [of "CheckMember c u", OF services_keep_tables(1)]
      reads_stores(3) [of "conv_Get u c", OF services_keep_tables(2)] check get
    unfolding keeps_def by (metis snd_conv)+
  obtain z m3 where adv: "at_db (AdvanceReadCursor c u s) m2 = (z, m3)" by (rule prod.exhaust)
  have a: "own_reads u (fst (mw_db m2)) (fst (mw_db m3)) \<and> mw_kafka m3 = mw_kafka m2"
    using adv by (auto simp: at_db_def zoomE_def split: prod.splits dest: AdvanceReadCursor_own)
  have "m' \<in> {m, m1, m2, m3}"
    using assms check get adv by (auto simp: MarkRead_def bindE_def errE_def split: if_splits sum.splits option.splits)
  then show ?thesis using k a own_reads_refl by (auto simp: reads_def)
qed

lemma handle_MarkRead_effect:
  assumes "gx_user c = Some u"
  shows "own_reads u (tables w) (tables (snd (handle_MarkRead c cid w)))
    \<and> mw_kafka (hw_msg (snd (handle_MarkRead c cid w))) = mw_kafka (hw_msg w)
    \<and> slots (snd (handle_MarkRead c cid w)) = slots w"
proof -
  have "own_reads u (tables w) (tables (snd (at_service (MarkRead u conv s) w)))
    \<and> mw_kafka (hw_msg (snd (at_service (MarkRead u conv s) w))) = mw_kafka (hw_msg w)
    \<and> slots (snd (at_service (MarkRead u conv s) w)) = slots w" for conv s
    using MarkRead_own [of u conv s "hw_msg w"]
    by (auto simp: at_service_def zoomE_def put_msg_def hw_msg_def tables_def slots_def split: prod.split)
  then show ?thesis
    using own_reads_refl assms by (auto simp: handle_MarkRead_def CurrentUserID_def split: option.split)
qed

section \<open>The shape of the replies\<close>

definition reply_shape :: "endpoint \<Rightarrow> int \<Rightarrow> reply_data \<Rightarrow> bool" where
  "reply_shape ep s d \<longleftrightarrow>
     (case ep of
        RegisterRoute \<Rightarrow> (case d of RegisterReply _ _ _ _ \<Rightarrow> s = 201 | _ \<Rightarrow> False)
      | LoginRoute \<Rightarrow> (case d of LoginReply _ _ _ _ _ _ \<Rightarrow> s = 200 | _ \<Rightarrow> False)
      | MeRoute \<Rightarrow> (case d of MeReply _ _ \<Rightarrow> s = 200 | _ \<Rightarrow> False)
      | SearchRoute \<Rightarrow> (case d of UserItems _ _ _ \<Rightarrow> s = 200 | _ \<Rightarrow> False)
      | CreateRoute \<Rightarrow> (case d of ConversationReply _ \<Rightarrow> s \<in> {200, 201} | _ \<Rightarrow> False)
      | ListRoute \<Rightarrow> (case d of ConversationItems _ _ _ \<Rightarrow> s = 200 | _ \<Rightarrow> False)
      | GetRoute _ \<Rightarrow> (case d of ConversationReply _ \<Rightarrow> s = 200 | _ \<Rightarrow> False)
      | MessagesRoute _ \<Rightarrow> (case d of MessageItems _ _ _ _ _ \<Rightarrow> s = 200 | _ \<Rightarrow> False)
      | MarkReadRoute _ \<Rightarrow> (case d of ReadSeqReply _ \<Rightarrow> s = 200 | _ \<Rightarrow> False)
      | ByClientIDRoute _ \<Rightarrow> (case d of MessageReply _ \<Rightarrow> s = 200 | _ \<Rightarrow> False)
      | _ \<Rightarrow> False)"

text \<open>An error body has a code of the list, under the status of that code.\<close>

definition well_formed :: "endpoint \<Rightarrow> string \<Rightarrow> response \<Rightarrow> bool" where
  "well_formed ep rid r \<longleftrightarrow>
     (case rs_body r of
        Body rid' d \<Rightarrow> rid' = rid \<and> reply_shape ep (rs_status r) d
      | ErrorBody rid' f \<Rightarrow>
          rid' = rid \<and> (\<exists>c. ef_code f = code_string c \<and> rs_status r = (case httpStatus c of Some s \<Rightarrow> s | None \<Rightarrow> 500))
      | WsBody _ \<Rightarrow> ep \<in> {WsRoute, TicketRoute}
      | HealthBody _ _ \<Rightarrow> ep \<in> {LiveRoute, ReadyRoute}
      | MetricsBody \<Rightarrow> ep = MetricsRoute
      | NoRoute \<Rightarrow> False)"

lemma resp_Err_well_formed: "well_formed ep rid (resp_Err rid e)"
proof -
  have "\<exists>c m r a k. (case As e of Some x \<Rightarrow> x | None \<Rightarrow> Internal (Some e)) = Biz c m r a k"
    using As_Biz [of e] by (cases "As e") (auto simp: Internal_def Wrap_def)
  then show ?thesis by (auto simp: resp_Err_def well_formed_def)
qed

lemma answer_well_formed:
  "(\<And>a. well_formed ep (gx_request_id c) (f a)) \<Longrightarrow> pred_option (well_formed ep (gx_request_id c)) (fst (answer c f x))"
  by (auto simp: answer_def resp_Err_well_formed split: sum.split prod.split)

lemma refuse_well_formed: "pred_option (well_formed ep (gx_request_id c)) (fst (refuse c k m w))"
  by (simp add: refuse_def resp_Err_well_formed)

lemma ok_well_formed:
  "well_formed ep rid (OK rid d) \<longleftrightarrow> reply_shape ep 200 d" "well_formed ep rid (Created rid d) \<longleftrightarrow> reply_shape ep 201 d"
  by (simp_all add: well_formed_def OK_def Created_def)

lemma ws_well_formed: "ep \<in> {WsRoute, TicketRoute} \<Longrightarrow> well_formed ep rid (ws_response r)"
  by (cases r) (auto simp: well_formed_def)

lemmas handler_shapes = reply_shape_def answer_well_formed refuse_well_formed resp_Err_well_formed ok_well_formed ws_well_formed

lemma route_well_formed: "pred_option (well_formed ep (gx_request_id c)) (fst (handle_route D E ep c w))"
proof (cases ep)
  case CreateRoute
  have "pred_option (well_formed CreateRoute (gx_request_id c)) (fst (handle_Create D E c w))"
    unfolding handle_Create_def
    by (auto simp: handler_shapes intro!: answer_well_formed split: option.split sum.split prod.split gerr.split)
  with CreateRoute show ?thesis by simp
next
  case (MessagesRoute cid)
  have page: "pred_option (well_formed (MessagesRoute cid) (gx_request_id c)) (fst (history_page D c conv w))" for conv w
    unfolding history_page_def by (rule answer_well_formed) (simp add: ok_well_formed reply_shape_def)
  then have "pred_option (well_formed (MessagesRoute cid) (gx_request_id c)) (fst (history_bulkhead D c conv w))" for conv w
    by (auto simp: history_bulkhead_def resp_Err_well_formed split: option.split prod.split) (metis fst_conv)
  with MessagesRoute show ?thesis
    by (auto simp: handle_Messages_def refuse_well_formed resp_Err_well_formed split: option.split prod.split)
next
  case LoginRoute
  have "pred_option (well_formed LoginRoute (gx_request_id c)) (fst (login_service D E c cmd w))" for cmd w
    by (auto simp: login_service_def ok_well_formed reply_shape_def intro!: answer_well_formed split: option.split prod.split)
  with LoginRoute show ?thesis
    by (auto simp: handle_Login_def refuse_well_formed resp_Err_well_formed split: option.split prod.split)
qed (auto simp: handle_Register_def handle_Me_def handle_Search_def handle_List_def handle_Get_def handle_MarkRead_def
    handle_ByClientID_def handle_Ticket_def handle_Upgrade_def handler_shapes handle_Live_def handle_Ready_def
    well_formed_def [of MetricsRoute] well_formed_def [of LiveRoute] well_formed_def [of ReadyRoute] Let_def
    intro!: answer_well_formed ws_well_formed split: option.split prod.split)


section \<open>Properties\<close>

text \<open>What a route may do to the tables on behalf of the user \<open>u\<close>.\<close>

definition allowed :: "endpoint \<Rightarrow> int \<Rightarrow> db \<Rightarrow> db \<Rightarrow> bool" where
  "allowed ep u d d' \<longleftrightarrow>
     (case ep of
        RegisterRoute \<Rightarrow> one_user_more d d'
      | CreateRoute \<Rightarrow> d' = d \<or> conversation_more u d d'
      | MarkReadRoute cid \<Rightarrow> own_reads u d d'
      | _ \<Rightarrow> d' = d)"

lemma route_effect:
  assumes "\<not> authorized ep \<or> gx_user c = Some u \<and> 0 < u"
  shows "allowed ep u (tables w) (tables (snd (handle_route D E ep c w)))
    \<and> mw_kafka (hw_msg (snd (handle_route D E ep c w))) = mw_kafka (hw_msg w)
    \<and> slots (snd (handle_route D E ep c w)) = slots w"
proof -
  have quiet: ?thesis if "still w (snd (handle_route D E ep c w))"
    "\<And>cid. ep \<notin> {RegisterRoute, CreateRoute, MarkReadRoute cid}"
    using that by (cases ep) (simp_all add: still_def allowed_def own_reads_refl)
  show ?thesis
  proof (cases ep)
    case RegisterRoute
    then show ?thesis using handle_Register_effect [of w D E c] by (simp add: allowed_def)
  next
    case CreateRoute
    then show ?thesis using handle_Create_effect [of c u D E w] assms by (simp add: allowed_def)
  next
    case (MarkReadRoute cid)
    then show ?thesis using handle_MarkRead_effect [of c u w cid] assms by (simp add: allowed_def)
  qed (rule quiet; simp add: still_refl handle_Login_still handle_Messages_still handle_queries_still
      handle_Ticket_still handle_Upgrade_still)+
qed

lemma bearer_cases:
  "case bearer D now h of
     Inl err \<Rightarrow> rs_status (resp_Err rid err) = 401
   | Inr cl \<Rightarrow> 0 < cl_uid cl"
  by (auto simp: bearer_def token_Parse_def resp_Err_def New_def Wrap_def split: option.split sum.split prod.split)

lemma Recovery_world [simp]: "snd (Recovery rid x) = snd x"
  by (simp add: Recovery_def split: prod.split option.split)

text \<open>
  C21: What a request can do. A request to a protected route whose bearer token is missing or not
  accepted is answered 401 and changes nothing at all. Otherwise it acts for the user of the token:
  creating a conversation adds at most one conversation, under a new id, owned by that user and with
  that user among its members; marking read only raises read sequences in that user's own membership
  rows; every other route leaves all tables as they are. Of the public routes, registration adds at
  most one user row. No request publishes to Kafka, and every request gives back the slot of the
  history bulkhead it took, on every branch, panics included.
\<close>

theorem request_effects:
  assumes "serve D E rq w = (r, w')" and "route_of (hd_metrics D) (rq_method rq) (rq_path rq) = Some ep"
  shows "mw_kafka (hw_msg w') = mw_kafka (hw_msg w) \<and> slots w' = slots w
    \<and> (if authorized ep
       then (case bearer (hd_users D) (dr_now E) (rq_authorization rq) of
               Inl err \<Rightarrow> w' = w \<and> rs_status r = 401
             | Inr cl \<Rightarrow> 0 < cl_uid cl \<and> allowed ep (cl_uid cl) (tables w) (tables w'))
       else allowed ep 0 (tables w) (tables w'))"
proof (cases "authorized ep")
  case False
  let ?c = "\<lparr>gx_request = rq, gx_request_id = RequestID E rq, gx_user = None, gx_device = None\<rparr>"
  from False have w': "w' = snd (handle_route D E ep ?c w)"
    using assms by (auto simp: serve_def Let_def dest!: arg_cong [where f = snd])
  show ?thesis unfolding w' using False route_effect [of ep ?c 0 w D E] by simp
next
  case True
  note b = bearer_cases [where D = "hd_users D" and now = "dr_now E" and h = "rq_authorization rq" and rid = "RequestID E rq"]
  show ?thesis
  proof (cases "bearer (hd_users D) (dr_now E) (rq_authorization rq)")
    case (Inl err)
    then show ?thesis using assms True b by (simp add: serve_def Let_def Auth_def Recovery_def)
  next
    case (Inr cl)
    let ?c = "\<lparr>gx_request = rq, gx_request_id = RequestID E rq, gx_user = Some (cl_uid cl), gx_device = Some (cl_device cl)\<rparr>"
    have w': "w' = snd (handle_route D E ep ?c w)"
      using assms True Inr by (auto simp: serve_def Let_def Auth_def dest!: arg_cong [where f = snd])
    show ?thesis unfolding w' using Inr True b route_effect [of ep ?c "cl_uid cl" w D E] by simp
  qed
qed



text \<open>A client that presents a token of user 7 and creates a group.\<close>

definition demo_http :: "(unit, counting_breaker, int) http_deps" where
  "demo_http = \<lparr>hd_ws = demo_ws, hd_users = demo_users, hd_conv_next = count_ids, hd_max_group = 1024,
     hd_limited = True, hd_bulkhead = True, hd_metrics = False\<rparr>"

definition demo_http_world :: "(unit, counting_breaker, int) http_world" where
  "demo_http_world = \<lparr>hw_ws = demo_ws_world, hw_user_ids = 0, hw_conv_ids = 20, hw_history = NewBulkhead 2\<rparr>"

definition demo_draws :: draws where
  "demo_draws = \<lparr>dr_uuid = ''ab-cd'', dr_conn = ''c'', dr_now = 5000, dr_salt = Inr ''salt'', dr_random = ''r4nd'',
     dr_upgraded = True, dr_mysql = Some None, dr_redis = Some None, dr_kafka = None\<rparr>"

definition demo_claims :: claims where
  "demo_claims = \<lparr>cl_uid = 7, cl_device = ''web'', cl_issuer = ''gochat'', cl_issued = 0, cl_not_before = 0, cl_expires = 9000\<rparr>"

definition demo_request :: "string \<Rightarrow> string list \<Rightarrow> string \<Rightarrow> raw \<Rightarrow> request" where
  "demo_request m p a b = \<lparr>rq_method = m, rq_path = p, rq_authorization = a, rq_request_id = [], rq_query = (\<lambda>k. []),
     rq_body = b, rq_ip = ''ip''\<rparr>"

definition demo_group :: raw where
  "demo_group = Raw_json (JObj [(''type'', JStr (map of_char ''group'')), (''name'', JStr [71]),
     (''member_ids'', JArr [JStr (map of_char ''9'')])])"

definition demo_bearer :: string where
  "demo_bearer = ''Bearer '' @ join_bar (claims_parts demo_claims)"

lemma demo_bearer_claims: "bearer demo_users 5000 demo_bearer = Inr demo_claims"
proof -
  have "strip_prefix p (p @ s) = Some s" for p s :: string by (simp add: strip_prefix_def)
  then have "strip_prefix ''Bearer '' demo_bearer = Some (join_bar (claims_parts demo_claims))" unfolding demo_bearer_def .
  moreover have "jwt_parse demo_jwt (join_bar (claims_parts demo_claims)) s 5000 = Inr (demo_claims, True)" for s
    by (simp add: demo_jwt_def claims_roundtrip) (simp add: demo_claims_def)
  ultimately show ?thesis
    by (simp add: bearer_def token_Parse_def demo_users_def) (simp add: demo_claims_def)
qed

lemma request_effects_witness:
  "\<exists>r w'. serve demo_http demo_draws (demo_request ''POST'' [''api'', ''v1'', ''conversations''] demo_bearer demo_group)
       demo_http_world = (r, w') \<and> rs_status r = 201
     \<and> conversation_more 7 (tables demo_http_world) (tables w')"
proof -
  let ?rq = "demo_request ''POST'' [''api'', ''v1'', ''conversations''] demo_bearer demo_group"
  have fields: "rq_method ?rq = ''POST''" "rq_path ?rq = [''api'', ''v1'', ''conversations'']"
    "rq_authorization ?rq = demo_bearer" "rq_request_id ?rq = []" "rq_body ?rq = demo_group"
    "hd_metrics demo_http = False" "hd_users demo_http = demo_users" "dr_now demo_draws = 5000"
    by (simp_all add: demo_request_def demo_http_def demo_draws_def)
  have route: "route_of (hd_metrics demo_http) (rq_method ?rq) (rq_path ?rq) = Some CreateRoute"
    unfolding fields by code_simp
  obtain r w' where s: "serve demo_http demo_draws ?rq demo_http_world = (r, w')" by (rule prod.exhaust)
  note e = request_effects [OF s route, unfolded fields demo_bearer_claims]
  let ?cmd = "\<lparr>cc_sender = 7, cc_type = TypeGroup, cc_name = [71], cc_members = [9]\<rparr>"
  have p: "parse_create demo_group = Some (''group'', [71], [''9''])" "parseType ''group'' = Inr TypeGroup"
    "parseMemberIDs [''9''] = Inr [9]" by code_simp+
  have n: "(case conv_Create 1024 5000 count_ids ?cmd (mw_db (hw_msg demo_http_world), 20) of
      (x, (ms, g)) \<Rightarrow> (map_sum (\<lambda>e. ()) snd x, length (d_convs (fst ms)) = length (d_convs (tables demo_http_world))))
      = (Inr True, False)" by code_simp
  then obtain conv ms g where cc: "conv_Create 1024 5000 count_ids ?cmd (mw_db (hw_msg demo_http_world), 20) = (Inr (conv, True), (ms, g))"
    "length (d_convs (fst ms)) \<noteq> length (d_convs (tables demo_http_world))"
    by (auto split: prod.splits sum.splits simp: map_sum_def)
  have i: "hw_conv_ids demo_http_world = 20" "hd_max_group demo_http = 1024" "hd_conv_next demo_http = count_ids" "cl_uid demo_claims = 7"
    by (simp_all add: demo_http_world_def demo_http_def demo_claims_def)
  have n: "rs_status r = 201" "fst (mw_db (hw_msg w')) = fst ms"
    using s by (auto simp add: serve_def Let_def route [unfolded fields] fields Auth_def demo_bearer_claims handle_Create_def p i
        at_convs_def zoomE_def CurrentUserID_def cc [unfolded hw_msg_def] answer_def Created_def Recovery_def put_msg_def hw_msg_def simp del: parseMemberIDs.simps)
  have u: "cl_uid demo_claims = 7" "authorized CreateRoute" by (simp_all add: demo_claims_def)
  from e have "tables w' = tables demo_http_world \<or> conversation_more 7 (tables demo_http_world) (tables w')"
    by (simp add: u allowed_def)
  moreover have "tables w' \<noteq> tables demo_http_world" using n cc by (auto simp: tables_def)
  ultimately show ?thesis using s n by blast
qed



text \<open>
  The details of an error body are the text of the wrapped cause, whatever it is: the text of a
  database error reaches the client.
\<close>

lemma details_expose_cause:
  "rs_body (resp_Err rid (Internal (Some (OtherError cause))))
     = ErrorBody rid \<lparr>ef_code = ''INTERNAL_ERROR'', ef_message = ''internal server error'', ef_details = cause,
                      ef_retryable = False, ef_retry_after_ms = 0\<rparr>"
  by (simp add: resp_Err_def Internal_def Wrap_def detailOf_def)

end
