(* ===== verification/Config.thy ===== *)
theory Config
  imports Resilience Users
begin

text \<open>
  \<open>internal/config/config.go\<close>: every field of the configuration, its default values, the environment
  variables that override them and the normalisation before the assembly. Durations are in
  milliseconds. Reading the file and parsing YAML are parameters.
\<close>

section \<open>The configuration\<close>

record server_config =
  sv_addr :: string
  sv_node_id :: string
  sv_gateway_partition_id :: int
  sv_shutdown_timeout :: int
  sv_ws_read_limit :: int
  sv_ws_heartbeat_interval :: int
  sv_ws_missed_heartbeat :: int
  sv_ws_write_queue_size :: int
  sv_ws_write_queue_timeout :: int

record mysql_config =
  my_dsn :: string
  my_max_open_conns :: int
  my_max_idle_conns :: int
  my_conn_max_lifetime :: int
  my_read_max_open_conns :: int
  my_write_max_open_conns :: int
  my_slow_threshold :: int

record redis_config =
  rc_addr :: string
  rc_password :: string
  rc_db :: int
  rc_pool_size :: int
  rc_dial_timeout :: int
  rc_read_timeout :: int
  rc_write_timeout :: int

record kafka_config =
  kf_brokers :: "string list"
  kf_topic_prefix :: string
  kf_producer_timeout :: int
  kf_producer_acks_all :: bool
  kf_persist_group :: string
  kf_push_offset_group :: string
  kf_dlq_group :: string
  kf_auto_offset_reset :: string
  kf_max_poll_records :: int
  kf_persist_max_retries :: int
  kf_persist_backoff :: int
  kf_inbox_partitions :: int
  kf_push_partitions :: int
  kf_outbox_max_retries :: int
  kf_outbox_backoff :: int
  kf_outbox_poll_interval :: int
  kf_outbox_batch_size :: int
  kf_outbox_worker_count :: int
  kf_outbox_publish_concurrency :: int
  kf_outbox_claim_lease :: int

record auth_config =
  au_jwt_secret :: string
  au_access_token_ttl :: int
  au_ticket_ttl :: int
  au_argon2_time :: int
  au_argon2_memory :: int
  au_argon2_threads :: int
  au_argon2_key_len :: int

record idgen_config =
  ig_step :: int
  ig_prefetch_ratio :: rat
  ig_allocate_timeout :: int
  ig_next_wait_timeout :: int
  ig_cas_max_retries :: int

record presence_config =
  pv_conn_hash_ttl :: int
  pv_user_set_ttl :: int
  pv_idem_processing_ttl :: int
  pv_idem_accepted_ttl :: int

record resilience_config =
  rs_redis_read_timeout :: int
  rs_redis_write_timeout :: int
  rs_mysql_query_timeout :: int
  rs_persist_tx_timeout :: int
  rs_ingress_publish_timeout :: int
  rs_segment_timeout :: int
  rs_send_per_second :: rat
  rs_send_burst :: int
  rs_conversation_per_second :: rat
  rs_conversation_burst :: int
  rs_history_per_second :: rat
  rs_history_burst :: int
  rs_login_per_minute :: int
  rs_ws_connect_per_minute :: int
  rs_ws_connect_per_user_per_minute :: int
  rs_conn_inbound_per_second :: rat
  rs_conn_inbound_burst :: int
  rs_history_query_concurrency :: int
  rs_ws_ingress_concurrency :: int
  rs_outbox_workers :: int
  rs_group_fanout_concurrency :: int
  rs_breakers :: "breaker_config list"

record metrics_config =
  mt_enabled :: bool
  mt_path :: string

record log_config =
  lg_level :: string
  lg_pretty :: bool

record config =
  cf_server :: server_config
  cf_mysql :: mysql_config
  cf_redis :: redis_config
  cf_kafka :: kafka_config
  cf_auth :: auth_config
  cf_idgen :: idgen_config
  cf_presence :: presence_config
  cf_resilience :: resilience_config
  cf_metrics :: metrics_config
  cf_log :: log_config

section \<open>Default values\<close>

definition default_server_config :: server_config where
  "default_server_config = \<lparr>
     sv_addr = '':8080'', sv_node_id = ''node-1'', sv_gateway_partition_id = 0,
     sv_shutdown_timeout = 10000, sv_ws_read_limit = 64 * 1024, sv_ws_heartbeat_interval = 30000,
     sv_ws_missed_heartbeat = 2, sv_ws_write_queue_size = 256, sv_ws_write_queue_timeout = 30000\<rparr>"

definition default_mysql_config :: mysql_config where
  "default_mysql_config = \<lparr>
     my_dsn = ''gochat:gochat@tcp(127.0.0.1:3306)/gochat?charset=utf8mb4&parseTime=True&loc=UTC'',
     my_max_open_conns = 40, my_max_idle_conns = 10, my_conn_max_lifetime = 1800000,
     my_read_max_open_conns = 24, my_write_max_open_conns = 16, my_slow_threshold = 200\<rparr>"

definition default_redis_config :: redis_config where
  "default_redis_config = \<lparr>
     rc_addr = ''127.0.0.1:6379'', rc_password = [], rc_db = 0, rc_pool_size = 40, rc_dial_timeout = 1000,
     rc_read_timeout = 500, rc_write_timeout = 500\<rparr>"

definition default_kafka_config :: kafka_config where
  "default_kafka_config = \<lparr>
     kf_brokers = [''127.0.0.1:9092''], kf_topic_prefix = [], kf_producer_timeout = 3000,
     kf_producer_acks_all = True, kf_persist_group = ''gochat-message-persist-v1'',
     kf_push_offset_group = ''gochat-message-push-v1'', kf_dlq_group = ''gochat-message-dlq-v1'',
     kf_auto_offset_reset = ''earliest'', kf_max_poll_records = 100, kf_persist_max_retries = 5,
     kf_persist_backoff = 200, kf_inbox_partitions = 3, kf_push_partitions = 3,
     kf_outbox_max_retries = 10, kf_outbox_backoff = 2000, kf_outbox_poll_interval = 500,
     kf_outbox_batch_size = 100, kf_outbox_worker_count = 4, kf_outbox_publish_concurrency = 8,
     kf_outbox_claim_lease = 5000\<rparr>"

definition default_auth_config :: auth_config where
  "default_auth_config = \<lparr>
     au_jwt_secret = ''change-me-in-production'', au_access_token_ttl = 7200000, au_ticket_ttl = 30000,
     au_argon2_time = 1, au_argon2_memory = 64 * 1024, au_argon2_threads = 4, au_argon2_key_len = 32\<rparr>"

definition default_idgen_config :: idgen_config where
  "default_idgen_config = \<lparr>
     ig_step = 2000, ig_prefetch_ratio = 7 / 10, ig_allocate_timeout = 100, ig_next_wait_timeout = 50,
     ig_cas_max_retries = 10\<rparr>"

definition default_presence_config :: presence_config where
  "default_presence_config = \<lparr>
     pv_conn_hash_ttl = 90000, pv_user_set_ttl = 180000, pv_idem_processing_ttl = 5000,
     pv_idem_accepted_ttl = 600000\<rparr>"

definition default_resilience_config :: resilience_config where
  "default_resilience_config = \<lparr>
     rs_redis_read_timeout = 50, rs_redis_write_timeout = 80, rs_mysql_query_timeout = 200,
     rs_persist_tx_timeout = 500, rs_ingress_publish_timeout = 300, rs_segment_timeout = 100,
     rs_send_per_second = 20, rs_send_burst = 40, rs_conversation_per_second = 100,
     rs_conversation_burst = 200, rs_history_per_second = 10, rs_history_burst = 20,
     rs_login_per_minute = 5, rs_ws_connect_per_minute = 60, rs_ws_connect_per_user_per_minute = 5,
     rs_conn_inbound_per_second = 100, rs_conn_inbound_burst = 150, rs_history_query_concurrency = 32,
     rs_ws_ingress_concurrency = 32, rs_outbox_workers = 4, rs_group_fanout_concurrency = 4,
     rs_breakers = [
       \<lparr>bc_name = ''redis:recent_get'', bc_interval = 10000, bc_min_requests = 20, bc_failure_ratio = 5 / 10, bc_open_timeout = 5000, bc_half_open_max = 3\<rparr>,
       \<lparr>bc_name = ''kafka:inbox_publish'', bc_interval = 10000, bc_min_requests = 10, bc_failure_ratio = 3 / 10, bc_open_timeout = 3000, bc_half_open_max = 3\<rparr>,
       \<lparr>bc_name = ''kafka:push_publish'', bc_interval = 10000, bc_min_requests = 10, bc_failure_ratio = 3 / 10, bc_open_timeout = 5000, bc_half_open_max = 3\<rparr>,
       \<lparr>bc_name = ''mysql:history_query'', bc_interval = 10000, bc_min_requests = 20, bc_failure_ratio = 5 / 10, bc_open_timeout = 3000, bc_half_open_max = 3\<rparr>,
       \<lparr>bc_name = ''mysql:id_segment'', bc_interval = 30000, bc_min_requests = 5, bc_failure_ratio = 6 / 10, bc_open_timeout = 10000, bc_half_open_max = 1\<rparr>]\<rparr>"

definition default_metrics_config :: metrics_config where
  "default_metrics_config = \<lparr>
     mt_enabled = True, mt_path = ''/metrics''\<rparr>"

definition default_log_config :: log_config where
  "default_log_config = \<lparr>
     lg_level = ''info'', lg_pretty = False\<rparr>"

definition defaultConfig :: config where
  "defaultConfig = \<lparr>cf_server = default_server_config, cf_mysql = default_mysql_config, cf_redis = default_redis_config,
     cf_kafka = default_kafka_config, cf_auth = default_auth_config, cf_idgen = default_idgen_config,
     cf_presence = default_presence_config, cf_resilience = default_resilience_config,
     cf_metrics = default_metrics_config, cf_log = default_log_config\<rparr>"

section \<open>Environment\<close>

text \<open>An environment maps the names that are set to their values; a number that does not parse is ignored.\<close>

type_synonym environment = "string \<rightharpoonup> string"

definition setStr :: "environment \<Rightarrow> string \<Rightarrow> string \<Rightarrow> string" where
  "setStr env key dst = (case env key of Some v \<Rightarrow> v | None \<Rightarrow> dst)"

definition setInt :: "environment \<Rightarrow> string \<Rightarrow> int \<Rightarrow> int" where
  "setInt env key dst =
     (case env key of None \<Rightarrow> dst | Some v \<Rightarrow> (case ParseInt v of Some n \<Rightarrow> n | None \<Rightarrow> dst))"

definition override_server :: "environment \<Rightarrow> server_config \<Rightarrow> server_config" where
  "override_server env c = c\<lparr>
     sv_addr := setStr env ''GOChat_SERVER_ADDR'' (sv_addr c),
     sv_node_id := setStr env ''GOChat_SERVER_NODE_ID'' (sv_node_id c),
     sv_gateway_partition_id := setInt env ''GOChat_SERVER_GATEWAY_PARTITION_ID'' (sv_gateway_partition_id c),
     sv_ws_write_queue_size := setInt env ''GOChat_SERVER_WS_WRITE_QUEUE_SIZE'' (sv_ws_write_queue_size c)\<rparr>"

definition override_redis :: "environment \<Rightarrow> redis_config \<Rightarrow> redis_config" where
  "override_redis env c = c\<lparr>
     rc_addr := setStr env ''GOChat_REDIS_ADDR'' (rc_addr c),
     rc_password := setStr env ''GOChat_REDIS_PASSWORD'' (rc_password c),
     rc_db := setInt env ''GOChat_REDIS_DB'' (rc_db c)\<rparr>"

definition override_kafka :: "environment \<Rightarrow> kafka_config \<Rightarrow> kafka_config" where
  "override_kafka env c = c\<lparr>
     kf_outbox_worker_count := setInt env ''GOChat_KAFKA_OUTBOX_WORKER_COUNT'' (kf_outbox_worker_count c),
     kf_outbox_publish_concurrency := setInt env ''GOChat_KAFKA_OUTBOX_PUBLISH_CONCURRENCY'' (kf_outbox_publish_concurrency c),
     kf_topic_prefix := setStr env ''GOChat_KAFKA_TOPIC_PREFIX'' (kf_topic_prefix c),
     kf_inbox_partitions := setInt env ''GOChat_KAFKA_INBOX_PARTITIONS'' (kf_inbox_partitions c),
     kf_push_partitions := setInt env ''GOChat_KAFKA_PUSH_PARTITIONS'' (kf_push_partitions c),
     kf_push_offset_group := setStr env ''GOChat_KAFKA_PUSH_OFFSET_GROUP'' (kf_push_offset_group c)\<rparr>"

text \<open>The second component is the package variable \<open>kafkaBrokersEnv\<close>.\<close>

definition applyEnvOverrides :: "environment \<Rightarrow> config \<times> string \<Rightarrow> config \<times> string" where
  "applyEnvOverrides env st =
     (case st of (c, brokers) \<Rightarrow>
        (c\<lparr>cf_server := override_server env (cf_server c),
           cf_mysql := (cf_mysql c)\<lparr>my_dsn := setStr env ''GOChat_MYSQL_DSN'' (my_dsn (cf_mysql c))\<rparr>,
           cf_redis := override_redis env (cf_redis c),
           cf_auth := (cf_auth c)\<lparr>au_jwt_secret := setStr env ''GOChat_AUTH_JWT_SECRET'' (au_jwt_secret (cf_auth c))\<rparr>,
           cf_kafka := override_kafka env (cf_kafka c)\<rparr>,
         setStr env ''GOChat_KAFKA_BROKERS'' brokers))"

text \<open>What reading the file gives, and \<open>yaml.Unmarshal\<close> into a configuration.\<close>

datatype file_read = FileMissing | FileFailed gerr | FileData string

definition LoadConfig ::
  "(string \<Rightarrow> config \<Rightarrow> gerr + config) \<Rightarrow> file_read \<Rightarrow> environment \<Rightarrow> string \<Rightarrow> (gerr + config) \<times> string" where
  "LoadConfig yaml file env brokers =
     (case file of
        FileMissing \<Rightarrow> (case applyEnvOverrides env (defaultConfig, brokers) of (c, b) \<Rightarrow> (Inr c, b))
      | FileFailed e \<Rightarrow> (Inl e, brokers)
      | FileData text \<Rightarrow>
          (case yaml text defaultConfig of
             Inl e \<Rightarrow> (Inl e, brokers)
           | Inr c \<Rightarrow> (case applyEnvOverrides env (c, brokers) of (c', b) \<Rightarrow> (Inr c', b))))"

definition broker_list :: "string \<Rightarrow> string list" where
  "broker_list s = filter (\<lambda>p. p \<noteq> []) (map TrimSpace (split_all (CHR '','') s))"

definition trim_dot :: "string \<Rightarrow> string" where
  "trim_dot s = (if s \<noteq> [] \<and> last s = CHR ''.'' then butlast s else s)"

definition Normalize :: "string \<Rightarrow> config \<Rightarrow> config" where
  "Normalize brokers c =
     (let k = cf_kafka c;
          bs = (if brokers = [] \<or> broker_list brokers = [] then kf_brokers k else broker_list brokers) in
      c\<lparr>cf_kafka := k\<lparr>kf_brokers := bs, kf_topic_prefix := trim_dot (kf_topic_prefix k)\<rparr>\<rparr>)"

section \<open>Facts\<close>

lemma set_unset [simp]: "env key = None \<Longrightarrow> setStr env key s = s" "env key = None \<Longrightarrow> setInt env key i = i"
  by (simp_all add: setStr_def setInt_def)

text \<open>Without a file and without variables the configuration is the default one.\<close>

lemma LoadConfig_default: "LoadConfig yaml FileMissing Map.empty brokers = (Inr defaultConfig, brokers)"
  by (simp add: LoadConfig_def applyEnvOverrides_def override_server_def override_redis_def override_kafka_def)

end
