(* ===== verification/Bootstrap.thy ===== *)
theory Bootstrap
  imports Config Http PersistWorker OutboxPublisher Gateway
begin

text \<open>
  \<open>internal/bootstrap\<close>: how \<open>Build\<close> and \<open>Run\<close> put the components together from the configuration - which
  setting reaches which component, what is checked first, and what each worker is started with.
  Opening MySQL and Redis and creating Kafka clients are outcomes; the libraries are collected in one record.
\<close>

section \<open>Libraries and outcomes\<close>

record ('l, 's, 'g) libs =
  lb_uuid :: uuid_lib
  lb_local :: "'l local_limiter"
  lb_cb :: "('s, broker) cb_execute"
  lb_kdf :: kdf
  lb_jwt :: jwt_lib
  lb_collation :: collation
  lb_lower :: "nat \<Rightarrow> nat"
  lb_time :: "runes \<Rightarrow> int option"
  lb_partial :: "string \<Rightarrow> persisted_event"
  lb_ids :: "gen_opts \<Rightarrow> string \<Rightarrow> ('g, int) svc"

record outcomes =
  oc_mysql :: "gerr option"
  oc_redis :: "gerr option"
  oc_client :: "client_opt list \<Rightarrow> gerr option"
  oc_offsets :: "string \<Rightarrow> fetch_offsets"
  oc_ctx :: "nat \<Rightarrow> gerr option"

section \<open>Build\<close>

definition check_config :: "config \<Rightarrow> gerr option" where
  "check_config c =
     (let push = kf_push_partitions (cf_kafka c); part = sv_gateway_partition_id (cf_server c) in
      if kf_inbox_partitions (cf_kafka c) \<le> 0
      then Some (OtherError ''kafka.inbox_partitions must be greater than 0'')
      else if push \<le> 0 then Some (OtherError ''kafka.push_partitions must be greater than 0'')
      else if part < 0 \<or> push \<le> part
      then Some (OtherError (''server.gateway_partition_id must be in [0,'' @ FormatInt push @ '')''))
      else None)"

text \<open>\<open>newSegmentGenerator\<close>; a wait polls every two milliseconds.\<close>

definition segment_opts :: "config \<Rightarrow> gen_opts" where
  "segment_opts c = \<lparr>prefetch_ratio = ig_prefetch_ratio (cf_idgen c),
     wait_polls = nat (ig_next_wait_timeout (cf_idgen c) div 2), max_retries = ig_cas_max_retries (cf_idgen c)\<rparr>"

definition newBreakers :: "config \<Rightarrow> breaker_config list" where
  "newBreakers c = rs_breakers (cf_resilience c)"

definition presence_of :: "config \<Rightarrow> presence_conf" where
  "presence_of c = \<lparr>pr_conn_ttl = pv_conn_hash_ttl (cf_presence c), pr_user_ttl = pv_user_set_ttl (cf_presence c)\<rparr>"

definition build_users :: "('l, 's, 'g) libs \<Rightarrow> config \<Rightarrow> 'g user_deps" where
  "build_users L c = \<lparr>ud_draw = lb_ids L (segment_opts c) ''im_user'', ud_kdf = lb_kdf L,
     ud_argon2 = \<lparr>ap_time = au_argon2_time (cf_auth c), ap_memory = au_argon2_memory (cf_auth c),
                  ap_threads = au_argon2_threads (cf_auth c), ap_key_len = au_argon2_key_len (cf_auth c)\<rparr>,
     ud_jwt = lb_jwt L, ud_secret = au_jwt_secret (cf_auth c), ud_ttl = au_access_token_ttl (cf_auth c),
     ud_collation = lb_collation L, ud_lower = lb_lower L\<rparr>"

definition build_messages :: "('l, 's, 'g) libs \<Rightarrow> config \<Rightarrow> ('l, 's) msg_deps" where
  "build_messages L c =
     (let r = cf_resilience c; p = cf_presence c in
      \<lparr>md_uuid = lb_uuid L,
       md_idem = Some \<lparr>ic_processing_ttl = pv_idem_processing_ttl p, ic_accepted_ttl = pv_idem_accepted_ttl p\<rparr>,
       md_idem_fallback = True, md_cursors = True, md_local = lb_local L, md_cb = lb_cb L,
       md_topic_prefix = kf_topic_prefix (cf_kafka c),
       md_send_burst = rat_of_int (rs_send_burst r), md_send_rate = rs_send_per_second r,
       md_conv_burst = rat_of_int (rs_conversation_burst r), md_conv_rate = rs_conversation_per_second r,
       md_history_burst = rat_of_int (rs_history_burst r), md_history_rate = rs_history_per_second r\<rparr>)"

definition group_consumer :: "config \<Rightarrow> string \<Rightarrow> string \<Rightarrow> consumer_config" where
  "group_consumer c topic grp =
     \<lparr>cg_brokers = kf_brokers (cf_kafka c), cg_topic = topic, cg_group = grp, cg_partition = 0,
      cg_start = kf_auto_offset_reset (cf_kafka c), cg_max_bytes = 8 * 1024 * 1024,
      cg_max_poll = kf_max_poll_records (cf_kafka c), cg_session = 10000, cg_rebalance = 10000\<rparr>"

definition partition_consumer :: "config \<Rightarrow> consumer_config" where
  "partition_consumer c =
     \<lparr>cg_brokers = kf_brokers (cf_kafka c), cg_topic = PushTopic (kf_topic_prefix (cf_kafka c)),
      cg_group = kf_push_offset_group (cf_kafka c), cg_partition = sv_gateway_partition_id (cf_server c),
      cg_start = kf_auto_offset_reset (cf_kafka c), cg_max_bytes = 8 * 1024 * 1024,
      cg_max_poll = kf_max_poll_records (cf_kafka c), cg_session = 0, cg_rebalance = 0\<rparr>"

definition producer_conf :: "config \<Rightarrow> producer_config" where
  "producer_conf c =
     \<lparr>pg_brokers = kf_brokers (cf_kafka c), pg_timeout = kf_producer_timeout (cf_kafka c),
      pg_acks_all = kf_producer_acks_all (cf_kafka c), pg_topic_suffix = kf_topic_prefix (cf_kafka c)\<rparr>"

text \<open>The service context, with the buffers of the three generators after their first segment.\<close>

record ('l, 's, 'g) service_context =
  sx_config :: config
  sx_producer :: producer
  sx_users :: "'g user_deps"
  sx_messages :: "('l, 's) msg_deps"
  sx_max_group :: int
  sx_manager :: manager
  sx_breakers :: "breaker_config list"
  sx_history :: bulkhead
  sx_ingress :: bulkhead
  sx_user_ids :: buffer
  sx_conv_ids :: buffer
  sx_message_ids :: buffer
  sx_persist_consumer :: consumer
  sx_gateway_consumer :: consumer
  sx_dlq_consumer :: consumer

text \<open>The generators, one after the other: each claims its first segment.\<close>

fun build_ids :: "(nat \<Rightarrow> gerr option) \<Rightarrow> config \<Rightarrow> string list \<Rightarrow> id_db \<Rightarrow> (gerr + buffer list) \<times> id_db" where
  "build_ids ctx c [] db = (Inr [], db)"
| "build_ids ctx c (tag # tags) db =
     (case NewGenerator (segment_opts c) (Allocate tag) ctx db of
        (Inl e, db') \<Rightarrow> (Inl e, db')
      | (Inr b, db') \<Rightarrow>
          (case build_ids ctx c tags db' of
             (Inl e, db'') \<Rightarrow> (Inl e, db'')
           | (Inr bs, db'') \<Rightarrow> (Inr (b # bs), db'')))"

definition build_consumers :: "outcomes \<Rightarrow> config \<Rightarrow> gerr + consumer \<times> consumer \<times> consumer" where
  "build_consumers X c =
     (let k = cf_kafka c; prefix = kf_topic_prefix k in
      case NewConsumer (oc_client X) (group_consumer c (InboxTopic prefix) (kf_persist_group k)) of
        Inl e \<Rightarrow> Inl (Wrapped ''kafka persist consumer'' e)
      | Inr p \<Rightarrow>
     (case NewPartitionConsumer (oc_client X) (oc_offsets X) (partition_consumer c) of
        Inl e \<Rightarrow> Inl (Wrapped ''kafka gateway consumer'' e)
      | Inr g \<Rightarrow>
     (case NewConsumer (oc_client X) (group_consumer c (DLQTopic prefix) (kf_dlq_group k)) of
        Inl e \<Rightarrow> Inl (Wrapped ''kafka dlq consumer'' e)
      | Inr d \<Rightarrow> Inr (p, g, d))))"

definition build_context ::
  "('l, 's, 'g) libs \<Rightarrow> config \<Rightarrow> producer \<Rightarrow> buffer list \<Rightarrow> consumer \<times> consumer \<times> consumer \<Rightarrow> ('l, 's, 'g) service_context" where
  "build_context L c p ids cons =
     \<lparr>sx_config = c, sx_producer = p, sx_users = build_users L c, sx_messages = build_messages L c, sx_max_group = conv_NewService 0,
      sx_manager = NewManagerWithPartition (sv_node_id (cf_server c)) (sv_gateway_partition_id (cf_server c))
        (Some (presence_of c)),
      sx_breakers = newBreakers c, sx_history = NewBulkhead (rs_history_query_concurrency (cf_resilience c)),
      sx_ingress = NewBulkhead (rs_ws_ingress_concurrency (cf_resilience c)),
      sx_user_ids = ids ! 0, sx_conv_ids = ids ! 1, sx_message_ids = ids ! 2,
      sx_persist_consumer = fst cons, sx_gateway_consumer = fst (snd cons), sx_dlq_consumer = snd (snd cons)\<rparr>"

definition Build ::
  "('l, 's, 'g) libs \<Rightarrow> outcomes \<Rightarrow> string \<Rightarrow> config \<Rightarrow> id_db \<Rightarrow> (gerr + ('l, 's, 'g) service_context) \<times> id_db" where
  "Build L X brokers cfg db =
     (let c = Normalize brokers cfg in
      case check_config c of
        Some e \<Rightarrow> (Inl e, db)
      | None \<Rightarrow>
     (case oc_mysql X of
        Some e \<Rightarrow> (Inl (Wrapped ''mysql'' e), db)
      | None \<Rightarrow>
     (case oc_redis X of
        Some e \<Rightarrow> (Inl (Wrapped ''redis'' e), db)
      | None \<Rightarrow>
     (case NewProducer (oc_client X) (producer_conf c) of
        Inl e \<Rightarrow> (Inl (Wrapped ''kafka producer'' e), db)
      | Inr p \<Rightarrow>
     (case build_ids (oc_ctx X) c [''im_user'', ''im_conversation'', ''im_message''] db of
        (Inl e, db') \<Rightarrow> (Inl e, db')
      | (Inr ids, db') \<Rightarrow>
     (case build_consumers X c of
        Inl e \<Rightarrow> (Inl e, db')
      | Inr cons \<Rightarrow> (Inr (build_context L c p ids cons), db')))))))"

section \<open>Run\<close>

definition check_run :: "config \<Rightarrow> gerr option" where
  "check_run c =
     (let n = kf_outbox_worker_count (cf_kafka c) in
      if n \<le> 0 \<or> int OutboxShardCount < n
      then Some (OtherError (''kafka.outbox_worker_count must be between 1 and '' @ FormatInt (int OutboxShardCount)))
      else if rs_outbox_workers (cf_resilience c) \<le> 0
      then Some (OtherError ''resilience.outbox_workers must be greater than 0'')
      else None)"

definition local_outbox_workers :: "config \<Rightarrow> int" where
  "local_outbox_workers c =
     (if kf_outbox_worker_count (cf_kafka c) < rs_outbox_workers (cf_resilience c)
      then kf_outbox_worker_count (cf_kafka c) else rs_outbox_workers (cf_resilience c))"

definition run_persist :: "('l, 's, 'g) libs \<Rightarrow> config \<Rightarrow> ('g, 's) persist_deps" where
  "run_persist L c = worker_New
     \<lparr>pd_uuid = lb_uuid L, pd_draw = lb_ids L (segment_opts c) ''im_message'', pd_cb = lb_cb L,
      pd_prefix = kf_topic_prefix (cf_kafka c), pd_max_retries = kf_persist_max_retries (cf_kafka c),
      pd_partitions = kf_inbox_partitions (cf_kafka c)\<rparr>"

definition run_publisher :: "('l, 's, 'g) libs \<Rightarrow> config \<Rightarrow> 's outbox_deps" where
  "run_publisher L c =
     (let k = cf_kafka c in
      \<lparr>od_config = publisher_New
         \<lparr>pc_max_retries = kf_outbox_max_retries k, pc_backoff = kf_outbox_backoff k, pc_poll = kf_outbox_poll_interval k,
          pc_batch = kf_outbox_batch_size k, pc_workers = kf_outbox_worker_count k,
          pc_concurrency = kf_outbox_publish_concurrency k, pc_lease = kf_outbox_claim_lease k\<rparr>,
       od_presence = True, od_conv_repo = True, od_cb = lb_cb L, od_prefix = kf_topic_prefix k,
       od_push_partitions = kf_push_partitions k, od_partial = lb_partial L\<rparr>)"

definition run_gateway :: "('l, 's, 'g) libs \<Rightarrow> config \<Rightarrow> 's gateway_deps" where
  "run_gateway L c = \<lparr>gd_cb = lb_cb L, gd_prefix = kf_topic_prefix (cf_kafka c)\<rparr>"

definition run_websocket :: "('l, 's, 'g) libs \<Rightarrow> config \<Rightarrow> ('l, 's) ws_deps" where
  "run_websocket L c =
     (let s = cf_server c; r = cf_resilience c in
      \<lparr>wd_msg = build_messages L c, wd_presence = Some (presence_of c), wd_limited = True, wd_time = lb_time L,
       wd_queue_size = sv_ws_write_queue_size s, wd_queue_timeout = sv_ws_write_queue_timeout s,
       wd_heartbeat = sv_ws_heartbeat_interval s, wd_inbound_burst = rat_of_int (rs_conn_inbound_burst r),
       wd_inbound_rate = rs_conn_inbound_per_second r, wd_per_minute = rs_ws_connect_per_minute r,
       wd_per_user = rs_ws_connect_per_user_per_minute r, wd_ticket_ttl = au_ticket_ttl (cf_auth c)\<rparr>)"

definition run_http :: "('l, 's, 'g) libs \<Rightarrow> config \<Rightarrow> ('l, 's, 'g) http_deps" where
  "run_http L c =
     \<lparr>hd_ws = run_websocket L c, hd_users = build_users L c, hd_conv_next = lb_ids L (segment_opts c) ''im_conversation'',
      hd_max_group = conv_NewService 0, hd_limited = True, hd_bulkhead = True, hd_metrics = mt_enabled (cf_metrics c)\<rparr>"

text \<open>What \<open>Run\<close> starts: the workers, the number of local publishers, and the router.\<close>

record ('l, 's, 'g) running =
  rn_persist :: "('g, 's) persist_deps"
  rn_publisher :: "'s outbox_deps"
  rn_local_publishers :: int
  rn_gateway :: "'s gateway_deps"
  rn_http :: "('l, 's, 'g) http_deps"

definition Run :: "('l, 's, 'g) libs \<Rightarrow> ('l, 's, 'g) service_context \<Rightarrow> gerr + ('l, 's, 'g) running" where
  "Run L sx =
     (let c = sx_config sx in
      case check_run c of
        Some e \<Rightarrow> Inl e
      | None \<Rightarrow> Inr \<lparr>rn_persist = run_persist L c, rn_publisher = run_publisher L c,
                    rn_local_publishers = local_outbox_workers c, rn_gateway = run_gateway L c, rn_http = run_http L c\<rparr>)"

end
