(* ===== verification/Delivery.thy ===== *)
theory Delivery
  imports Bootstrap
begin

text \<open>
  Components that meet in one deployment: the configuration as it reaches the workers, and the way
  of a message from the outbox to the gateway process that holds a connection of the receiver -
  presence registration, routing by the outbox publisher, and the partition that the gateway reads.
\<close>

section \<open>What an assembled application looks like\<close>

lemma Build_ok:
  assumes "Build L X brokers cfg db = (Inr sx, db')"
  obtains p ids cons where "check_config (Normalize brokers cfg) = None" "build_consumers X (Normalize brokers cfg) = Inr cons"
    "NewProducer (oc_client X) (producer_conf (Normalize brokers cfg)) = Inr p" "sx = build_context L (Normalize brokers cfg) p ids cons"
  using assms by (auto simp: Build_def Let_def split: option.splits sum.splits prod.splits)

lemma Run_ok:
  assumes "Run L sx = Inr rn"
  shows "check_run (sx_config sx) = None" "rn_publisher rn = run_publisher L (sx_config sx)"
    "rn_persist rn = run_persist L (sx_config sx)" "rn_gateway rn = run_gateway L (sx_config sx)"
    "rn_http rn = run_http L (sx_config sx)" "rn_local_publishers rn = local_outbox_workers (sx_config sx)"
  using assms by (auto simp: Run_def Let_def split: option.splits)

lemma NewConsumer_ok: "NewConsumer cl cfg = Inr k \<Longrightarrow> cs_topic k = cg_topic cfg \<and> cs_group k = cg_group cfg \<and> \<not> cs_direct k"
  by (auto simp: NewConsumer_def split: option.splits if_splits)

lemma NewProducer_ok:
  "NewProducer cl cfg = Inr p \<Longrightarrow> pn_suffix p = pg_topic_suffix cfg \<and> StickyKeyPartitioner \<in> set (pn_inbox p)
     \<and> ManualPartitioner \<in> set (pn_push p)"
  by (auto simp: NewProducer_def Let_def split: option.splits if_splits)

lemma NewPartitionConsumer_ok:
  "NewPartitionConsumer cl off cfg = Inr k \<Longrightarrow>
     cs_topic k = cg_topic cfg \<and> cs_direct k \<and> cs_partition k = int32 (cg_partition cfg)"
  by (auto simp: NewPartitionConsumer_def split: option.splits if_splits sum.splits)

lemma int32_id: "0 \<le> x \<Longrightarrow> x < 2 ^ 31 \<Longrightarrow> int32 x = x"
  by (simp add: int32_def)

lemma check_config_ok:
  "check_config c = None \<longleftrightarrow> 0 < kf_inbox_partitions (cf_kafka c) \<and> 0 \<le> sv_gateway_partition_id (cf_server c)
     \<and> sv_gateway_partition_id (cf_server c) < kf_push_partitions (cf_kafka c)"
  by (auto simp: check_config_def Let_def)

lemma check_run_ok:
  "check_run c = None \<longleftrightarrow> 0 < kf_outbox_worker_count (cf_kafka c) \<and> kf_outbox_worker_count (cf_kafka c) \<le> int OutboxShardCount
     \<and> 0 < rs_outbox_workers (cf_resilience c)"
  by (auto simp: check_run_def Let_def)

lemma publisher_New_bounds:
  "0 < pc_batch (publisher_New c)" "0 < pc_concurrency (publisher_New c)"
  "pc_concurrency (publisher_New c) \<le> pc_batch (publisher_New c)" "0 < pc_lease (publisher_New c)"
  "0 < pc_workers c \<Longrightarrow> pc_workers (publisher_New c) = pc_workers c"
  by (simp_all add: publisher_New_def Let_def)

section \<open>Presence of many users\<close>

lemma PresenceUserKey_inj: "PresenceUserKey u = PresenceUserKey v \<longleftrightarrow> u = v"
proof
  assume "PresenceUserKey u = PresenceUserKey v"
  then have "FormatInt u = FormatInt v" by (simp add: PresenceUserKey_def)
  then have "read_int (FormatInt u) = read_int (FormatInt v)" by simp
  then show "u = v" by (simp add: read_int_format)
qed simp

lemma zset_of_update_other: "k \<noteq> k' \<Longrightarrow> zset_of k (zset_update k' f r) = zset_of k r"
  by (auto simp: zset_of_def zset_update_def zset_expiry_def put_zset_def split: option.split)

lemma prune_and_range_ok:
  "distinct us \<Longrightarrow> prune_and_range now us r = (ids, r') \<Longrightarrow>
     rd_faults r' = rd_faults r \<and> (\<forall>k. get_str k r' = get_str k r)
     \<and> map fst ids = us
     \<and> (\<forall>(u, cs) \<in> set ids. set cs = {c. \<exists>s. (c, s) \<in> set (zset_of (PresenceUserKey u) r) \<and> now < s})"
proof (induction us arbitrary: r ids r')
  case Nil
  then show ?case by simp
next
  case (Cons u us)
  let ?r1 = "zset_update (PresenceUserKey u) (filter (\<lambda>p. now < snd p)) r"
  obtain rest where rest: "prune_and_range now us ?r1 = (rest, r')"
    and ids: "ids = (u, map fst (sort_key (\<lambda>p. (snd p, fst p)) (zset_of (PresenceUserKey u) ?r1))) # rest"
    using Cons.prems(2) by (auto simp: Let_def split: prod.splits)
  have z: "zset_of (PresenceUserKey u) ?r1 = filter (\<lambda>p. now < snd p) (zset_of (PresenceUserKey u) r)"
    by (simp add: zset_of_update)
  have first: "set (map fst (sort_key (\<lambda>p. (snd p, fst p)) (zset_of (PresenceUserKey u) ?r1)))
      = {c. \<exists>s. (c, s) \<in> set (zset_of (PresenceUserKey u) r) \<and> now < s}"
    unfolding z by force
  from Cons.IH [OF _ rest] Cons.prems(1) have ih: "rd_faults r' = rd_faults r" "\<forall>k. get_str k r' = get_str k r"
    "map fst rest = us"
    "\<forall>(v, cs) \<in> set rest. set cs = {c. \<exists>s. (c, s) \<in> set (zset_of (PresenceUserKey v) ?r1) \<and> now < s}" by auto
  have same: "zset_of (PresenceUserKey v) ?r1 = zset_of (PresenceUserKey v) r" if "(v, cs) \<in> set rest" for v cs
  proof -
    have "v \<in> set us" using that ih(3) by force
    then have "v \<noteq> u" using Cons.prems(1) by auto
    then show ?thesis by (intro zset_of_update_other) (simp add: PresenceUserKey_inj)
  qed
  have others: "set cs = {c. \<exists>s. (c, s) \<in> set (zset_of (PresenceUserKey v) r) \<and> now < s}" if "(v, cs) \<in> set rest" for v cs
    using bspec [OF ih(4) that] by (simp add: same [OF that])
  show ?case unfolding ids using ih(1-3) first others by (simp del: set_map) blast
qed

lemma lookups_finds:
  "(u, c) \<in> set ps \<Longrightarrow> c \<notin> set seen \<Longrightarrow> \<forall>(v, d) \<in> set ps. d = c \<longrightarrow> v = u \<Longrightarrow> (u, c) \<in> set (lookups seen ps)"
proof (induction ps arbitrary: seen)
  case (Cons p ps)
  obtain v d where p: "p = (v, d)" by (rule prod.exhaust)
  show ?case
  proof (cases "d = c")
    case True
    then show ?thesis using Cons.prems p by (simp add: List.member_iff)
  next
    case False
    then show ?thesis using Cons.prems Cons.IH [of seen] Cons.IH [of "d # seen"] p by (auto simp: List.member_iff)
  qed
qed simp

text \<open>A live route of a user is in the answer of a batch query, when no other user lists its connection.\<close>

lemma OnlineConnectionsBatch_finds:
  assumes "rd_faults r = []" and "OnlineConnectionsBatch now members r = (Inr routes, r')"
    and "u \<in> set members" and "0 < u" and "live_route now u r rt"
    and "\<And>v s. v \<noteq> u \<Longrightarrow> (rt_conn rt, s) \<notin> set (zset_of (PresenceUserKey v) r)"
  shows "rt \<in> set (routes u)"
proof -
  let ?us = "unique_positive [] members"
  obtain ids r1 where p: "prune_and_range now ?us r = (ids, r1)" by (rule prod.exhaust)
  note pr = prune_and_range_ok [OF unique_positive_distinct p]
  define ls where "ls = lookups [] (pairs_of ids)"
  define vals where "vals = map (\<lambda>(u, c). ((u, c), get_str (PresenceConnKey c) r1)) ls"
  obtain good stale where g: "collect_routes vals = (good, stale)" by (rule prod.exhaust)
  have u: "u \<in> set ?us" using assms(3,4) by (simp add: unique_positive_set)
  then have ne: "?us \<noteq> []" by auto
  obtain cs where cs: "(u, cs) \<in> set ids" using u pr by (metis (no_types, lifting) imageE list.set_map prod.collapse)
  have set_cs: "set cs = {c. \<exists>s. (c, s) \<in> set (zset_of (PresenceUserKey u) r) \<and> now < s}"
    using pr cs by blast
  have live: "get_str (PresenceConnKey (rt_conn rt)) r1 = Some (RRoute rt)" "rt_user rt = u" "rt_conn rt \<in> set cs"
    using assms(5) pr unfolding live_route_def set_cs by auto
  have pairs: "(v, d) \<in> set (pairs_of ids) \<longleftrightarrow> (\<exists>cs. (v, cs) \<in> set ids \<and> d \<in> set cs)" for v d
    by (force simp: pairs_of_def)
  have only: "v = u" if "(v, rt_conn rt) \<in> set (pairs_of ids)" for v
  proof (rule ccontr)
    assume v: "v \<noteq> u"
    from that obtain ds where ds: "(v, ds) \<in> set ids" "rt_conn rt \<in> set ds" unfolding pairs by blast
    have "set ds = {c. \<exists>s. (c, s) \<in> set (zset_of (PresenceUserKey v) r) \<and> now < s}" using pr ds(1) by blast
    with ds(2) assms(6) [OF v] show False by blast
  qed
  have "(u, rt_conn rt) \<in> set ls"
    unfolding ls_def by (rule lookups_finds) (use pairs cs live(3) only in auto)
  then have l: "ls \<noteq> []" "((u, rt_conn rt), Some (RRoute rt)) \<in> set vals"
    using live(1) by (auto simp: vals_def image_iff intro!: bexI [of _ "(u, rt_conn rt)"])
  then have "(u, rt) \<in> set good"
    using collect_routes_good [of u rt vals] g live(2) by (auto simp: good_routeD)
  moreover have f: "rd_faults r1 = []" using pr assms(1) by simp
  have "routes = (\<lambda>u. routes_for u good)"
    using assms(2) ne l(1) f assms(1) g
    by (simp add: OnlineConnectionsBatch_def Let_def redis_call_ok p ls_def [symmetric] vals_def [symmetric])
  ultimately show ?thesis by (force simp: routes_for_def image_iff)
qed


lemma assembled_partition:
  assumes "Build L X brokers cfg db = (Inr sx, db')" and "Run L sx = Inr rn" and "kf_push_partitions (cf_kafka cfg) < 2 ^ 31"
  shows "consumer_Partition (sx_gateway_consumer sx) = mg_partition (sx_manager sx)"
    and "0 \<le> mg_partition (sx_manager sx)" and "mg_partition (sx_manager sx) < od_push_partitions (rn_publisher rn)"
proof -
  let ?c = "Normalize brokers cfg"
  obtain p ids cons where b: "check_config ?c = None" "build_consumers X ?c = Inr cons"
    "NewProducer (oc_client X) (producer_conf ?c) = Inr p" "sx = build_context L ?c p ids cons"
    by (rule Build_ok [OF assms(1)])
  have c: "sx_config sx = ?c" "mg_partition (sx_manager sx) = sv_gateway_partition_id (cf_server ?c)"
    "sx_gateway_consumer sx = fst (snd cons)"
    by (simp_all add: b(4) build_context_def NewManagerWithPartition_def)
  have n: "kf_push_partitions (cf_kafka ?c) = kf_push_partitions (cf_kafka cfg)" by (simp add: Normalize_def Let_def)
  note ok = b(1) [unfolded check_config_ok]
  have int32: "int32 (sv_gateway_partition_id (cf_server ?c)) = sv_gateway_partition_id (cf_server ?c)"
    using ok n assms(3) by (intro int32_id) auto
  show "consumer_Partition (sx_gateway_consumer sx) = mg_partition (sx_manager sx)"
    unfolding c using b(2) int32
    by (auto simp: build_consumers_def Let_def partition_consumer_def consumer_Partition_def
        split: sum.splits dest!: NewPartitionConsumer_ok)
  show "0 \<le> mg_partition (sx_manager sx)" "mg_partition (sx_manager sx) < od_push_partitions (rn_publisher rn)"
    using ok n unfolding c Run_ok(2) [OF assms(2)] by (simp_all add: run_publisher_def Let_def)
qed

text \<open>
  What handling a push record does for a connection of one of its targets: the event of the user is
  at the end of the queue, or the push is reported as failed and the record is not acknowledged
  before the dead letter with that failure was handed to the client library.
\<close>

definition reaches_connection ::
  "'s gateway_deps \<Rightarrow> persisted_event \<Rightarrow> int list \<Rightarrow> int \<Rightarrow> string \<Rightarrow> kmessage \<Rightarrow> 's gateway \<Rightarrow> conn \<Rightarrow> bool" where
  "reaches_connection D event ids now uuid km g c \<longleftrightarrow>
     (\<exists>fs r g' c2. deliver_handle D now uuid km g = Some (r, g') \<and> mg_conns (gt_mgr g') (cn_id c) = Some c2
        \<and> (case eventForUser (toPushEvent event ids) (cn_user c) of
             Inl err \<Rightarrow> cn_queue c2 = cn_queue c
           | Inr ev \<Rightarrow> cn_queue c2 = cn_queue c @ [ev]
               \<or> cn_id c \<in> pf_conn ` set fs
                 \<and> (r = None \<longrightarrow> push_dead_lettered D now km fs (snd (gt_kafka g)) (snd (gt_kafka g')))))"

section \<open>Properties\<close>

text \<open>
  C39: A validated configuration is a safe one. When \<open>Build\<close> and \<open>Run\<close> accept a configuration, all
  components use one topic prefix; inbox records are partitioned by key and push records as the
  publisher says; the gateway process reads the push topic, on the partition that
  its connections are registered with, and the publishers route to that partition; the persist
  worker reads the inbox topic with one queue for each partition; the worker slots are within the
  shards of the outbox, no process starts more publishers than there are slots, and batches,
  concurrency and leases of the publishers are positive, with no more publications at once than rows
  in a batch.
\<close>

theorem assembled_consistently:
  assumes "Build L X brokers cfg db = (Inr sx, db')" and "Run L sx = Inr rn"
    and "kf_push_partitions (cf_kafka cfg) < 2 ^ 31"
  shows "od_prefix (rn_publisher rn) = md_topic_prefix (sx_messages sx) \<and> pd_prefix (rn_persist rn) = md_topic_prefix (sx_messages sx)
      \<and> gd_prefix (rn_gateway rn) = md_topic_prefix (sx_messages sx)
      \<and> pn_suffix (sx_producer sx) = md_topic_prefix (sx_messages sx)
    \<and> StickyKeyPartitioner \<in> set (pn_inbox (sx_producer sx)) \<and> ManualPartitioner \<in> set (pn_push (sx_producer sx))
    \<and> cs_topic (sx_gateway_consumer sx) = PushTopic (md_topic_prefix (sx_messages sx))
    \<and> consumer_Partition (sx_gateway_consumer sx) = mg_partition (sx_manager sx)
    \<and> 0 \<le> mg_partition (sx_manager sx) \<and> mg_partition (sx_manager sx) < od_push_partitions (rn_publisher rn)
    \<and> cs_topic (sx_persist_consumer sx) = InboxTopic (md_topic_prefix (sx_messages sx))
    \<and> 0 < pd_partitions (rn_persist rn) \<and> pd_partitions (rn_persist rn) = kf_inbox_partitions (cf_kafka cfg)
    \<and> 0 < pc_workers (od_config (rn_publisher rn)) \<and> pc_workers (od_config (rn_publisher rn)) \<le> int OutboxShardCount
    \<and> 0 < rn_local_publishers rn \<and> rn_local_publishers rn \<le> pc_workers (od_config (rn_publisher rn))
    \<and> 0 < pc_batch (od_config (rn_publisher rn)) \<and> 0 < pc_concurrency (od_config (rn_publisher rn))
    \<and> pc_concurrency (od_config (rn_publisher rn)) \<le> pc_batch (od_config (rn_publisher rn))
    \<and> 0 < pc_lease (od_config (rn_publisher rn))"
proof -
  let ?c = "Normalize brokers cfg"
  obtain p ids cons where b: "check_config ?c = None" "build_consumers X ?c = Inr cons"
    "NewProducer (oc_client X) (producer_conf ?c) = Inr p" "sx = build_context L ?c p ids cons"
    by (rule Build_ok [OF assms(1)])
  note rn = Run_ok [OF assms(2)]
  have c: "sx_config sx = ?c" "sx_messages sx = build_messages L ?c" "sx_persist_consumer sx = fst cons"
    "sx_gateway_consumer sx = fst (snd cons)"
    and prod: "sx_producer sx = p"
    by (simp_all add: b(4) build_context_def)
  have pn: "pn_suffix p = kf_topic_prefix (cf_kafka ?c)" "StickyKeyPartitioner \<in> set (pn_inbox p)"
    "ManualPartitioner \<in> set (pn_push p)" using NewProducer_ok [OF b(3)] by (simp_all add: producer_conf_def)
  have n: "kf_inbox_partitions (cf_kafka ?c) = kf_inbox_partitions (cf_kafka cfg)" by (simp add: Normalize_def Let_def)
  note ok = b(1) [unfolded check_config_ok] and run = rn(1) [unfolded c(1) check_run_ok]
  note part = assembled_partition [OF assms]
  from b(2) have cons: "cs_topic (fst cons) = InboxTopic (kf_topic_prefix (cf_kafka ?c))"
    "cs_topic (fst (snd cons)) = PushTopic (kf_topic_prefix (cf_kafka ?c))"
    by (auto simp: build_consumers_def Let_def group_consumer_def partition_consumer_def
        split: sum.splits dest!: NewConsumer_ok NewPartitionConsumer_ok)
  have prefix: "md_topic_prefix (sx_messages sx) = kf_topic_prefix (cf_kafka ?c)" by (simp add: c build_messages_def Let_def)
  have topics: "cs_topic (sx_persist_consumer sx) = InboxTopic (md_topic_prefix (sx_messages sx))"
    "cs_topic (sx_gateway_consumer sx) = PushTopic (md_topic_prefix (sx_messages sx))" unfolding c(3,4) cons prefix by simp_all
  show ?thesis
    using topics part prefix ok run n publisher_New_bounds pn unfolding rn(2-6) c(1) prod
    by (auto simp: run_publisher_def run_persist_def run_gateway_def worker_New_def local_outbox_workers_def Let_def)
qed




section \<open>One application\<close>

definition demo_libs :: "(unit, unit, int) libs" where
  "demo_libs = \<lparr>lb_uuid = demo_uuid, lb_local = (\<lambda>_ _ _ l. (True, l)), lb_cb = gd_cb demo_gateway_deps, lb_kdf = demo_kdf,
     lb_jwt = demo_jwt, lb_collation = ud_collation demo_users, lb_lower = ud_lower demo_users, lb_time = (\<lambda>s. None),
     lb_partial = od_partial demo_publisher, lb_ids = (\<lambda>opts tag. count_ids)\<rparr>"

definition demo_outcomes :: outcomes where
  "demo_outcomes = \<lparr>oc_mysql = None, oc_redis = None, oc_client = (\<lambda>opts. None),
     oc_offsets = (\<lambda>g. GroupIDNotFound), oc_ctx = (\<lambda>n. None)\<rparr>"

definition demo_id_row :: id_row where
  "demo_id_row = \<lparr>row_max_id = 1, row_step = 10, row_version = 1\<rparr>"

definition demo_ids :: id_db where
  "demo_ids = (Map.empty(''im_user'' \<mapsto> demo_id_row, ''im_conversation'' \<mapsto> demo_id_row, ''im_message'' \<mapsto> demo_id_row), [])"

lemma demo_application:
  "\<exists>sx db' rn. Build demo_libs demo_outcomes [] defaultConfig demo_ids = (Inr sx, db') \<and> Run demo_libs sx = Inr rn
     \<and> sx_manager sx = NewManagerWithPartition ''node-1'' 0 (Some demo_presence)
     \<and> consumer_Partition (sx_gateway_consumer sx) = 0"
proof -
  let ?b = "Build demo_libs demo_outcomes [] defaultConfig demo_ids"
  have b: "case fst ?b of Inl e \<Rightarrow> False | Inr sx \<Rightarrow> sx_config sx = Normalize [] defaultConfig
      \<and> consumer_Partition (sx_gateway_consumer sx) = 0"
    by code_simp
  then obtain sx db' where sx: "?b = (Inr sx, db')" "sx_config sx = Normalize [] defaultConfig"
    "consumer_Partition (sx_gateway_consumer sx) = 0"
    by (cases ?b) (auto split: sum.splits)
  obtain p ids cons where s: "sx = build_context demo_libs (Normalize [] defaultConfig) p ids cons" by (rule Build_ok [OF sx(1)])
  have "check_run (sx_config sx) = None" unfolding sx(2) by code_simp
  then obtain rn where "Run demo_libs sx = Inr rn" by (simp add: Run_def Let_def)
  moreover have "sv_node_id (cf_server (Normalize [] defaultConfig)) = ''node-1''"
    "sv_gateway_partition_id (cf_server (Normalize [] defaultConfig)) = 0"
    "presence_of (Normalize [] defaultConfig) = demo_presence"
    by code_simp+
  ultimately show ?thesis using sx(1,3) by (simp add: s build_context_def)
qed

lemma assembled_consistently_witness:
  "\<exists>sx db' rn. Build demo_libs demo_outcomes [] defaultConfig demo_ids = (Inr sx, db') \<and> Run demo_libs sx = Inr rn
     \<and> mg_partition (sx_manager sx) < od_push_partitions (rn_publisher rn) \<and> pd_partitions (rn_persist rn) = 3"
proof -
  obtain sx db' rn where a: "Build demo_libs demo_outcomes [] defaultConfig demo_ids = (Inr sx, db')" "Run demo_libs sx = Inr rn"
    using demo_application by blast
  have k: "kf_push_partitions (cf_kafka defaultConfig) < 2 ^ 31" "kf_inbox_partitions (cf_kafka defaultConfig) = 3"
    by code_simp+
  from assembled_consistently [OF a k(1)] a k(2) show ?thesis by (intro exI [of _ sx] exI [of _ db'] exI [of _ rn]) simp
qed


text \<open>User 7 connects to that process at 1000; at 3000 a publisher routes an event for the members 9 and 7.\<close>

definition demo_registered :: "manager \<times> redis" where
  "demo_registered = snd (mgr_Register 1000 (demo_conn ''c1'' 7)
     (NewManagerWithPartition ''node-1'' 0 (Some demo_presence), empty_redis))"

definition demo_routed_world :: "unit outbox_world" where
  "demo_routed_world = demo_outbox_world\<lparr>ow_redis := (snd demo_registered)\<lparr>rd_now := 3000\<rparr>\<rparr>"

definition demo_routed_push :: kmessage where
  "demo_routed_push = \<lparr>km_topic = ''im.message.push'', km_partition = 0, km_offset = 4, km_key = ''5'',
     km_value = KEnv (Envelope 1 ''evt_u'' EventPush 3002 ''outbox-publisher'' ''5'' (DPush (toPushEvent demo_event [7])))\<rparr>"

definition demo_node :: "unit gateway" where
  "demo_node = demo_push_gateway\<lparr>gt_mgr := fst demo_registered\<rparr>"

lemma demo_node_facts:
  "mgr_Register 1000 (demo_conn ''c1'' 7) (NewManagerWithPartition ''node-1'' 0 (Some demo_presence), empty_redis)
     = (None, demo_registered)"
  "mgr_reachable (fst demo_registered)" "mg_conns (fst demo_registered) [] = None"
  "mg_conns (fst demo_registered) ''c1'' = Some (demo_conn ''c1'' 7)"
  "v \<noteq> 7 \<Longrightarrow> zset_of (PresenceUserKey v) ((snd demo_registered)\<lparr>rd_now := s\<rparr>) = []"
proof -
  show "mgr_Register 1000 (demo_conn ''c1'' 7) (NewManagerWithPartition ''node-1'' 0 (Some demo_presence), empty_redis)
     = (None, demo_registered)" by (simp add: demo_registered_def mgr_Register_def Let_def)
  have "mgr_step (NewManagerWithPartition ''node-1'' 0 (Some demo_presence)) (fst demo_registered)"
    unfolding demo_registered_def
    by (rule mgr_step.register [OF _ demo_conn_def]) (simp add: NewManagerWithPartition_def)
  then show "mgr_reachable (fst demo_registered)" by (blast intro: mgr_reachable.intros)
  show "mg_conns (fst demo_registered) [] = None" "mg_conns (fst demo_registered) ''c1'' = Some (demo_conn ''c1'' 7)"
    by (simp_all add: demo_registered_def mgr_Register_def Let_def NewManagerWithPartition_def demo_conn_def NewConn_def)
  show "zset_of (PresenceUserKey v) ((snd demo_registered)\<lparr>rd_now := s\<rparr>) = []" if "v \<noteq> 7"
    using that by (simp add: demo_registered_def mgr_Register_def Let_def NewManagerWithPartition_def presence_Register_def
        redis_call_ok as_error_def add_member_def Connection.route_of_def demo_conn_def NewConn_def put_zset_def zset_of_def
        zset_expiry_def set_str_def empty_redis_def PresenceUserKey_inj)
qed


end
