(* ===== verification/ChatLog.thy ===== *)
theory ChatLog
  imports Store
begin

text \<open>
  What the tables of messages and outbox promise, without tables: each conversation is a log of
  messages, of which a prefix is finished - published to the gateways or dead-lettered. The
  operations of the repositories refine this specification.
\<close>

section \<open>The specification\<close>

record chat_entry =
  en_mid :: int
  en_sender :: int
  en_client :: "nat list"
  en_type :: int
  en_content :: raw

record chat =
  ch_log :: "int \<Rightarrow> chat_entry list"
  ch_done :: "int \<Rightarrow> nat"

definition no_chat :: chat where
  "no_chat = \<lparr>ch_log = (\<lambda>c. []), ch_done = (\<lambda>c. 0)\<rparr>"

text \<open>A message id, and a client id of a sender, are used once in all logs.\<close>

definition fresh_entry :: "chat_entry \<Rightarrow> chat \<Rightarrow> bool" where
  "fresh_entry e s \<longleftrightarrow> (\<forall>c. \<forall>x \<in> set (ch_log s c). en_mid x \<noteq> en_mid e \<and> (en_sender x, en_client x) \<noteq> (en_sender e, en_client e))"

inductive chat_step :: "chat \<Rightarrow> chat \<Rightarrow> bool" where
  append: "fresh_entry e s \<Longrightarrow> chat_step s (s\<lparr>ch_log := (ch_log s)(c := ch_log s c @ [e])\<rparr>)"
| finish: "ch_done s c < length (ch_log s c) \<Longrightarrow> chat_step s (s\<lparr>ch_done := (ch_done s)(c := Suc (ch_done s c))\<rparr>)"

section \<open>The abstraction\<close>

definition entry_of :: "msg_row \<Rightarrow> chat_entry" where
  "entry_of r = \<lparr>en_mid = mr_id r, en_sender = mr_sender r, en_client = mr_client r, en_type = mr_type r, en_content = mr_content r\<rparr>"

definition rows_of :: "int \<Rightarrow> outbox_row list \<Rightarrow> outbox_row list" where
  "rows_of c rows = filter (\<lambda>r. row_conv r = Some c) rows"

definition finished_row :: "outbox_row \<Rightarrow> bool" where
  "finished_row r \<longleftrightarrow> \<not> unfinished (ob_status r)"

definition abs_chat :: "db \<Rightarrow> chat" where
  "abs_chat d = \<lparr>ch_log = (\<lambda>c. map entry_of (messages_of c d)),
     ch_done = (\<lambda>c. length (filter finished_row (rows_of c (d_outbox d))))\<rparr>"

section \<open>Rows and messages\<close>

lemma filter_prefix:
  "(\<And>i j. i < j \<Longrightarrow> j < length xs \<Longrightarrow> P (xs ! j) \<Longrightarrow> P (xs ! i)) \<Longrightarrow> filter P xs = take (length (filter P xs)) xs"
proof (induction xs)
  case (Cons x xs)
  show ?case
  proof (cases "P x")
    case True
    have "filter P xs = take (length (filter P xs)) xs"
      by (rule Cons.IH) (use Cons.prems in \<open>force intro: Cons.prems [of "Suc i" "Suc j" for i j, simplified]\<close>)
    with True show ?thesis by simp
  next
    case False
    have "\<not> P (xs ! j)" if "j < length xs" for j using Cons.prems [of 0 "Suc j"] that False by auto
    then have "filter P xs = []" by (auto simp: filter_empty_conv in_set_conv_nth)
    with False show ?thesis by simp
  qed
qed simp

lemma matches_conv:
  "list_all2 outbox_matches ms qs \<Longrightarrow>
     list_all2 outbox_matches (filter (\<lambda>r. mr_conv r = c) ms) (rows_of c qs)"
  unfolding rows_of_def
  by (induction rule: list_all2_induct) (auto dest: outbox_matches_row)

lemma rows_match: "store_inv d \<Longrightarrow> list_all2 outbox_matches (messages_of c d) (rows_of c (d_outbox d))"
  unfolding messages_of_def by (rule matches_conv) (simp add: store_inv_def msgs_inv_def)

lemma rows_in_order:
  assumes "store_inv d" and "i < j" and "j < length (rows_of c (d_outbox d))"
  shows "before (rows_of c (d_outbox d) ! i) (rows_of c (d_outbox d) ! j)"
proof -
  let ?ms = "messages_of c d" and ?qs = "rows_of c (d_outbox d)"
  note m = rows_match [OF assms(1), of c]
  have l: "length ?ms = length ?qs" using list_all2_lengthD [OF m] .
  have at: "ob_shard (?qs ! k) = OutboxShardID c \<and> row_conv (?qs ! k) = Some c \<and> row_seq (?qs ! k) = Some (mr_seq (?ms ! k))"
    if "k < length ?qs" for k
  proof -
    from that l have k: "k < length ?ms" by simp
    have "mr_conv (?ms ! k) = c" using nth_mem [OF k] by (simp add: messages_of_def)
    with outbox_matches_row [OF list_all2_nthD [OF m k]] list_all2_nthD [OF m k] show ?thesis
      by (simp add: outbox_matches_def)
  qed
  have "?ms \<noteq> []" using l assms(3) by auto
  then obtain r where "r \<in> set (d_msgs d)" "mr_conv r = c" by (auto simp: messages_of_def filter_empty_conv)
  then obtain cv where "cv \<in> set (d_convs d)" "cr_id cv = c"
    using assms(1) by (auto simp: store_inv_def convs_inv_def)
  then have seqs: "map mr_seq ?ms = [1..cr_last_seq cv]" using assms(1) by (auto simp: store_inv_def convs_inv_def)
  have "mr_seq (?ms ! k) = 1 + int k" if "k < length ?qs" for k
  proof -
    have n: "length [1..cr_last_seq cv] = length ?ms" unfolding seqs [symmetric] by simp
    have "mr_seq (?ms ! k) = map mr_seq ?ms ! k" using that l by simp
    also have "\<dots> = 1 + int k" unfolding seqs using that l n by (subst nth_upto) auto
    finally show ?thesis .
  qed
  then show ?thesis using at assms(2,3) by (simp add: before_def)
qed

text \<open>The finished rows of a conversation are those of the first messages of its log.\<close>

lemma finished_prefix:
  assumes "store_inv d"
  shows "map ob_mid (filter finished_row (rows_of c (d_outbox d)))
    = map en_mid (take (ch_done (abs_chat d) c) (ch_log (abs_chat d) c))"
proof -
  let ?qs = "rows_of c (d_outbox d)"
  have "filter finished_row ?qs = take (length (filter finished_row ?qs)) ?qs"
  proof (rule filter_prefix)
    fix i j
    assume j: "i < j" "j < length ?qs" and f: "finished_row (?qs ! j)"
    have "?qs ! i \<in> set (d_outbox d)" "?qs ! j \<in> set (d_outbox d)"
      using nth_mem [of i ?qs] nth_mem [of j ?qs] j by (simp_all add: rows_of_def)
    then show "finished_row (?qs ! i)"
      using queue_invD(2) [of "d_outbox d"] rows_in_order [OF assms j] f assms
      by (auto simp: finished_row_def advanced_def store_inv_def)
  qed
  moreover have "map ob_mid ?qs = map en_mid (map entry_of (messages_of c d))"
  proof -
    have "list_all2 (\<lambda>m q. ob_mid q = mr_id m) (messages_of c d) ?qs"
      using rows_match [OF assms] by (rule list_all2_mono) (simp add: outbox_matches_def)
    then show ?thesis by (induction rule: list_all2_induct) (simp_all add: entry_of_def)
  qed
  ultimately have "map ob_mid (filter finished_row ?qs)
      = take (length (filter finished_row ?qs)) (map en_mid (map entry_of (messages_of c d)))"
    by (metis take_map)
  then show ?thesis by (simp add: abs_chat_def take_map)
qed

section \<open>Each operation refines\<close>

lemma abs_outbox_same:
  assumes "d_msgs d' = d_msgs d" and "list_all2 (\<lambda>r r'. row_conv r' = row_conv r \<and> finished_row r' = finished_row r) (d_outbox d) (d_outbox d')"
  shows "abs_chat d' = abs_chat d"
proof -
  have "length (filter finished_row (rows_of c (d_outbox d'))) = length (filter finished_row (rows_of c (d_outbox d)))" for c
    using assms(2) unfolding rows_of_def by (induction rule: list_all2_induct) simp_all
  then show ?thesis using assms(1) by (simp add: abs_chat_def messages_of_def)
qed

lemma abs_set_outbox_same:
  assumes "\<And>r. r \<in> set (d_outbox d) \<Longrightarrow> P r \<Longrightarrow> ob_payload (f r) = ob_payload r \<and> finished_row (f r) = finished_row r"
  shows "abs_chat (set_outbox P f d) = abs_chat d"
proof (rule abs_outbox_same)
  show "d_msgs (set_outbox P f d) = d_msgs d" by (simp add: set_outbox_def)
  show "list_all2 (\<lambda>r r'. row_conv r' = row_conv r \<and> finished_row r' = finished_row r) (d_outbox d) (d_outbox (set_outbox P f d))"
    using assms by (auto simp: set_outbox_def update_where_def list.rel_map row_conv_def intro!: list.rel_refl_strong)
qed

lemma payload_conv: "ob_payload r' = ob_payload r \<Longrightarrow> row_conv r' = row_conv r"
  by (simp add: row_conv_def)

text \<open>A change of the one row with a given key moves at most one conversation, by one message.\<close>

lemma abs_one_row:
  assumes inv: "store_inv d" and key: "\<And>r. P r \<Longrightarrow> row_key r = k"
    and row: "\<And>r. r \<in> set (d_outbox d) \<Longrightarrow> P r \<Longrightarrow> ob_payload (f r) = ob_payload r \<and> \<not> finished_row r"
  shows "abs_chat (set_outbox P f d) = abs_chat d \<or> chat_step (abs_chat d) (abs_chat (set_outbox P f d))"
proof (cases "\<exists>r \<in> set (d_outbox d). P r \<and> finished_row (f r)")
  case False
  have "abs_chat (set_outbox P f d) = abs_chat d"
    by (rule abs_set_outbox_same) (use False row in blast)
  then show ?thesis ..
next
  case True
  then obtain r where r: "r \<in> set (d_outbox d)" "P r" "finished_row (f r)" by blast
  obtain xs ys where split: "d_outbox d = xs @ r # ys" using split_list [OF r(1)] by blast
  have dist: "distinct (map row_key (d_outbox d))" using inv by (simp add: store_inv_def queue_inv_def)
  let ?g = "\<lambda>q. if P q then f q else q"
  have other: "?g q = q" if "q \<in> set xs \<union> set ys" for q
  proof -
    have "row_key r \<notin> row_key ` (set xs \<union> set ys)" using dist unfolding split by auto
    with that have "row_key q \<noteq> row_key r" by (metis imageI)
    with key [of q] key [OF r(2)] show ?thesis by auto
  qed
  then have "map ?g xs = xs" "map ?g ys = ys" by (simp_all add: map_idI)
  then have out: "d_outbox (set_outbox P f d) = xs @ f r # ys"
    using r(2) unfolding set_outbox_def update_where_def by (simp add: split)
  from list_all2_right [OF _ r(1)] inv obtain m where "outbox_matches m r" unfolding store_inv_def msgs_inv_def by blast
  from outbox_matches_row [OF this] obtain c where c: "row_conv r = Some c" "row_conv (f r) = Some c"
    using row [OF r(1,2)] payload_conv [of "f r" r] by auto
  have log: "ch_log (abs_chat (set_outbox P f d)) = ch_log (abs_chat d)"
    by (simp add: abs_chat_def set_outbox_def messages_of_def)
  have "ch_done (abs_chat (set_outbox P f d)) = (ch_done (abs_chat d))(c := Suc (ch_done (abs_chat d) c))"
    using r(3) row [OF r(1,2)] c by (auto simp: abs_chat_def out split rows_of_def)
  with log have eq: "abs_chat (set_outbox P f d) = (abs_chat d)\<lparr>ch_done := (ch_done (abs_chat d))(c := Suc (ch_done (abs_chat d) c))\<rparr>"
    by (intro chat.equality) simp_all
  have "r \<in> set (rows_of c (d_outbox d))" using r(1) c by (simp add: rows_of_def)
  then have "ch_done (abs_chat d) c < length (rows_of c (d_outbox d))"
    using row [OF r(1,2)] unfolding abs_chat_def by (auto intro: length_filter_less)
  also have "\<dots> = length (ch_log (abs_chat d) c)"
    using list_all2_lengthD [OF rows_match [OF inv, of c]] by (simp add: abs_chat_def)
  finally show ?thesis unfolding eq by (blast intro: chat_step.finish)
qed

lemma claim_one_abs:
  assumes "claim_one now owner lease skip k d = (rec, d')" and "store_inv d"
  shows "abs_chat d' = abs_chat d"
proof (cases "d' = d")
  case False
  obtain row st err where h: "queue_head (fst k) (snd k) d = Some row" and st: "unfinished st"
    and d': "d' = set_outbox (same_row (ob_mid row) (ob_event row)) (claimed_row now owner lease st err) d"
    by (rule claim_one_writes [OF assms(1) False])
  note hp = queue_head_props [OF h]
  have q: "queue_inv (d_outbox d)" using assms(2) by (simp add: store_inv_def)
  have "r = row" if "r \<in> set (d_outbox d)" "same_row (ob_mid row) (ob_event row) r" for r
    using queue_invD(4) [OF q that(1) hp(1)] that(2) by (simp add: same_row_def row_key_def)
  then show ?thesis unfolding d'
    by (intro abs_set_outbox_same) (use st hp(4) in \<open>auto simp: claimed_row_def finished_row_def\<close>)
qed simp

lemma claim_all_abs:
  "claim_all now owner lease skip ks d = (recs, d') \<Longrightarrow> store_inv d \<Longrightarrow> abs_chat d' = abs_chat d"
proof (induction ks arbitrary: d recs d')
  case (Cons k ks)
  obtain rec d1 where o: "claim_one now owner lease skip k d = (rec, d1)" by fastforce
  obtain rs d2 where a: "claim_all now owner lease skip ks d1 = (rs, d2)" by fastforce
  from Cons.prems(1) o a have "d' = d2" by simp
  with Cons.IH [OF a claim_one_change [OF o Cons.prems(2)]] claim_one_abs [OF o Cons.prems(2)] show ?case by simp
qed simp


lemma persist_tx_abs:
  assumes "persist_tx U now snap raw m members d = (Inr res, d')" and "store_inv d"
  shows "abs_chat d' = abs_chat d \<or> chat_step (abs_chat d) (abs_chat d')"
  using assms(1)
proof (cases rule: persist_tx_cases)
  case (inserted c)
  let ?r = "message_row m raw (cr_last_seq c + 1) now"
  have new: "fresh_entry (entry_of ?r) (abs_chat d)"
    using inserted(6) by (auto simp: fresh_entry_def abs_chat_def entry_of_def messages_of_def message_row_def list_ex_iff)
  have "abs_chat d' = (abs_chat d)\<lparr>ch_log := (ch_log (abs_chat d))(m_conv m := ch_log (abs_chat d) (m_conv m) @ [entry_of ?r])\<rparr>"
    unfolding inserted(8)
    by (intro chat.equality)
      (auto simp: abs_chat_def messages_of_def message_row_def rows_of_def outbox_of_def finished_row_def)
  then show ?thesis using chat_step.append [OF new, of "m_conv m"] by simp
qed simp

lemma store_step_abs:
  "store_step U d d' \<Longrightarrow> store_inv d \<Longrightarrow> abs_chat d' = abs_chat d \<or> chat_step (abs_chat d) (abs_chat d')"
proof (induction rule: store_step.induct)
  case (persist now snap m members d fs r1 d' fs')
  then show ?case using Persist_at_state [OF persist(1)] persist_tx_abs by blast
next
  case (received c u seq d fs r2 d' fs')
  then have "d_msgs d' = d_msgs d \<and> d_outbox d' = d_outbox d"
    by (auto simp: AdvanceReceivedCursor_def split: sum.splits prod.splits dest!: db_exec_cases)
  then show ?case by (simp add: abs_chat_def messages_of_def)
next
  case (read c u seq d fs r2 d' fs')
  then have "d_msgs d' = d_msgs d \<and> d_outbox d' = d_outbox d"
    by (auto simp: AdvanceReadCursor_def split: sum.splits prod.splits dest!: db_exec_cases)
  then show ?case by (simp add: abs_chat_def messages_of_def)
next
  case (create now conv ids d fs r3 d' fs')
  then have "d_msgs d' = d_msgs d \<and> d_outbox d' = d_outbox d"
    using CreateWithMembers_state [OF create(1)] by (auto elim: create_tx_cases)
  then show ?case by (simp add: abs_chat_def messages_of_def)
next
  case (claim dbnow now snap skip batch shards owner lease d fs r4 d' fs')
  then show ?case using Claim_at_state [OF claim(1)] claim_all_abs by blast
next
  case (published now mid ev owner d fs r5 d' fs')
  have "abs_chat (set_outbox (owned_row mid ev owner) (published_row now) d) = abs_chat d
      \<or> chat_step (abs_chat d) (abs_chat (set_outbox (owned_row mid ev owner) (published_row now) d))"
    by (rule abs_one_row [OF published(2), of _ "(mid, ev)"])
      (use owned_unfinished published(2) in \<open>auto simp: owned_row_def same_row_def row_key_def published_row_def finished_row_def store_inv_def\<close>)
  then show ?case using published(1) update_outbox_state unfolding MarkPublished_def by metis
next
  case (failed now jitter mid ev err maxr backoff lease owner d fs r6 d' fs')
  have "abs_chat (set_outbox (owned_row mid ev owner) (failed_row now err n maxr backoff lease jitter owner) d) = abs_chat d
      \<or> chat_step (abs_chat d) (abs_chat (set_outbox (owned_row mid ev owner) (failed_row now err n maxr backoff lease jitter owner) d))" for n
    by (rule abs_one_row [OF failed(2), of _ "(mid, ev)"])
      (use owned_unfinished failed(2) in \<open>auto simp: owned_row_def same_row_def row_key_def failed_row_def finished_row_def store_inv_def\<close>)
  then show ?case using MarkFailed_state [OF failed(1)] by metis
next
  case (retry_dlq now mid ev backoff owner d fs r5 d' fs')
  have "abs_chat (set_outbox (dlq_owned mid ev owner) (\<lambda>r. r\<lparr>ob_next_retry := t, ob_locked_by := None, ob_locked_at := None\<rparr>) d) = abs_chat d
      \<or> chat_step (abs_chat d) (abs_chat (set_outbox (dlq_owned mid ev owner) (\<lambda>r. r\<lparr>ob_next_retry := t, ob_locked_by := None, ob_locked_at := None\<rparr>) d))" for t
    by (rule abs_one_row [OF retry_dlq(2), of _ "(mid, ev)"])
      (auto simp: dlq_owned_def owned_row_def same_row_def row_key_def finished_row_def)
  then show ?case using retry_dlq(1) update_outbox_state unfolding RetryDLQ_def by metis
next
  case (dead mid ev owner d fs r5 d' fs')
  have "abs_chat (set_outbox (dlq_owned mid ev owner) (\<lambda>r. r\<lparr>ob_status := OutboxDead, ob_locked_by := None, ob_locked_at := None\<rparr>) d) = abs_chat d
      \<or> chat_step (abs_chat d) (abs_chat (set_outbox (dlq_owned mid ev owner) (\<lambda>r. r\<lparr>ob_status := OutboxDead, ob_locked_by := None, ob_locked_at := None\<rparr>) d))"
    by (rule abs_one_row [OF dead(2), of _ "(mid, ev)"])
      (auto simp: dlq_owned_def owned_row_def same_row_def row_key_def finished_row_def)
  then show ?case using dead(1) update_outbox_state unfolding MarkDead_def by metis
qed

interpretation chat: refinement empty_db "store_step U" store_inv abs_chat no_chat chat_step for U :: uuid_lib
proof
  show "store_inv empty_db \<and> abs_chat empty_db = no_chat"
    using store_reachable_inv [OF store_reachable.start]
    by (simp add: no_chat_def abs_chat_def messages_of_def rows_of_def empty_db_def)
  show "store_inv d'" if "store_inv d" "store_step U d d'" for U d d' using store_step_inv that by blast
  show "abs_chat d' = abs_chat d \<or> chat_step (abs_chat d) (abs_chat d')" if "store_inv d" "store_step U d d'" for U d d'
    by (rule store_step_abs [OF that(2,1)])
qed

lemma store_runs: "store_reachable U d \<Longrightarrow> (store_step U)\<^sup>*\<^sup>* empty_db d"
  by (induction rule: store_reachable.induct) auto

text \<open>
  A consequence of the specification: in all logs together a message id is at one place only, and
  no conversation has more finished messages than messages.
\<close>

definition chat_ok :: "chat \<Rightarrow> bool" where
  "chat_ok s \<longleftrightarrow> (\<forall>c. ch_done s c \<le> length (ch_log s c) \<and> distinct (map en_mid (ch_log s c)))
     \<and> (\<forall>c1 c2. c1 \<noteq> c2 \<longrightarrow> en_mid ` set (ch_log s c1) \<inter> en_mid ` set (ch_log s c2) = {})"

lemma chat_step_ok: "chat_step s s' \<Longrightarrow> chat_ok s \<Longrightarrow> chat_ok s'"
proof (induction rule: chat_step.induct)
  case (append e s c)
  then have new: "en_mid e \<notin> en_mid ` set (ch_log s k)" for k
    unfolding fresh_entry_def by (auto simp: image_iff) (metis)
  have "ch_done s k \<le> length (ch_log s k) \<and> distinct (map en_mid (ch_log s k))"
    "k1 \<noteq> k2 \<Longrightarrow> en_mid ` set (ch_log s k1) \<inter> en_mid ` set (ch_log s k2) = {}" for k k1 k2
    using append(2) by (simp_all add: chat_ok_def)
  with new show ?case by (auto simp: chat_ok_def le_SucI)
qed (auto simp: chat_ok_def)

lemma logs_share_no_message:
  assumes "store_reachable U d"
  shows "chat_ok (abs_chat d)"
proof (rule chat.abstract_invariant [OF store_runs [OF assms]])
  show "chat_ok no_chat" by (simp add: chat_ok_def no_chat_def)
qed (rule chat_step_ok)

section \<open>Properties\<close>

text \<open>
  C1: The tables implement the chat log. Whatever the gateways and workers do, in any interleaving
  and with any failures, each change of the tables either does not show in the logs, or adds one
  fresh message at the end of one log, or finishes the next unfinished message of one log; and the
  outbox rows that are published or dead-lettered are at every moment exactly those of the first
  messages of each conversation, in order.
\<close>

theorem tables_refine_chat_log:
  assumes "store_reachable U d"
  shows "chat_step\<^sup>*\<^sup>* no_chat (abs_chat d)
    \<and> (\<forall>d'. store_step U d d' \<longrightarrow> abs_chat d' = abs_chat d \<or> chat_step (abs_chat d) (abs_chat d'))
    \<and> (\<forall>c. map ob_mid (filter finished_row (rows_of c (d_outbox d)))
             = map en_mid (take (ch_done (abs_chat d) c) (ch_log (abs_chat d) c)))"
proof -
  have "chat_step\<^sup>*\<^sup>* no_chat (abs_chat d)" by (rule chat.simulates [OF store_runs [OF assms]])
  then show ?thesis
    using store_step_abs finished_prefix store_reachable_inv [OF assms] by blast
qed

lemma tables_refine_chat_log_witness:
  "chat_step\<^sup>*\<^sup>* no_chat (abs_chat demo_db6) \<and> map en_mid (ch_log (abs_chat demo_db6) 5) = [100, 101] \<and> ch_done (abs_chat demo_db6) 5 = 1"
proof -
  have "map en_mid (ch_log (abs_chat demo_db6) 5) = [100, 101]" "ch_done (abs_chat demo_db6) 5 = 1" by code_simp+
  with tables_refine_chat_log [OF demo_reachable(1)] show ?thesis by blast
qed

end
