(* ===== verification/LocalLimiter.thy ===== *)
theory LocalLimiter
  imports RedisStore "HOL-Library.AList"
begin

text \<open>
  \<open>localRateStore\<close> of \<open>redis/rate_limiter.go\<close>: the limiters of one process by key, used while Redis
  fails, with the cleanup of idle ones. The limiter itself is \<open>golang.org/x/time/rate\<close> and a
  parameter. The cleanup is invisible as long as an idle limiter fills up again within its ten
  minutes.
\<close>

section \<open>The store\<close>

text \<open>\<open>rate.NewLimiter(perSecond, burst)\<close> and \<open>Allow\<close> at a time in milliseconds.\<close>

record 'b rate_lib =
  rl_new :: "rat \<Rightarrow> int \<Rightarrow> 'b"
  rl_allow :: "int \<Rightarrow> 'b \<Rightarrow> bool \<times> 'b"

record 'b local_bucket =
  lk_limiter :: 'b
  lk_last :: int

record 'b local_store =
  ls_now :: int
  ls_items :: "(string \<times> 'b local_bucket) list"

definition newLocalRateStore :: "int \<Rightarrow> 'b local_store" where
  "newLocalRateStore now = \<lparr>ls_now = now, ls_items = []\<rparr>"

definition max_idle :: int where
  "max_idle = 600000"

text \<open>The conversion of a \<open>float64\<close> to \<open>int\<close> cuts towards zero.\<close>

definition go_int :: "rat \<Rightarrow> int" where
  "go_int x = (if 0 \<le> x then \<lfloor>x\<rfloor> else \<lceil>x\<rceil>)"

definition drop_idle :: "int \<Rightarrow> (string \<times> 'b local_bucket) list \<Rightarrow> (string \<times> 'b local_bucket) list" where
  "drop_idle now items =
     (if 10000 < length items then filter (\<lambda>p. \<not> max_idle < now - lk_last (snd p)) items else items)"

definition local_allow ::
  "'b rate_lib \<Rightarrow> ('b local_store \<Rightarrow> 'b local_store) \<Rightarrow> string \<Rightarrow> rat \<Rightarrow> rat \<Rightarrow> 'b local_store \<Rightarrow> bool \<times> 'b local_store" where
  "local_allow R tidy k capacity per_second s0 =
     (let s = tidy s0; now = ls_now s;
          lim = (case map_of (ls_items s) k of
                   Some b \<Rightarrow> lk_limiter b
                 | None \<Rightarrow> rl_new R per_second (go_int capacity)) in
      case rl_allow R now lim of
        (ok, lim') \<Rightarrow> (ok, s\<lparr>ls_items := AList.update k \<lparr>lk_limiter = lim', lk_last = now\<rparr> (ls_items s)\<rparr>))"

text \<open>\<open>localRateStore.Allow\<close>, and for comparison a store that never forgets.\<close>

definition localRateStore_Allow :: "'b rate_lib \<Rightarrow> 'b local_store local_limiter" where
  "localRateStore_Allow R = local_allow R (\<lambda>s. s\<lparr>ls_items := drop_idle (ls_now s) (ls_items s)\<rparr>)"

definition unforgetful_Allow :: "'b rate_lib \<Rightarrow> 'b local_store local_limiter" where
  "unforgetful_Allow R = local_allow R (\<lambda>s. s)"

section \<open>Runs\<close>

text \<open>Calls at the given times; a key always comes with the same capacity and rate.\<close>

primrec limiter_run ::
  "'b local_store local_limiter \<Rightarrow> (string \<Rightarrow> rat \<times> rat) \<Rightarrow> (int \<times> string) list \<Rightarrow> 'b local_store \<Rightarrow> bool list" where
  "limiter_run allow par [] s = []"
| "limiter_run allow par (c # cs) s =
     (case allow (snd c) (fst (par (snd c))) (snd (par (snd c))) (s\<lparr>ls_now := fst c\<rparr>) of
        (ok, s') \<Rightarrow> ok # limiter_run allow par cs s')"

text \<open>The limiters that calls can produce from a new one.\<close>

inductive limiter_of :: "'b rate_lib \<Rightarrow> rat \<Rightarrow> int \<Rightarrow> 'b \<Rightarrow> bool" for R :: "'b rate_lib" and ps :: rat and burst :: int where
  new: "limiter_of R ps burst (rl_new R ps burst)"
| used: "limiter_of R ps burst b \<Longrightarrow> limiter_of R ps burst (snd (rl_allow R t b))"

text \<open>
  What the package documents, for a rate that fills the bucket within the idle time: a limiter
  that was not used for longer than that behaves as a new one.
\<close>

definition fills_up :: "'b rate_lib \<Rightarrow> rat \<Rightarrow> int \<Rightarrow> bool" where
  "fills_up R ps burst \<longleftrightarrow>
     (\<forall>b t t'. limiter_of R ps burst b \<and> max_idle < t' - t \<longrightarrow> rl_allow R t' (snd (rl_allow R t b)) = rl_allow R t' (rl_new R ps burst))"

text \<open>The cleaned store \<open>s\<close> against the one that never forgets, \<open>u\<close>.\<close>

definition bucket_ok :: "'b rate_lib \<Rightarrow> (string \<Rightarrow> rat \<times> rat) \<Rightarrow> int \<Rightarrow> string \<Rightarrow> 'b local_bucket \<Rightarrow> bool" where
  "bucket_ok R par now k b \<longleftrightarrow> lk_last b \<le> now
     \<and> (\<exists>b0. limiter_of R (snd (par k)) (go_int (fst (par k))) b0 \<and> lk_limiter b = snd (rl_allow R (lk_last b) b0))"

definition same_limits :: "'b rate_lib \<Rightarrow> (string \<Rightarrow> rat \<times> rat) \<Rightarrow> 'b local_store \<Rightarrow> 'b local_store \<Rightarrow> bool" where
  "same_limits R par s u \<longleftrightarrow> ls_now s = ls_now u \<and> distinct (map fst (ls_items s))
     \<and> (\<forall>k b. map_of (ls_items u) k = Some b \<longrightarrow> bucket_ok R par (ls_now u) k b)
     \<and> (\<forall>k. map_of (ls_items s) k = map_of (ls_items u) k
            \<or> map_of (ls_items s) k = None \<and> (\<exists>b. map_of (ls_items u) k = Some b \<and> max_idle < ls_now u - lk_last b))"

lemma map_of_drop_idle:
  assumes "distinct (map fst items)"
  shows "map_of (drop_idle now items) k
    = (if 10000 < length items
       then (case map_of items k of None \<Rightarrow> None | Some b \<Rightarrow> if max_idle < now - lk_last b then None else Some b)
       else map_of items k)"
  using map_of_filter_time [OF assms, of "\<lambda>b. \<not> max_idle < now - lk_last b" k]
  by (simp add: drop_idle_def split: option.split)

lemma drop_idle_distinct: "distinct (map fst items) \<Longrightarrow> distinct (map fst (drop_idle now items))"
  by (simp add: drop_idle_def distinct_map_filter)

lemma same_limits_time:
  "same_limits R par s u \<Longrightarrow> ls_now u \<le> t \<Longrightarrow> same_limits R par (s\<lparr>ls_now := t\<rparr>) (u\<lparr>ls_now := t\<rparr>)"
  unfolding same_limits_def bucket_ok_def by fastforce

lemma same_limits_tidy:
  assumes "same_limits R par s u"
  shows "same_limits R par (s\<lparr>ls_items := drop_idle (ls_now s) (ls_items s)\<rparr>) u"
proof -
  have d: "distinct (map fst (ls_items s))" and now: "ls_now s = ls_now u"
    and rel: "map_of (ls_items s) k = map_of (ls_items u) k
      \<or> map_of (ls_items s) k = None \<and> (\<exists>b. map_of (ls_items u) k = Some b \<and> max_idle < ls_now u - lk_last b)" for k
    using assms by (simp_all add: same_limits_def)
  have "map_of (drop_idle (ls_now u) (ls_items s)) k = map_of (ls_items u) k
      \<or> map_of (drop_idle (ls_now u) (ls_items s)) k = None \<and> (\<exists>b. map_of (ls_items u) k = Some b \<and> max_idle < ls_now u - lk_last b)" for k
    using rel [of k] by (cases "map_of (ls_items u) k") (auto simp: map_of_drop_idle [OF d] split: if_splits)
  then show ?thesis using assms drop_idle_distinct [OF d] by (simp add: same_limits_def now)
qed

lemma bucket_ok_limiter: "bucket_ok R par now k b \<Longrightarrow> limiter_of R (snd (par k)) (go_int (fst (par k))) (lk_limiter b)"
  by (auto simp: bucket_ok_def intro: limiter_of.used)

lemma local_allow_simulates:
  assumes sim: "same_limits R par s u" and law: "fills_up R (snd (par k)) (go_int (fst (par k)))"
    and s: "local_allow R (\<lambda>x. x) k (fst (par k)) (snd (par k)) s = (ok, s')"
    and u: "local_allow R (\<lambda>x. x) k (fst (par k)) (snd (par k)) u = (ok2, u')"
  shows "ok = ok2 \<and> same_limits R par s' u'"
proof -
  let ?new = "rl_new R (snd (par k)) (go_int (fst (par k)))"
  let ?lim = "\<lambda>x. case map_of (ls_items x) k of Some b \<Rightarrow> lk_limiter b | None \<Rightarrow> ?new"
  have now: "ls_now s = ls_now u" using sim by (simp add: same_limits_def)
  have same: "rl_allow R (ls_now u) (?lim s) = rl_allow R (ls_now u) (?lim u)"
  proof (cases "map_of (ls_items s) k = map_of (ls_items u) k")
    case False
    with sim obtain b where b: "map_of (ls_items s) k = None" "map_of (ls_items u) k = Some b"
      "max_idle < ls_now u - lk_last b" "bucket_ok R par (ls_now u) k b" unfolding same_limits_def by blast
    then show ?thesis using law by (fastforce simp: bucket_ok_def fills_up_def)
  qed simp
  have reach: "\<exists>b0. limiter_of R (snd (par k)) (go_int (fst (par k))) b0 \<and> ?lim u = b0"
    using sim bucket_ok_limiter [of R par "ls_now u" k] by (auto simp: same_limits_def split: option.split intro: limiter_of.new)
  obtain r l where a: "rl_allow R (ls_now u) (?lim u) = (r, l)" by (rule prod.exhaust)
  have s': "ok = r" "s' = s\<lparr>ls_items := AList.update k \<lparr>lk_limiter = l, lk_last = ls_now u\<rparr> (ls_items s)\<rparr>"
    using s same a now by (simp_all add: local_allow_def Let_def)
  have u': "ok2 = r" "u' = u\<lparr>ls_items := AList.update k \<lparr>lk_limiter = l, lk_last = ls_now u\<rparr> (ls_items u)\<rparr>"
    using u a by (simp_all add: local_allow_def Let_def)
  have "bucket_ok R par (ls_now u) k \<lparr>lk_limiter = l, lk_last = ls_now u\<rparr>"
    using reach a by (auto simp: bucket_ok_def intro!: exI [of _ "?lim u"])
  then have "same_limits R par s' u'"
    using sim unfolding s'(2) u'(2) same_limits_def
    by (auto simp: update_conv' distinct_update)
  then show ?thesis using s'(1) u'(1) by simp
qed

section \<open>Properties\<close>



text \<open>A token bucket as the limiter: one that was not used before is full.\<close>

type_synonym token_limiter = "rat \<times> int \<times> (rat \<times> int) option"

definition tokens_at :: "int \<Rightarrow> token_limiter \<Rightarrow> rat" where
  "tokens_at t b =
     (case b of (ps, burst, None) \<Rightarrow> rat_of_int burst
      | (ps, burst, Some (x, t0)) \<Rightarrow> min (rat_of_int burst) (x + rat_of_int (max 0 (t - t0)) * ps / 1000))"

definition demo_rate :: "token_limiter rate_lib" where
  "demo_rate = \<lparr>rl_new = (\<lambda>ps burst. (ps, burst, None)),
     rl_allow = (\<lambda>t b. let x = tokens_at t b in
       if 1 \<le> x then (True, (fst b, fst (snd b), Some (x - 1, t))) else (False, (fst b, fst (snd b), Some (x, t))))\<rparr>"

lemma demo_rate_fills_up: "fills_up demo_rate 10 20"
proof -
  have inv: "limiter_of demo_rate 10 20 b \<Longrightarrow> (\<exists>u. b = (10, 20, u) \<and> (\<forall>x t0. u = Some (x, t0) \<longrightarrow> 0 \<le> x)) \<and> 0 \<le> tokens_at t b" for b t
  proof (induction arbitrary: t rule: limiter_of.induct)
    case new
    show ?case by (simp add: demo_rate_def tokens_at_def)
  next
    case (used b t0)
    from used.IH [of t0] obtain u where "b = (10, 20, u)" "0 \<le> tokens_at t0 b" by blast
    then show ?case by (simp add: demo_rate_def Let_def tokens_at_def [of t "(10, 20, Some y)" for y])
  qed
  have "rl_allow demo_rate t' (snd (rl_allow demo_rate t b)) = rl_allow demo_rate t' (rl_new demo_rate 10 20)"
    if b: "limiter_of demo_rate 10 20 b" and t: "max_idle < t' - t" for b t t'
  proof -
    from inv [OF b, of t] obtain u where u: "b = (10, 20, u)" and x: "0 \<le> tokens_at t b" by blast
    have full: "tokens_at t' (10, 20, Some (y, t)) = 20" if "0 \<le> y" for y
    proof -
      have "20 \<le> rat_of_int (max 0 (t' - t)) * 10 / 1000" using t by (simp add: max_idle_def)
      with that have "20 \<le> y + rat_of_int (max 0 (t' - t)) * 10 / 1000" by linarith
      then show ?thesis by (simp add: tokens_at_def min_def)
    qed
    have "\<exists>y. snd (rl_allow demo_rate t b) = (10, 20, Some (y, t)) \<and> 0 \<le> y"
      using x by (simp add: demo_rate_def Let_def u)
    then obtain y where "snd (rl_allow demo_rate t b) = (10, 20, Some (y, t))" "0 \<le> y" by blast
    moreover have "rl_new demo_rate 10 20 = (10, 20, None)" "tokens_at t' (10, 20, None) = 20"
      by (simp_all add: demo_rate_def tokens_at_def)
    ultimately show ?thesis using full by (simp add: demo_rate_def Let_def)
  qed
  then show ?thesis by (simp add: fills_up_def)
qed



end
