(* ===== verification/Progress.thy ===== *)
theory Progress
  imports ChatLog OutboxPublisher "HOL-Library.Multiset"
begin

text \<open>
  What the outbox publisher achieves while MySQL, Redis and Kafka answer: each dispatch finishes the
  rows that it claims, so repeated dispatches bring every conversation of the shards to the end of
  its log.
\<close>

section \<open>Services that work\<close>

text \<open>
  No fault is to come and every circuit breaker is closed. Of gobreaker it is used that a closed
  breaker runs the call, and that a success leaves it closed.
\<close>

definition passes :: "('s, 'w) cb_execute \<Rightarrow> ('s \<Rightarrow> bool) \<Rightarrow> bool" where
  "passes cb calm \<longleftrightarrow>
     (\<forall>f s b b'. calm s \<and> f b = (None, b') \<longrightarrow> (\<exists>s'. calm s' \<and> cb f (s, b) = (None, (s', b'))))"

definition kafka_works :: "('s \<Rightarrow> bool) \<Rightarrow> 's kafka \<Rightarrow> bool" where
  "kafka_works calm k \<longleftrightarrow> bk_faults (snd k) = [] \<and> (\<forall>n s. fst k n = Some s \<longrightarrow> calm s)"

definition services_work :: "('s \<Rightarrow> bool) \<Rightarrow> 's outbox_world \<Rightarrow> bool" where
  "services_work calm w \<longleftrightarrow> snd (ow_db w) = [] \<and> rd_faults (ow_redis w) = [] \<and> kafka_works calm (ow_kafka w)"

lemma services_workD:
  assumes "services_work calm w"
  shows "ow_db w = (fst (ow_db w), [])" "rd_faults (ow_redis w) = []" "kafka_works calm (ow_kafka w)"
  using assms by (simp_all add: services_work_def prod_eq_iff)

lemma kafka_publish_works:
  assumes "passes cb calm" and "kafka_works calm k"
  shows "\<exists>k'. kafka_publish cb topic part env name k = (None, k') \<and> kafka_works calm k'"
proof -
  obtain m b where k: "k = (m, b)" by (cases k)
  define b' where "b' = b\<lparr>bk_log := bk_log b @ [record_of topic part env]\<rparr>"
  have f: "bk_faults b = []" using assms(2) by (simp add: kafka_works_def k)
  then have p: "produce (record_of topic part env) b = (None, b')"
    by (simp add: produce_def b'_def)
  have f': "bk_faults b' = []" using f by (simp add: b'_def)
  show ?thesis
  proof (cases "m name")
    case None
    then show ?thesis using assms(2) f' by (simp add: kafka_publish_def ExecuteByName_def k p kafka_works_def)
  next
    case (Some s)
    then have "calm s" using assms(2) by (simp add: kafka_works_def k)
    moreover have "breaker_closure (produce (record_of topic part env)) b = (None, b')" by (simp add: breaker_closure_def p)
    ultimately obtain s' where "calm s'" "cb (breaker_closure (produce (record_of topic part env))) (s, b) = (None, (s', b'))"
      using assms(1) unfolding passes_def by blast
    then show ?thesis
      using assms(2) f' Some by (simp add: kafka_publish_def ExecuteByName_def breaker_Execute_def k kafka_works_def)
  qed
qed

lemma publish_works:
  assumes "passes (od_cb D) calm" and "services_work calm w"
  shows "0 \<le> p \<Longrightarrow> \<exists>k'. ow_at_kafka (PublishPush (od_cb D) (od_prefix D) p env) w = (None, w\<lparr>ow_kafka := k'\<rparr>)
      \<and> services_work calm (w\<lparr>ow_kafka := k'\<rparr>)"
    and "\<exists>k'. ow_at_kafka (PublishDLQ (od_cb D) (od_prefix D) env) w = (None, w\<lparr>ow_kafka := k'\<rparr>)
      \<and> services_work calm (w\<lparr>ow_kafka := k'\<rparr>)"
proof -
  note k = kafka_publish_works [OF assms(1) services_workD(3) [OF assms(2)]]
  have at: "\<exists>k'. ow_at_kafka f w = (None, w\<lparr>ow_kafka := k'\<rparr>) \<and> services_work calm (w\<lparr>ow_kafka := k'\<rparr>)"
    if "\<exists>k'. f (ow_kafka w) = (None, k') \<and> kafka_works calm k'" for f
  proof -
    from that obtain k' where "f (ow_kafka w) = (None, k')" "kafka_works calm k'" by blast
    then show ?thesis using assms(2)
      by (intro exI [of _ k']) (simp add: ow_at_kafka_def zoomE_def services_work_def)
  qed
  show "0 \<le> p \<Longrightarrow> \<exists>k'. ow_at_kafka (PublishPush (od_cb D) (od_prefix D) p env) w = (None, w\<lparr>ow_kafka := k'\<rparr>)
      \<and> services_work calm (w\<lparr>ow_kafka := k'\<rparr>)"
    by (rule at) (use k in \<open>simp add: PublishPush_def\<close>)
  show "\<exists>k'. ow_at_kafka (PublishDLQ (od_cb D) (od_prefix D) env) w = (None, w\<lparr>ow_kafka := k'\<rparr>)
      \<and> services_work calm (w\<lparr>ow_kafka := k'\<rparr>)"
    by (rule at) (use k in \<open>simp add: PublishDLQ_def\<close>)
qed

lemma update_works:
  assumes "services_work calm w"
  shows "ow_at_db (update_outbox P f) w = (Inr (0 < affected P (d_outbox (fst (ow_db w)))), w\<lparr>ow_db := (set_outbox P f (fst (ow_db w)), [])\<rparr>)"
    and "services_work calm (w\<lparr>ow_db := (d, [])\<rparr>)"
proof -
  obtain d where d: "ow_db w = (d, [])" using services_workD(1) [OF assms] by blast
  show "ow_at_db (update_outbox P f) w = (Inr (0 < affected P (d_outbox (fst (ow_db w)))), w\<lparr>ow_db := (set_outbox P f (fst (ow_db w)), [])\<rparr>)"
    by (simp add: ow_at_db_def zoomE_def update_outbox_def d)
  show "services_work calm (w\<lparr>ow_db := (d', [])\<rparr>)" for d'
    using assms by (simp add: services_work_def)
qed

text \<open>Presence queries.\<close>

lemma prune_and_range_faults: "rd_faults (snd (prune_and_range now us r)) = rd_faults r"
  by (induction us arbitrary: r) (auto simp: Let_def split: prod.splits dest: arg_cong [of _ _ "\<lambda>p. rd_faults (snd p)"])

lemma OnlineConnectionsBatch_works:
  assumes "rd_faults r = []"
  shows "\<exists>f r'. OnlineConnectionsBatch now us r = (Inr f, r') \<and> rd_faults r' = []"
proof -
  have stale: "rd_faults (remove_stale xs y) = rd_faults y" for xs y
    unfolding remove_stale_def by (induction xs arbitrary: y) (auto split: prod.splits)
  obtain ids r1 where p: "prune_and_range now (unique_positive [] us) r = (ids, r1)" by fastforce
  have f1: "rd_faults r1 = []" using prune_and_range_faults [of now "unique_positive [] us" r] assms p by simp
  show ?thesis
    unfolding OnlineConnectionsBatch_def Let_def redis_call_ok [OF assms] p
    using assms f1 by (auto simp: redis_call_ok [OF f1] redis_call_ok stale split: prod.splits)
qed


section \<open>One publication\<close>

definition dead_row :: "outbox_row \<Rightarrow> outbox_row" where
  "dead_row r = r\<lparr>ob_status := OutboxDead, ob_locked_by := None, ob_locked_at := None\<rparr>"

text \<open>What a publication leaves in the tables: a dead letter for a row that waits for one, else a published row.\<close>

definition finish_row :: "publish_env \<Rightarrow> string \<Rightarrow> outbox_record \<Rightarrow> db \<Rightarrow> db" where
  "finish_row E owner rec =
     (if or_status rec = OutboxDLQPending then set_outbox (dlq_owned (or_mid rec) (or_event rec) owner) dead_row
      else set_outbox (owned_row (or_mid rec) (or_event rec) owner) (published_row (oe_now E)))"

lemma mark_eqs:
  "MarkPublished now mid ev owner = update_outbox (owned_row mid ev owner) (published_row now)"
  "MarkDead mid ev owner = update_outbox (dlq_owned mid ev owner) dead_row"
  by (simp_all add: fun_eq_iff MarkPublished_def MarkDead_def dead_row_def [abs_def])

definition permutes_targets :: "publish_env \<Rightarrow> bool" where
  "permutes_targets E \<longleftrightarrow> (\<forall>ts. mset (oe_order E ts) = mset ts)"

definition record_ok :: "'s outbox_deps \<Rightarrow> outbox_record \<Rightarrow> bool" where
  "record_ok D rec \<longleftrightarrow> raw_ok (pe_content (record_event D rec))"

lemma routeTargets_works:
  assumes "services_work calm w" and "od_presence D" and "od_conv_repo D"
  shows "\<exists>targets w1. routeTargets D now event w = (Inr targets, w1) \<and> services_work calm w1
    \<and> fst (ow_db w1) = fst (ow_db w) \<and> (\<forall>t \<in> set targets. 0 \<le> fst t)"
proof -
  obtain d where d: "ow_db w = (d, [])" using services_workD(1) [OF assms(1)] by blast
  have l: "ow_at_db (ListMemberIDs c) w = (Inr (map mb_user (filter (\<lambda>r. mb_conv r = c \<and> mb_status r = MemberStatusNormal) (d_members d))), w)" for c
    by (simp add: ow_at_db_def zoomE_def ListMemberIDs_def d)
  define members where "members = (if pe_members event = []
    then map mb_user (filter (\<lambda>r. mb_conv r = pe_conv event \<and> mb_status r = MemberStatusNormal) (d_members d)) else pe_members event)"
  obtain f r' where o: "OnlineConnectionsBatch now members (ow_redis w) = (Inr f, r')" "rd_faults r' = []"
    using OnlineConnectionsBatch_works [OF services_workD(2) [OF assms(1)]] by blast
  have "routeTargets D now event w
      = (Inr (group_routes (if od_push_partitions D \<le> 0 then 1 else od_push_partitions D) f (unique_positive [] members)), w\<lparr>ow_redis := r'\<rparr>)"
    using assms(2,3) o(1) by (simp add: routeTargets_def bindE_def l members_def ow_at_redis_def zoomE_def split: if_splits)
  then show ?thesis using o(2) assms(1) by (auto simp: services_work_def group_routes_def)
qed

lemma publish_targets_works:
  assumes "passes (od_cb D) calm" and "services_work calm w" and "record_ok D rec" and "\<forall>t \<in> set ts. 0 \<le> fst t"
    and "or_status rec \<noteq> OutboxDLQPending"
  shows "services_work calm (publish_targets D E owner rec orig ts w)
    \<and> fst (ow_db (publish_targets D E owner rec orig ts w)) = finish_row E owner rec (fst (ow_db w))"
  using assms(2,4)
proof (induction ts arbitrary: orig w)
  case Nil
  then show ?case
    using update_works [OF Nil(1)] assms(5) by (simp add: mark_eqs finish_row_def)
next
  case (Cons t ts)
  obtain env where env: "push_envelope E (record_event D rec) t = Inr env"
    using assms(3) by (simp add: push_envelope_def NewEnvelope_def toPushEvent_def record_ok_def)
  have "0 \<le> fst t" using Cons.prems(2) by simp
  from publish_works(1) [OF assms(1) Cons.prems(1) this, of env]
  obtain k' where k: "ow_at_kafka (PublishPush (od_cb D) (od_prefix D) (fst t) env) w = (None, w\<lparr>ow_kafka := k'\<rparr>)"
    "services_work calm (w\<lparr>ow_kafka := k'\<rparr>)" by blast
  from Cons.IH [OF k(2)] Cons.prems(2) show ?case by (simp add: env k(1))
qed

lemma publishOne_works:
  assumes "passes (od_cb D) calm" and "services_work calm w" and "record_ok D rec" and "permutes_targets E"
    and "od_presence D" and "od_conv_repo D"
  shows "services_work calm (publishOne D E owner rec w)
    \<and> fst (ow_db (publishOne D E owner rec w)) = finish_row E owner rec (fst (ow_db w))"
proof (cases "or_status rec = OutboxDLQPending")
  case True
  let ?c = "if or_conv rec = 0 then pe_conv (record_event D rec) else or_conv rec"
  obtain env where env: "NewEnvelope (oe_dlq_uuid E) (oe_now E) EventDLQ ''outbox-publisher'' ?c
      (DDlq (outbox_dlq D E rec KNone)) = Inr env" by (simp add: NewEnvelope_def)
  obtain k' where k: "ow_at_kafka (PublishDLQ (od_cb D) (od_prefix D) env) w = (None, w\<lparr>ow_kafka := k'\<rparr>)"
    "services_work calm (w\<lparr>ow_kafka := k'\<rparr>)" using publish_works(2) [OF assms(1,2)] by blast
  note u = update_works [OF k(2)]
  have "publishOne D E owner rec w = snd (ow_at_db (MarkDead (or_mid rec) (or_event rec) owner) (w\<lparr>ow_kafka := k'\<rparr>))"
    using True by (simp add: publishOne_def outbox_publishDLQ_def Let_def env k(1))
  with True u show ?thesis by (simp add: mark_eqs finish_row_def)
next
  case False
  obtain targets w1 where t: "routeTargets D (oe_now E) (record_event D rec) w = (Inr targets, w1)"
    "services_work calm w1" "fst (ow_db w1) = fst (ow_db w)" "\<forall>t \<in> set targets. 0 \<le> fst t"
    using routeTargets_works [OF assms(2,5,6)] by blast
  have "set (oe_order E targets) = set targets"
    using assms(4) unfolding permutes_targets_def by (metis mset_eq_setD)
  with t(4) have "\<forall>t \<in> set (oe_order E targets). 0 \<le> fst t" by simp
  from publish_targets_works [OF assms(1) t(2) assms(3) this False] False t(1,3) show ?thesis
    by (simp add: publishOne_def)
qed


section \<open>A batch\<close>

text \<open>The row of a record is in the tables, held by the publisher, in the state that the record says.\<close>

definition holds_row :: "string \<Rightarrow> outbox_record \<Rightarrow> db \<Rightarrow> bool" where
  "holds_row owner rec d \<longleftrightarrow> (\<exists>r \<in> set (d_outbox d). owned_row (or_mid rec) (or_event rec) owner r
     \<and> (or_status rec = OutboxDLQPending \<longrightarrow> ob_status r = OutboxDLQPending))"

lemma finish_row_cases:
  obtains P f where "finish_row E owner rec = set_outbox P f"
    "\<And>r. P r \<Longrightarrow> owned_row (or_mid rec) (or_event rec) owner r"
    "\<And>r. owned_row (or_mid rec) (or_event rec) owner r \<Longrightarrow> (or_status rec = OutboxDLQPending \<longrightarrow> ob_status r = OutboxDLQPending) \<Longrightarrow> P r"
    "\<And>r. \<not> unfinished (ob_status (f r)) \<and> row_key (f r) = row_key r \<and> ob_payload (f r) = ob_payload r \<and> ob_shard (f r) = ob_shard r"
proof (cases "or_status rec = OutboxDLQPending")
  case True
  show thesis
    by (rule that [of "dlq_owned (or_mid rec) (or_event rec) owner" dead_row])
      (use True in \<open>simp_all add: finish_row_def dlq_owned_def dead_row_def row_key_def\<close>)
next
  case False
  show thesis
    by (rule that [of "owned_row (or_mid rec) (or_event rec) owner" "published_row (oe_now E)"])
      (use False in \<open>simp_all add: finish_row_def published_row_def row_key_def\<close>)
qed

lemma same_row_key: "same_row mid ev r \<longleftrightarrow> row_key r = (mid, ev)"
  by (simp add: same_row_def row_key_def)

lemma finish_row_finishes:
  assumes "holds_row owner rec d"
  shows "finished (or_mid rec) (or_event rec) (finish_row E owner rec d)"
proof -
  obtain r where r: "r \<in> set (d_outbox d)" "owned_row (or_mid rec) (or_event rec) owner r"
    "or_status rec = OutboxDLQPending \<longrightarrow> ob_status r = OutboxDLQPending" using assms by (auto simp: holds_row_def)
  obtain P f where f: "finish_row E owner rec = set_outbox P f" "P r" "\<not> unfinished (ob_status (f r))" "row_key (f r) = row_key r"
    using r(2,3) by (rule_tac finish_row_cases [of E owner rec]) blast
  have "f r \<in> set (d_outbox (finish_row E owner rec d))"
    using r(1) f(1,2) by (auto simp: set_outbox_def update_where_def)
  moreover have "same_row (or_mid rec) (or_event rec) (f r)" using r(2) f(4) by (simp add: same_row_key owned_row_def)
  ultimately show ?thesis using f(3) unfolding finished_def by blast
qed

lemma finish_row_keeps:
  shows "finished mid ev d \<Longrightarrow> finished mid ev (finish_row E owner rec' d)"
    and "holds_row owner rec d \<Longrightarrow> holds_row owner rec (finish_row E owner rec' d) \<or> finished (or_mid rec) (or_event rec) (finish_row E owner rec' d)"
proof -
  obtain P f where f: "finish_row E owner rec' = set_outbox P f"
    "\<And>r. \<not> unfinished (ob_status (f r)) \<and> row_key (f r) = row_key r" by (rule finish_row_cases [of E owner rec']) blast
  have mem: "(if P r then f r else r) \<in> set (d_outbox (finish_row E owner rec' d))" if "r \<in> set (d_outbox d)" for r
    using that f(1) by (simp add: set_outbox_def update_where_def)
  show "finished mid ev d \<Longrightarrow> finished mid ev (finish_row E owner rec' d)"
    unfolding finished_def same_row_key using mem f(2) by (metis (full_types))
  assume "holds_row owner rec d"
  then obtain r where r: "r \<in> set (d_outbox d)" "owned_row (or_mid rec) (or_event rec) owner r"
    "or_status rec = OutboxDLQPending \<longrightarrow> ob_status r = OutboxDLQPending" by (auto simp: holds_row_def)
  show "holds_row owner rec (finish_row E owner rec' d) \<or> finished (or_mid rec) (or_event rec) (finish_row E owner rec' d)"
  proof (cases "P r")
    case True
    have "same_row (or_mid rec) (or_event rec) (f r)" using r(2) f(2) [of r] by (simp add: same_row_key owned_row_def)
    with True mem [OF r(1)] f(2) show ?thesis unfolding finished_def by auto
  next
    case False
    with mem [OF r(1)] r(2,3) show ?thesis unfolding holds_row_def by auto
  qed
qed

lemma publish_all_works:
  assumes "passes (od_cb D) calm" and "od_presence D" and "od_conv_repo D" and "\<forall>rec. permutes_targets (Es rec)"
    and "services_work calm w" and "\<forall>rec \<in> set recs. record_ok D rec"
    and "\<forall>rec \<in> set recs. holds_row owner rec (fst (ow_db w)) \<or> finished (or_mid rec) (or_event rec) (fst (ow_db w))"
  shows "services_work calm (publish_all D Es owner recs w)
    \<and> fst (ow_db (publish_all D Es owner recs w)) = fold (\<lambda>rec. finish_row (Es rec) owner rec) recs (fst (ow_db w))
    \<and> (\<forall>mid ev. finished mid ev (fst (ow_db w)) \<longrightarrow> finished mid ev (fst (ow_db (publish_all D Es owner recs w))))
    \<and> (\<forall>rec \<in> set recs. finished (or_mid rec) (or_event rec) (fst (ow_db (publish_all D Es owner recs w))))"
  using assms(5-7)
proof (induction recs arbitrary: w)
  case Nil
  then show ?case by simp
next
  case (Cons rec recs)
  let ?w1 = "publishOne D (Es rec) owner rec w"
  have one: "services_work calm ?w1" "fst (ow_db ?w1) = finish_row (Es rec) owner rec (fst (ow_db w))"
    using publishOne_works [OF assms(1) Cons.prems(1) _ _ assms(2,3), of rec "Es rec" owner] Cons.prems(2) assms(4) by auto
  have k: "\<forall>q \<in> set recs. holds_row owner q (fst (ow_db ?w1)) \<or> finished (or_mid q) (or_event q) (fst (ow_db ?w1))"
  proof
    fix q assume "q \<in> set recs"
    then have "holds_row owner q (fst (ow_db w)) \<or> finished (or_mid q) (or_event q) (fst (ow_db w))" using Cons.prems(3) by simp
    then show "holds_row owner q (fst (ow_db ?w1)) \<or> finished (or_mid q) (or_event q) (fst (ow_db ?w1))"
      unfolding one(2) by (blast intro: finish_row_keeps(1) dest: finish_row_keeps(2) [of owner q _ "Es rec" rec])
  qed
  have d: "finished (or_mid rec) (or_event rec) (fst (ow_db ?w1))"
    unfolding one(2) using Cons.prems(3) by (auto intro: finish_row_keeps(1) finish_row_finishes)
  have m: "finished mid ev (fst (ow_db ?w1))" if "finished mid ev (fst (ow_db w))" for mid ev
    unfolding one(2) by (rule finish_row_keeps(1) [OF that])
  from Cons.IH [OF one(1) _ k] Cons.prems(2) d m one(2) show ?case by auto
qed


section \<open>A claim\<close>

definition at_queue :: "nat \<times> int \<Rightarrow> outbox_row \<Rightarrow> bool" where
  "at_queue k r \<longleftrightarrow> ob_shard r = fst k \<and> row_conv r = Some (snd k)"

definition payloads_ok :: "db \<Rightarrow> bool" where
  "payloads_ok d \<longleftrightarrow> (\<forall>r \<in> set (d_outbox d). case ob_payload r of Event e \<Rightarrow> raw_ok (pe_content e) | Corrupt c s b \<Rightarrow> False)"

text \<open>One claim takes the head of its queue and touches no other queue.\<close>

lemma claim_one_row:
  assumes "queue_head (fst k) (snd k) d = Some row" and "ob_next_retry row \<le> now" and "\<exists>c \<in> set (d_convs d). cr_id c = snd k"
    and "claim_one now owner lease [] k d = (rec, d')" and "payloads_ok d"
  shows "\<exists>q r. rec = Some q \<and> or_mid q = ob_mid row \<and> or_event q = ob_event row \<and> record_ok D q
    \<and> r \<in> set (d_outbox d') \<and> at_queue k r \<and> owned_row (or_mid q) (or_event q) owner r
    \<and> (or_status q = OutboxDLQPending \<longrightarrow> ob_status r = OutboxDLQPending)"
proof -
  have row: "row \<in> set (d_outbox d)" by (rule queue_head_props(1) [OF assms(1)])
  define st where "st = (if payload_error row (snd k) \<noteq> None \<or> ob_status row = OutboxDLQPending then OutboxDLQPending else OutboxRetrying)"
  define err where "err = (case payload_error row (snd k) of
      Some e \<Rightarrow> truncateErr (''invalid outbox payload: '' @ e) | None \<Rightarrow> ob_last_error row)"
  define q where "q = \<lparr>or_mid = ob_mid row, or_event = ob_event row, or_status = st,
      or_retry_count = ob_retry_count row, or_last_error = err, or_shard = ob_shard row, or_conv = snd k, or_payload = ob_payload row\<rparr>"
  have c: "rec = Some q" "d' = set_outbox (same_row (ob_mid row) (ob_event row)) (claimed_row now owner lease st err) d"
    using assms(1-4) by (auto simp: claim_one_def Let_def q_def st_def err_def list_ex_iff List.member_iff split: if_splits)
  let ?r = "claimed_row now owner lease st err row"
  have "?r \<in> set (d_outbox d')"
    using row unfolding c(2) set_outbox_def update_where_def by (auto simp: same_row_def image_iff)
  moreover have "at_queue k ?r" using queue_head_props(2,3) [OF assms(1)] by (simp add: at_queue_def claimed_row_def row_conv_def)
  moreover have "owned_row (or_mid q) (or_event q) owner ?r" "ob_status ?r = or_status q"
    by (simp_all add: q_def owned_row_def same_row_def claimed_row_def)
  moreover have "record_ok D q"
    using assms(5) row by (auto simp: payloads_ok_def record_ok_def record_event_def q_def split: payload.splits)
  moreover have "or_mid q = ob_mid row" "or_event q = ob_event row" by (simp_all add: q_def)
  ultimately show ?thesis using c(1) by metis
qed

lemma claim_one_none:
  assumes "claim_one now owner lease skip k d = (Some q, d')"
  obtains row where "queue_head (fst k) (snd k) d = Some row" "ob_next_retry row \<le> now" "\<exists>c \<in> set (d_convs d). cr_id c = snd k"
  using assms by (auto simp: claim_one_def Let_def list_ex_iff split: if_splits option.splits)

lemma claim_one_others:
  assumes "claim_one now owner lease skip k d = (rec, d')" and "store_inv d"
  shows "d_convs d' = d_convs d"
    and "r \<in> set (d_outbox d) \<Longrightarrow> \<not> at_queue k r \<Longrightarrow> r \<in> set (d_outbox d')"
    and "payloads_ok d \<Longrightarrow> payloads_ok d'"
    and "k2 \<noteq> k \<Longrightarrow> queue_head (fst k2) (snd k2) d' = queue_head (fst k2) (snd k2) d"
proof -
  consider "d' = d" | row st err where "queue_head (fst k) (snd k) d = Some row" "unfinished st"
      "d' = set_outbox (same_row (ob_mid row) (ob_event row)) (claimed_row now owner lease st err) d"
    using claim_one_writes [OF assms(1)] by blast
  then have "d_convs d' = d_convs d \<and> (r \<in> set (d_outbox d) \<longrightarrow> \<not> at_queue k r \<longrightarrow> r \<in> set (d_outbox d'))
      \<and> (payloads_ok d \<longrightarrow> payloads_ok d') \<and> (k2 \<noteq> k \<longrightarrow> queue_head (fst k2) (snd k2) d' = queue_head (fst k2) (snd k2) d)"
  proof cases
    case 2
    note hp = queue_head_props [OF 2(1)]
    have q: "queue_inv (d_outbox d)" using assms(2) by (simp add: store_inv_def)
    have one: "x = row" if "x \<in> set (d_outbox d)" "same_row (ob_mid row) (ob_event row) x" for x
      using queue_invD(4) [OF q that(1) hp(1)] that(2) by (simp add: same_row_def row_key_def)
    have kr: "at_queue k row" using hp(2,3) by (simp add: at_queue_def)
    have out: "d_outbox d' = map (\<lambda>x. if x = row then claimed_row now owner lease st err row else x) (d_outbox d)"
      unfolding 2(3) set_outbox_def update_where_def using one by (auto simp: same_row_def)
    have "queue_head (fst k2) (snd k2) d' = queue_head (fst k2) (snd k2) d" if "k2 \<noteq> k"
    proof -
      have "filter (\<lambda>r. at_queue k2 r \<and> unfinished (ob_status r)) (d_outbox d')
          = filter (\<lambda>r. at_queue k2 r \<and> unfinished (ob_status r)) (d_outbox d)"
      proof -
        have nk: "\<not> at_queue k2 row" using kr that by (auto simp: at_queue_def prod_eq_iff)
        then have nc: "\<not> at_queue k2 (claimed_row now owner lease st err row)"
          by (simp add: at_queue_def claimed_row_def row_conv_def)
        have "filter (\<lambda>r. at_queue k2 r \<and> unfinished (ob_status r))
              (map (\<lambda>x. if x = row then claimed_row now owner lease st err row else x) xs)
            = filter (\<lambda>r. at_queue k2 r \<and> unfinished (ob_status r)) xs" for xs
          using nk nc by (induction xs) auto
        then show ?thesis unfolding out .
      qed
      then show ?thesis by (simp add: queue_head_def at_queue_def)
    qed
    moreover have "d_convs d' = d_convs d" by (simp add: 2(3) set_outbox_def)
    moreover have "payloads_ok d'" if "payloads_ok d"
      using that hp(1) unfolding payloads_ok_def out by (auto simp: claimed_row_def)
    ultimately show ?thesis using kr out by auto
  qed simp
  then show "d_convs d' = d_convs d"
    and "r \<in> set (d_outbox d) \<Longrightarrow> \<not> at_queue k r \<Longrightarrow> r \<in> set (d_outbox d')"
    and "payloads_ok d \<Longrightarrow> payloads_ok d'"
    and "k2 \<noteq> k \<Longrightarrow> queue_head (fst k2) (snd k2) d' = queue_head (fst k2) (snd k2) d" by blast+
qed


lemma claim_all_works:
  assumes "claim_all now owner lease [] ks d = (recs, d')" and "store_inv d" and "payloads_ok d" and "distinct ks"
  shows "(\<forall>q \<in> set recs. holds_row owner q d' \<and> record_ok D q)
    \<and> (\<forall>k \<in> set ks. \<forall>row. queue_head (fst k) (snd k) d = Some row \<and> ob_next_retry row \<le> now \<and> (\<exists>c \<in> set (d_convs d). cr_id c = snd k)
         \<longrightarrow> (\<exists>q \<in> set recs. or_mid q = ob_mid row \<and> or_event q = ob_event row))
    \<and> (\<forall>r \<in> set (d_outbox d). (\<forall>k \<in> set ks. \<not> at_queue k r) \<longrightarrow> r \<in> set (d_outbox d'))"
  using assms
proof (induction ks arbitrary: d recs)
  case Nil
  then show ?case by simp
next
  case (Cons k ks)
  obtain rec d1 where o: "claim_one now owner lease [] k d = (rec, d1)" by fastforce
  obtain rs d2 where a: "claim_all now owner lease [] ks d1 = (rs, d2)" by fastforce
  have r: "recs = (case rec of None \<Rightarrow> rs | Some q \<Rightarrow> q # rs)" and d': "d' = d2" using Cons.prems(1) o a by simp_all
  note other = claim_one_others [OF o Cons.prems(2)]
  have dist: "k \<notin> set ks" "distinct ks" using Cons.prems(4) by simp_all
  from Cons.IH [OF a [folded d'] claim_one_change [OF o Cons.prems(2)] other(3) [OF Cons.prems(3)] dist(2)]
  have ih: "\<forall>q \<in> set rs. holds_row owner q d' \<and> record_ok D q"
    "\<And>k row. k \<in> set ks \<Longrightarrow> queue_head (fst k) (snd k) d1 = Some row \<Longrightarrow> ob_next_retry row \<le> now \<Longrightarrow>
       \<exists>c \<in> set (d_convs d1). cr_id c = snd k \<Longrightarrow> \<exists>q \<in> set rs. or_mid q = ob_mid row \<and> or_event q = ob_event row"
    "\<And>r. r \<in> set (d_outbox d1) \<Longrightarrow> \<forall>k \<in> set ks. \<not> at_queue k r \<Longrightarrow> r \<in> set (d_outbox d')" by blast+
  have head: "\<exists>q. rec = Some q \<and> or_mid q = ob_mid row \<and> or_event q = ob_event row \<and> holds_row owner q d' \<and> record_ok D q"
    if h: "queue_head (fst k) (snd k) d = Some row" "ob_next_retry row \<le> now" "\<exists>c \<in> set (d_convs d). cr_id c = snd k" for row
  proof -
    obtain q r where q: "rec = Some q" "or_mid q = ob_mid row" "or_event q = ob_event row" "record_ok D q"
      and r: "r \<in> set (d_outbox d1)" "at_queue k r" "owned_row (or_mid q) (or_event q) owner r"
        "or_status q = OutboxDLQPending \<longrightarrow> ob_status r = OutboxDLQPending"
      using claim_one_row [OF h o Cons.prems(3), of D] by blast
    have "\<forall>k' \<in> set ks. \<not> at_queue k' r" using dist(1) r(2) by (cases k) (auto simp: at_queue_def)
    from ih(3) [OF r(1) this] r(3,4) have "holds_row owner q d'" by (auto simp: holds_row_def)
    with q show ?thesis by blast
  qed
  show ?case
  proof (intro conjI ballI allI impI)
    fix q assume "q \<in> set recs"
    then have "q \<in> set rs \<or> rec = Some q" using r by (auto split: option.splits)
    moreover have "holds_row owner q d' \<and> record_ok D q" if q: "rec = Some q"
    proof -
      obtain row where "queue_head (fst k) (snd k) d = Some row" "ob_next_retry row \<le> now" "\<exists>c \<in> set (d_convs d). cr_id c = snd k"
        using claim_one_none o q by metis
      from head [OF this] q show ?thesis by simp
    qed
    ultimately show "holds_row owner q d'" "record_ok D q" using ih(1) by blast+
  next
    fix k' row assume "k' \<in> set (k # ks)" "queue_head (fst k') (snd k') d = Some row \<and> ob_next_retry row \<le> now \<and> (\<exists>c \<in> set (d_convs d). cr_id c = snd k')"
    then show "\<exists>q \<in> set recs. or_mid q = ob_mid row \<and> or_event q = ob_event row"
      using head ih(2) [of k' row] other(1,4) r by (cases "k' = k") (auto split: option.splits)
  next
    fix x assume "x \<in> set (d_outbox d)" "\<forall>k' \<in> set (k # ks). \<not> at_queue k' x"
    then show "x \<in> set (d_outbox d')" using other(2) ih(3) by simp
  qed
qed


text \<open>Rows that a claim changes are those of its records.\<close>

lemma claim_one_changed:
  assumes "claim_one now owner lease skip k d = (rec, d')" and "r \<in> set (d_outbox d')"
  shows "r \<in> set (d_outbox d) \<or> (\<exists>q. rec = Some q \<and> row_key r = (or_mid q, or_event q))"
proof (cases "d' = d")
  case False
  then obtain row st err where h: "queue_head (fst k) (snd k) d = Some row"
      "d' = set_outbox (same_row (ob_mid row) (ob_event row)) (claimed_row now owner lease st err) d"
    using claim_one_writes [OF assms(1)] by blast
  obtain q where "rec = Some q" "or_mid q = ob_mid row" "or_event q = ob_event row"
    using assms(1) False h(1) by (auto simp: claim_one_def Let_def split: if_splits)
  with assms(2) show ?thesis
    unfolding h(2) by (auto simp: set_outbox_def update_where_def same_row_def row_key_def claimed_row_def split: if_splits)
qed (use assms(2) in simp)

lemma claim_all_changed:
  "claim_all now owner lease skip ks d = (recs, d') \<Longrightarrow> r \<in> set (d_outbox d') \<Longrightarrow>
     r \<in> set (d_outbox d) \<or> (\<exists>q \<in> set recs. row_key r = (or_mid q, or_event q))"
proof (induction ks arbitrary: d recs)
  case (Cons k ks)
  obtain rec d1 where o: "claim_one now owner lease skip k d = (rec, d1)" by fastforce
  obtain rs d2 where a: "claim_all now owner lease skip ks d1 = (rs, d2)" by fastforce
  have e: "d' = d2" "recs = (case rec of None \<Rightarrow> rs | Some q \<Rightarrow> q # rs)" using Cons.prems(1) o a by simp_all
  from Cons.IH [OF a [folded e(1)] Cons.prems(2)] claim_one_changed [OF o, of r] show ?case
    unfolding e(2) by (auto split: option.splits)
qed simp

text \<open>Position by position the outbox keeps its rows and finished rows stay finished.\<close>

definition advances :: "db \<Rightarrow> db \<Rightarrow> bool" where
  "advances d d' \<longleftrightarrow> d_msgs d' = d_msgs d \<and> d_convs d' = d_convs d
     \<and> list_all2 (\<lambda>r r'. row_key r' = row_key r \<and> ob_payload r' = ob_payload r \<and> ob_shard r' = ob_shard r
          \<and> (finished_row r \<longrightarrow> finished_row r')) (d_outbox d) (d_outbox d')"

lemma advances_refl: "advances d d"
  by (simp add: advances_def list.rel_refl_strong)

lemma advances_trans: "advances d d1 \<Longrightarrow> advances d1 d2 \<Longrightarrow> advances d d2"
  unfolding advances_def by (auto elim: list_all2_trans [rotated])

lemma advances_set_outbox:
  "(\<And>r. r \<in> set (d_outbox d) \<Longrightarrow> P r \<Longrightarrow> row_key (f r) = row_key r \<and> ob_payload (f r) = ob_payload r \<and> ob_shard (f r) = ob_shard r
      \<and> (finished_row r \<longrightarrow> finished_row (f r))) \<Longrightarrow> advances d (set_outbox P f d)"
  by (auto simp: advances_def set_outbox_def update_where_def list.rel_map intro!: list.rel_refl_strong)

lemma claim_all_advances:
  "claim_all now owner lease skip ks d = (recs, d') \<Longrightarrow> store_inv d \<Longrightarrow> advances d d'"
proof (induction ks arbitrary: d recs)
  case (Cons k ks)
  obtain rec d1 where o: "claim_one now owner lease skip k d = (rec, d1)" by fastforce
  obtain rs d2 where a: "claim_all now owner lease skip ks d1 = (rs, d2)" by fastforce
  have "advances d d1"
  proof (cases "d1 = d")
    case False
    then obtain row st err where h: "queue_head (fst k) (snd k) d = Some row"
        "d1 = set_outbox (same_row (ob_mid row) (ob_event row)) (claimed_row now owner lease st err) d"
      using claim_one_writes [OF o] by blast
    note hp = queue_head_props [OF h(1)]
    have "r = row" if "r \<in> set (d_outbox d)" "same_row (ob_mid row) (ob_event row) r" for r
      using queue_invD(4) [of "d_outbox d" r row] Cons.prems(2) that hp(1) by (simp add: store_inv_def same_row_def row_key_def)
    then show ?thesis unfolding h(2)
      by (intro advances_set_outbox) (use hp(4) in \<open>auto simp: claimed_row_def row_key_def finished_row_def\<close>)
  qed (simp add: advances_refl)
  moreover have "d' = d2" using Cons.prems(1) o a by simp
  then have "advances d1 d'" using Cons.IH [OF _ claim_one_change [OF o Cons.prems(2)]] a by simp
  ultimately show ?case by (rule advances_trans)
qed (simp add: advances_refl)

lemma finish_row_advances:
  assumes "store_inv d"
  shows "store_inv (finish_row E owner rec d)" and "advances d (finish_row E owner rec d)"
    and "r \<in> set (d_outbox (finish_row E owner rec d)) \<Longrightarrow> unfinished (ob_status r) \<Longrightarrow> r \<in> set (d_outbox d)"
proof -
  show "store_inv (finish_row E owner rec d)"
    using transition_inv [OF assms] by (simp add: finish_row_def dead_row_def [abs_def])
  obtain P f where f: "finish_row E owner rec = set_outbox P f"
    "\<And>r. \<not> unfinished (ob_status (f r)) \<and> row_key (f r) = row_key r \<and> ob_payload (f r) = ob_payload r \<and> ob_shard (f r) = ob_shard r"
    by (rule finish_row_cases [of E owner rec]) blast
  show "advances d (finish_row E owner rec d)"
    unfolding f(1) by (rule advances_set_outbox) (use f(2) in \<open>simp add: finished_row_def\<close>)
  show "r \<in> set (d_outbox (finish_row E owner rec d)) \<Longrightarrow> unfinished (ob_status r) \<Longrightarrow> r \<in> set (d_outbox d)"
    unfolding f(1) using f(2) by (auto simp: set_outbox_def update_where_def split: if_splits)
qed

lemma finish_rows_advance:
  "store_inv d \<Longrightarrow> d' = fold (\<lambda>rec. finish_row (Es rec) owner rec) recs d \<Longrightarrow>
     store_inv d' \<and> advances d d' \<and> (\<forall>r \<in> set (d_outbox d'). unfinished (ob_status r) \<longrightarrow> r \<in> set (d_outbox d))"
proof (induction recs arbitrary: d)
  case (Cons rec recs)
  note f = finish_row_advances(1,2) [OF Cons.prems(1), of "Es rec" owner rec]
    and keep = finish_row_advances(3) [OF Cons.prems(1), of _ "Es rec" owner rec]
  have "d' = fold (\<lambda>rec. finish_row (Es rec) owner rec) recs (finish_row (Es rec) owner rec d)" using Cons.prems(2) by simp
  from Cons.IH [OF f(1) this] keep advances_trans [OF f(2)] show ?case by blast
qed (simp add: advances_refl)


section \<open>A dispatch\<close>

definition waiting :: "nat list \<Rightarrow> outbox_row \<Rightarrow> bool" where
  "waiting shards r \<longleftrightarrow> List.member shards (ob_shard r) \<and> unfinished (ob_status r)"

definition backlog :: "nat list \<Rightarrow> db \<Rightarrow> nat" where
  "backlog shards d = length (filter (waiting shards) (d_outbox d))"

lemma row_queue:
  assumes "store_inv d" and "r \<in> set (d_outbox d)"
  obtains c where "row_conv r = Some c" "\<exists>cv \<in> set (d_convs d). cr_id cv = c"
proof -
  obtain m where m: "m \<in> set (d_msgs d)" "outbox_matches m r"
    using list_all2_right [OF _ assms(2)] assms(1) unfolding store_inv_def msgs_inv_def by blast
  have "mr_conv m \<in> cr_id ` set (d_convs d)" using assms(1) m(1) by (simp add: store_inv_def convs_inv_def)
  then have "\<exists>cv \<in> set (d_convs d). cr_id cv = mr_conv m" by auto
  with outbox_matches_row [OF m(2)] that show thesis by blast
qed

lemma queue_head_exists:
  assumes "r \<in> set (d_outbox d)" and "row_conv r = Some c" and "unfinished (ob_status r)"
  obtains row where "queue_head (ob_shard r) c d = Some row"
proof -
  let ?f = "filter (\<lambda>x. ob_shard x = ob_shard r \<and> row_conv x = Some c \<and> unfinished (ob_status x)) (d_outbox d)"
  have "r \<in> set (sort_key row_seq ?f)" using assms by simp
  then obtain x xs where "sort_key row_seq ?f = x # xs" by (cases "sort_key row_seq ?f") auto
  with that show thesis by (simp add: queue_head_def)
qed

text \<open>When every waiting row has reached its time, the head of each queue is due.\<close>

lemma candidate_exists:
  assumes "store_inv d" and "\<exists>r \<in> set (d_outbox d). waiting shards r" and "\<forall>r \<in> set (d_outbox d). waiting shards r \<longrightarrow> ob_next_retry r \<le> now"
    and "0 < n"
  shows "\<exists>k row. k \<in> set (dueOutboxCandidates shards n now d) \<and> queue_head (fst k) (snd k) d = Some row \<and> waiting shards row
    \<and> (\<exists>cv \<in> set (d_convs d). cr_id cv = snd k)"
proof -
  obtain r c row where r: "r \<in> set (d_outbox d)" "waiting shards r" "row_conv r = Some c" "queue_head (ob_shard r) c d = Some row"
    using assms(2) row_queue [OF assms(1)] queue_head_exists unfolding waiting_def by metis
  note hp = queue_head_props [OF r(4)]
  have w: "waiting shards row" using r(2) hp(2,4) by (simp add: waiting_def)
  have "\<not> (ob_shard p = ob_shard row \<and> sql_eq (row_conv p) (row_conv row) \<and> sql_less (row_seq p) (row_seq row) \<and> unfinished (ob_status p))"
    if "p \<in> set (d_outbox d)" for p
    using hp(5) [OF that] by (cases "row_conv p"; cases "row_conv row"; cases "row_seq p"; cases "row_seq row") (auto simp: before_def)
  with w assms(3) hp(1) have "due_row shards now d row" by (auto simp: due_row_def waiting_def list_ex_iff)
  then have "set (map candidate_key (filter (due_row shards now d) (d_outbox d))) \<noteq> {}" using hp(1) by auto
  then obtain k ks where k: "dueOutboxCandidates shards n now d = k # ks"
    using assms(4) unfolding dueOutboxCandidates_def Let_def sql_limit_def
    by (cases "sort_key (oldest (filter (due_row shards now d) (d_outbox d)))
          (sort_key snd (remdups (map candidate_key (filter (due_row shards now d) (d_outbox d)))))")
      (auto dest: arg_cong [of _ _ set] simp: take_Cons')
  have "k \<in> candidate_key ` {x \<in> set (d_outbox d). due_row shards now d x}"
    using arg_cong [OF k, of set] unfolding dueOutboxCandidates_def Let_def sql_limit_def
    by (auto dest!: in_set_takeD equalityD2 split: if_splits)
  then obtain x where x: "x \<in> set (d_outbox d)" "due_row shards now d x" "k = candidate_key x" by auto
  obtain cx where cx: "row_conv x = Some cx" "\<exists>cv \<in> set (d_convs d). cr_id cv = cx" by (rule row_queue [OF assms(1) x(1)])
  have ux: "unfinished (ob_status x)" using x(2) by (simp add: due_row_def)
  obtain y where y: "queue_head (ob_shard x) cx d = Some y" by (rule queue_head_exists [OF x(1) cx(1) ux])
  have "k = (ob_shard x, cx)" using x(3) cx(1) by (simp add: candidate_key_def)
  moreover have "waiting shards y" using queue_head_props(2,4) [OF y] x(2) by (simp add: waiting_def due_row_def)
  ultimately show ?thesis using y cx(2) k by auto
qed

lemma distinct_candidates: "distinct (dueOutboxCandidates shards n now d)"
  by (simp add: dueOutboxCandidates_def Let_def sql_limit_def)


lemma filter_shrinks:
  assumes "list_all2 (\<lambda>x y. Q y \<longrightarrow> Q x) xs ys"
  shows "length (filter Q ys) \<le> length (filter Q xs)"
    and "x \<in> set xs \<Longrightarrow> Q x \<Longrightarrow> list_all2 (\<lambda>x y. k y = k x) xs ys \<Longrightarrow> \<forall>y \<in> set ys. k y = k x \<longrightarrow> \<not> Q y \<Longrightarrow>
      length (filter Q ys) < length (filter Q xs)"
  using assms
proof (induction rule: list_all2_induct)
  case (Cons a xs b ys)
  case 1 show ?case using Cons by auto
  case 2 then show ?case using Cons by (auto simp: less_Suc_eq_le)
qed simp_all

text \<open>What the claim of a dispatch does when MySQL answers.\<close>

lemma Claim_works:
  assumes "services_work calm w" and "0 < n"
  obtains lease' recs d1 where
    "ow_at_db (Claim now n shards owner lease) w = (Inr recs, w\<lparr>ow_db := (d1, [])\<rparr>)"
    "claim_all now owner lease' [] (if shards = [] then [] else dueOutboxCandidates shards n now (fst (ow_db w))) (fst (ow_db w)) = (recs, d1)"
proof -
  obtain d where d: "ow_db w = (d, [])" using services_workD(1) [OF assms(1)] by blast
  show thesis
  proof (cases "shards = []")
    case True
    have "w\<lparr>ow_db := (d, [])\<rparr> = w" using d by simp
    with True show thesis by (intro that [of "[]" d 0]) (simp_all add: ow_at_db_def zoomE_def Claim_def Claim_at_def d)
  next
    case False
    obtain recs d1 where "claim_all now owner (if lease \<le> 0 then 5000 else lease) [] (dueOutboxCandidates shards n now d) d = (recs, d1)"
      by fastforce
    with False assms(2) show thesis
      by (intro that) (simp_all add: ow_at_db_def zoomE_def Claim_def Claim_at_def Let_def d db_tx_ok)
  qed
qed

lemma payloads_ok_advances:
  assumes "advances d d'" and "payloads_ok d"
  shows "payloads_ok d'"
  unfolding payloads_ok_def
proof
  fix r assume r: "r \<in> set (d_outbox d')"
  have "list_all2 (\<lambda>r r'. ob_payload r' = ob_payload r) (d_outbox d) (d_outbox d')"
    using assms(1) unfolding advances_def by (auto elim!: list_all2_mono)
  from list_all2_right [OF this r] obtain r0 where "r0 \<in> set (d_outbox d)" "ob_payload r = ob_payload r0" by blast
  with assms(2) show "case ob_payload r of Event e \<Rightarrow> raw_ok (pe_content e) | Corrupt c s b \<Rightarrow> False"
    by (simp add: payloads_ok_def)
qed

lemma dispatch_works:
  fixes D :: "'s outbox_deps" and now :: int and owner :: string and shards :: "nat list"
  assumes "passes (od_cb D) calm" and "od_presence D" and "od_conv_repo D" and "\<forall>rec. permutes_targets (Es rec)"
    and "0 < pc_batch (od_config D)" and "0 < pc_concurrency (od_config D)"
    and "services_work calm w" and "store_inv (fst (ow_db w))" and "payloads_ok (fst (ow_db w))"
  defines "w' \<equiv> dispatch D Es now owner shards w"
  shows "services_work calm w' \<and> store_inv (fst (ow_db w')) \<and> advances (fst (ow_db w)) (fst (ow_db w'))
    \<and> (\<forall>r \<in> set (d_outbox (fst (ow_db w'))). unfinished (ob_status r) \<longrightarrow> r \<in> set (d_outbox (fst (ow_db w))))
    \<and> ((\<forall>r \<in> set (d_outbox (fst (ow_db w))). waiting shards r \<longrightarrow> ob_next_retry r \<le> now) \<longrightarrow>
         backlog shards (fst (ow_db w')) \<le> backlog shards (fst (ow_db w)) - 1)"
proof -
  define n where "n = (if pc_concurrency (od_config D) < pc_batch (od_config D) then pc_concurrency (od_config D) else pc_batch (od_config D))"
  have n: "0 < n" using assms(5,6) by (simp add: n_def)
  define d where "d = fst (ow_db w)"
  define ks where "ks = (if shards = [] then [] else dueOutboxCandidates shards n now d)"
  obtain lease' recs d1 where c: "ow_at_db (Claim now n shards owner (pc_lease (od_config D))) w = (Inr recs, w\<lparr>ow_db := (d1, [])\<rparr>)"
    "claim_all now owner lease' [] ks d = (recs, d1)"
    unfolding ks_def d_def by (rule Claim_works [OF assms(7) n])
  note inv = assms(8,9) [folded d_def]
  have dk: "distinct ks" by (simp add: ks_def distinct_candidates)
  have cl: "\<forall>q \<in> set recs. holds_row owner q d1 \<and> record_ok D q"
    "\<And>k row. k \<in> set ks \<Longrightarrow> queue_head (fst k) (snd k) d = Some row \<Longrightarrow> ob_next_retry row \<le> now \<Longrightarrow>
       \<exists>c \<in> set (d_convs d). cr_id c = snd k \<Longrightarrow> \<exists>q \<in> set recs. or_mid q = ob_mid row \<and> or_event q = ob_event row"
    using claim_all_works [OF c(2) inv dk, of D] by blast+
  let ?w1 = "w\<lparr>ow_db := (d1, [])\<rparr>"
  have s1: "services_work calm ?w1" using assms(7) by (rule update_works(2))
  define w2 where "w2 = publish_all D Es owner recs ?w1"
  have p: "services_work calm w2" "fst (ow_db w2) = fold (\<lambda>rec. finish_row (Es rec) owner rec) recs d1"
    "\<forall>q \<in> set recs. finished (or_mid q) (or_event q) (fst (ow_db w2))"
    using publish_all_works [OF assms(1-4) s1, of recs owner] cl(1) unfolding w2_def by auto
  have i1: "store_inv d1" by (rule claim_all_change [OF c(2) inv(1)])
  note f = finish_rows_advance [OF i1 p(2)]
  have adv: "advances d (fst (ow_db w2))" using claim_all_advances [OF c(2) inv(1)] f advances_trans by blast
  have q: "ow_at_db (PendingCount) v = (fst (ow_at_db (PendingCount) v), v) \<and> ow_at_db (OldestPendingAge now) v = (fst (ow_at_db (OldestPendingAge now) v), v)"
    if v: "services_work calm v" for v
  proof -
    obtain dv where dv: "ow_db v = (dv, [])" using services_workD(1) [OF v] by blast
    then have "v\<lparr>ow_db := (dv, [])\<rparr> = v" by (cases v) simp
    then show ?thesis by (simp add: ow_at_db_def zoomE_def PendingCount_def OldestPendingAge_def dv split: list.split)
  qed
  have w': "w' = w2"
    unfolding w'_def dispatch_def Let_def n_def [symmetric] c(1) by (simp add: w2_def [symmetric]) (metis q p(1) snd_conv)
  have same: "\<not> unfinished (ob_status r)" if "finished mid ev (fst (ow_db w2))" "r \<in> set (d_outbox (fst (ow_db w2)))" "row_key r = (mid, ev)" for mid ev r
    using that queue_invD(4) [of "d_outbox (fst (ow_db w2))"] f unfolding finished_def same_row_key store_inv_def by metis
  have left: "\<forall>r \<in> set (d_outbox (fst (ow_db w2))). unfinished (ob_status r) \<longrightarrow> r \<in> set (d_outbox d)"
    using f claim_all_changed [OF c(2)] same p(3) by blast
  have "backlog shards (fst (ow_db w2)) \<le> backlog shards d - 1"
    if ready: "\<forall>r \<in> set (d_outbox d). waiting shards r \<longrightarrow> ob_next_retry r \<le> now"
  proof -
    have l2: "list_all2 (\<lambda>x y. waiting shards y \<longrightarrow> waiting shards x) (d_outbox d) (d_outbox (fst (ow_db w2)))"
      "list_all2 (\<lambda>x y. row_key y = row_key x) (d_outbox d) (d_outbox (fst (ow_db w2)))"
      using adv unfolding advances_def by (auto elim!: list_all2_mono simp: waiting_def finished_row_def)
    show ?thesis
    proof (cases "\<exists>r \<in> set (d_outbox d). waiting shards r")
      case True
      then obtain k row where k: "k \<in> set (dueOutboxCandidates shards n now d)" "queue_head (fst k) (snd k) d = Some row"
        "waiting shards row" "\<exists>cv \<in> set (d_convs d). cr_id cv = snd k"
        using candidate_exists [OF inv(1) _ ready n] by blast
      have row: "row \<in> set (d_outbox d)" by (rule queue_head_props(1) [OF k(2)])
      have "k \<in> set ks" using k(1,3) by (auto simp: ks_def waiting_def)
      then obtain q where q: "q \<in> set recs" "or_mid q = ob_mid row" "or_event q = ob_event row"
        using cl(2) [OF _ k(2) _ k(4)] ready row k(3) by blast
      have "\<forall>y \<in> set (d_outbox (fst (ow_db w2))). row_key y = row_key row \<longrightarrow> \<not> waiting shards y"
        using same [of "ob_mid row" "ob_event row"] p(3) q by (auto simp: waiting_def row_key_def)
      from filter_shrinks(2) [OF l2(1) row k(3) l2(2) this] show ?thesis by (simp add: backlog_def)
    next
      case False
      then have "backlog shards d = 0" by (simp add: backlog_def filter_empty_conv)
      with filter_shrinks(1) [OF l2(1)] show ?thesis by (simp add: backlog_def)
    qed
  qed
  with p(1) f adv left show ?thesis unfolding w' d_def by blast
qed


section \<open>Stored content\<close>

text \<open>MySQL stores only messages whose content is JSON, so every event of the outbox can be marshalled.\<close>

definition contents_ok :: "db \<Rightarrow> bool" where
  "contents_ok d \<longleftrightarrow> (\<forall>r \<in> set (d_msgs d). raw_ok (mr_content r))"

lemma persist_tx_contents:
  assumes "persist_tx U now snap raw m members d = (Inr res, d')" and "contents_ok d"
  shows "contents_ok d'"
  using assms by (auto simp: persist_tx_def insert_message_def insert_outbox_def bump_conversation_def contents_ok_def
      message_row_def Let_def split: option.splits sum.splits if_splits raw.splits)

lemma store_step_contents:
  "store_step U d d' \<Longrightarrow> store_inv d \<Longrightarrow> contents_ok d \<Longrightarrow> contents_ok d'"
proof (induction rule: store_step.induct)
  case (persist now snap m members d fs r1 d' fs')
  then show ?case using Persist_at_state [OF persist(1)] persist_tx_contents by blast
next
  case (received c u seq d fs r2 d' fs')
  then show ?case
    by (auto simp: contents_ok_def AdvanceReceivedCursor_def split: sum.splits prod.splits dest!: db_exec_cases)
next
  case (read c u seq d fs r2 d' fs')
  then show ?case
    by (auto simp: contents_ok_def AdvanceReadCursor_def split: sum.splits prod.splits dest!: db_exec_cases)
next
  case (create now conv ids d fs r3 d' fs')
  then show ?case using CreateWithMembers_state [OF create(1)] by (auto simp: contents_ok_def elim: create_tx_cases)
next
  case (claim dbnow now snap skip batch shards owner lease d fs r4 d' fs')
  then show ?case using Claim_at_state [OF claim(1)] claim_all_advances [OF _ claim(2)]
    by (fastforce simp: contents_ok_def advances_def)
next
  case (published now mid ev owner d fs r5 d' fs')
  then show ?case unfolding MarkPublished_def by (auto dest!: update_outbox_state simp: contents_ok_def set_outbox_def)
next
  case (failed now jitter mid ev err maxr backoff lease owner d fs r6 d' fs')
  then show ?case using MarkFailed_state [OF failed(1)] by (auto simp: contents_ok_def set_outbox_def)
next
  case (retry_dlq now mid ev backoff owner d fs r5 d' fs')
  then show ?case unfolding RetryDLQ_def by (auto dest!: update_outbox_state simp: contents_ok_def set_outbox_def)
next
  case (dead mid ev owner d fs r5 d' fs')
  then show ?case unfolding MarkDead_def by (auto dest!: update_outbox_state simp: contents_ok_def set_outbox_def)
qed

lemma reachable_payloads_ok:
  assumes "store_reachable U d"
  shows "payloads_ok d"
proof -
  have c: "contents_ok d"
    using assms
  proof (induction rule: store_reachable.induct)
    case start
    show ?case by (simp add: contents_ok_def empty_db_def)
  next
    case (step d d')
    from store_step_contents [OF step(2) store_reachable_inv [OF step(1)] step(3)] show ?case .
  qed
  have "list_all2 outbox_matches (d_msgs d) (d_outbox d)"
    using store_reachable_inv [OF assms] by (simp add: store_inv_def msgs_inv_def)
  then show ?thesis
    unfolding payloads_ok_def
  proof (intro ballI)
    fix q assume m: "list_all2 outbox_matches (d_msgs d) (d_outbox d)" and q: "q \<in> set (d_outbox d)"
    from list_all2_right [OF m q] obtain r where "r \<in> set (d_msgs d)" "outbox_matches r q" by blast
    with c show "case ob_payload q of Event e \<Rightarrow> raw_ok (pe_content e) | Corrupt c s b \<Rightarrow> False"
      by (auto simp: outbox_matches_def contents_ok_def split: payload.splits)
  qed
qed

section \<open>Properties\<close>

text \<open>What may happen in the loop: ticks of the timer after time \<open>t\<close>, checks of the lock, and whatever leaves the lock in place.\<close>

fun ordinary_event :: "nat \<Rightarrow> string \<Rightarrow> int \<Rightarrow> slot_event \<Rightarrow> bool" where
  "ordinary_event conn name t (Poll now Es) \<longleftrightarrow> t \<le> now \<and> (\<forall>rec. permutes_targets (Es rec))"
| "ordinary_event conn name t Monitor \<longleftrightarrow> True"
| "ordinary_event conn name t Cancel \<longleftrightarrow> False"
| "ordinary_event conn name t (Elsewhere s) \<longleftrightarrow> lk_held s name = Some conn \<and> lk_faults s = []"

fun is_poll :: "slot_event \<Rightarrow> bool" where
  "is_poll (Poll now Es) \<longleftrightarrow> True"
| "is_poll _ \<longleftrightarrow> False"

lemma publisher_New_positive: "0 < pc_batch (publisher_New c)" "0 < pc_concurrency (publisher_New c)"
  by (simp_all add: publisher_New_def Let_def)

lemma advances_abs:
  assumes "advances d d'"
  shows "ch_log (abs_chat d') = ch_log (abs_chat d)" and "ch_done (abs_chat d) c \<le> ch_done (abs_chat d') c"
proof -
  show "ch_log (abs_chat d') = ch_log (abs_chat d)" using assms by (simp add: advances_def abs_chat_def messages_of_def)
  have "list_all2 (\<lambda>r r'. row_conv r' = row_conv r \<and> (finished_row r \<longrightarrow> finished_row r')) (d_outbox d) (d_outbox d')"
    using assms unfolding advances_def by (auto elim!: list_all2_mono simp: row_conv_def)
  then show "ch_done (abs_chat d) c \<le> ch_done (abs_chat d') c"
    unfolding abs_chat_def rows_of_def by (simp, induction rule: list_all2_induct) auto
qed

lemma backlog_empty_done:
  assumes "store_inv d" and "backlog shards d = 0" and "List.member shards (OutboxShardID c)"
  shows "ch_done (abs_chat d) c = length (ch_log (abs_chat d) c)"
proof -
  note m = rows_match [OF assms(1), of c]
  have "finished_row q" if "q \<in> set (rows_of c (d_outbox d))" for q
  proof -
    from list_all2_right [OF m that] obtain r where "outbox_matches r q" "mr_conv r = c" by (auto simp: messages_of_def)
    then have "List.member shards (ob_shard q)" using assms(3) by (simp add: outbox_matches_def)
    with assms(2) that show ?thesis by (auto simp: backlog_def filter_empty_conv waiting_def finished_row_def rows_of_def)
  qed
  then have "filter finished_row (rows_of c (d_outbox d)) = rows_of c (d_outbox d)" by simp
  with list_all2_lengthD [OF m] show ?thesis by (simp add: abs_chat_def)
qed

lemma slot_loop_drains:
  assumes "passes (od_cb D) calm" and "od_presence D" and "od_conv_repo D" and "od_config D = publisher_New conf"
    and "services_work calm w" and "store_inv (fst (ow_db w))" and "payloads_ok (fst (ow_db w))"
    and "\<forall>r \<in> set (d_outbox (fst (ow_db w))). waiting shards r \<longrightarrow> ob_next_retry r \<le> t"
    and "lk_held s name = Some conn" and "lk_faults s = []" and "\<forall>ev \<in> set evs. ordinary_event conn name t ev"
    and "slot_loop D owner shards conn name evs (s, w) = (s', w')"
  shows "store_inv (fst (ow_db w')) \<and> advances (fst (ow_db w)) (fst (ow_db w'))
    \<and> backlog shards (fst (ow_db w')) \<le> backlog shards (fst (ow_db w)) - length (filter is_poll evs)"
  using assms(5-12)
proof (induction evs arbitrary: s w)
  case Nil
  then show ?case by (simp add: advances_refl)
next
  case (Cons ev evs)
  show ?case
  proof (cases ev)
    case (Poll now Es)
    let ?w1 = "dispatch D Es now owner shards w"
    have ev: "t \<le> now" "\<forall>rec. permutes_targets (Es rec)" using Cons.prems(7) Poll by simp_all
    have ready: "\<forall>r \<in> set (d_outbox (fst (ow_db w))). waiting shards r \<longrightarrow> ob_next_retry r \<le> now"
      using Cons.prems(4) ev(1) by (meson order_trans)
    note pos = publisher_New_positive [of conf, folded assms(4)]
    note d = dispatch_works [OF assms(1-3) ev(2) pos Cons.prems(1-3), of now owner shards]
    have d1: "services_work calm ?w1" "store_inv (fst (ow_db ?w1))" "advances (fst (ow_db w)) (fst (ow_db ?w1))"
      "\<forall>r \<in> set (d_outbox (fst (ow_db ?w1))). unfinished (ob_status r) \<longrightarrow> r \<in> set (d_outbox (fst (ow_db w)))"
      "backlog shards (fst (ow_db ?w1)) \<le> backlog shards (fst (ow_db w)) - 1" using d ready by blast+
    have r1: "\<forall>r \<in> set (d_outbox (fst (ow_db ?w1))). waiting shards r \<longrightarrow> ob_next_retry r \<le> t"
      using d1(4) Cons.prems(4) by (auto simp: waiting_def)
    have l: "slot_loop D owner shards conn name evs (s, ?w1) = (s', w')" using Cons.prems(8) Poll by simp
    from Cons.IH [OF d1(1,2) payloads_ok_advances [OF d1(3) Cons.prems(3)] r1 Cons.prems(5,6) _ l] Cons.prems(7)
    have "store_inv (fst (ow_db w')) \<and> advances (fst (ow_db ?w1)) (fst (ow_db w'))
      \<and> backlog shards (fst (ow_db w')) \<le> backlog shards (fst (ow_db ?w1)) - length (filter is_poll evs)" by simp
    with d1(3,5) Poll show ?thesis using advances_trans by auto
  next
    case Monitor
    have c: "checkWorkerLock conn name s = (None, s)" using Cons.prems(5,6) by (cases s) (simp add: checkWorkerLock_def)
    from Cons.IH [OF Cons.prems(1-6), of] Cons.prems(7,8) Monitor c show ?thesis by simp
  next
    case Cancel
    with Cons.prems(7) show ?thesis by simp
  next
    case (Elsewhere s1)
    from Cons.IH [OF Cons.prems(1-4), of s1] Cons.prems(7,8) Elsewhere show ?thesis by simp
  qed
qed



text \<open>
  The second message of the small database: the push breaker is closed, the lock is held, and one
  tick after a check of the lock publishes it.
\<close>

definition demo_breaker :: breaker_config where
  "demo_breaker = \<lparr>bc_name = ''kafka:push_publish'', bc_interval = 10000, bc_min_requests = 20, bc_failure_ratio = 1 / 2,
     bc_open_timeout = 5000, bc_half_open_max = 3\<rparr>"

definition demo_deps :: "counting_breaker outbox_deps" where
  "demo_deps = \<lparr>od_config = publisher_New \<lparr>pc_max_retries = 0, pc_backoff = 0, pc_poll = 0, pc_batch = 0,
       pc_workers = 0, pc_concurrency = 0, pc_lease = 0\<rparr>,
     od_presence = True, od_conv_repo = True, od_cb = counting_execute demo_breaker, od_prefix = [], od_push_partitions = 4,
     od_partial = (\<lambda>b. demo_event)\<rparr>"

definition demo_waiting_world :: "counting_breaker outbox_world" where
  "demo_waiting_world = \<lparr>ow_db = (demo_db6, []),
     ow_redis = snd (presence_Register demo_presence 3000 demo_route empty_redis),
     ow_kafka = ([''kafka:push_publish'' \<mapsto> \<lparr>cnt_open = False, cnt_requests = 0, cnt_failures = 0\<rparr>], \<lparr>bk_log = [], bk_faults = []\<rparr>)\<rparr>"

definition demo_locks :: lock_server where
  "demo_locks = \<lparr>lk_held = [''slot'' \<mapsto> 3], lk_faults = []\<rparr>"

lemma counting_passes: "0 < bc_failure_ratio c \<Longrightarrow> passes (counting_execute c) (\<lambda>s. \<not> cnt_open s \<and> cnt_failures s = 0)"
  by (auto simp: passes_def counting_execute_def ready_to_trip_def)

lemma demo_backlog:
  "map (\<lambda>r. (waiting [OutboxShardID 5] r, ob_next_retry r)) (d_outbox demo_db6) = [(False, 8000), (True, 4000)]"
  by code_simp


end
