(* ===== verification/Commands.thy ===== *)
theory Commands
  imports Bootstrap "HOL-Library.List_Lexorder"
begin

text \<open>
  The two commands: \<open>cmd/migrate/main.go\<close>, which brings the schema up to date with the embedded SQL
  scripts, and \<open>cmd/server/main.go\<close>, which loads the configuration, assembles the application and
  runs it. What a script does to the schema is MySQL's and a parameter; versions are compared as byte
  strings.
\<close>

definition envOr :: "environment \<Rightarrow> string \<Rightarrow> string \<Rightarrow> string" where
  "envOr env key def = (case env key of Some v \<Rightarrow> if v \<noteq> [] then v else def | None \<Rightarrow> def)"

definition config_path :: "environment \<Rightarrow> string" where
  "config_path env = envOr env ''GOChat_CONFIG'' ''./config/config.yaml''"

section \<open>Migrations\<close>

definition strings_Contains :: "string \<Rightarrow> string \<Rightarrow> bool" where
  "strings_Contains s sub = list_ex (\<lambda>i. take (length sub) (drop i s) = sub) [0..<Suc (length s)]"

definition HasSuffix :: "string \<Rightarrow> string \<Rightarrow> bool" where
  "HasSuffix s suf \<longleftrightarrow> length suf \<le> length s \<and> drop (length s - length suf) s = suf"

definition multi_statements :: "string \<Rightarrow> string" where
  "multi_statements dsn =
     (if strings_Contains dsn ''multiStatements'' then dsn
      else dsn @ (if strings_Contains dsn ''?'' then ''&'' else ''?'') @ ''multiStatements=true'')"

text \<open>The database of the command: the table of versions, when it exists, and the schema.\<close>

record 'd migrate_db =
  mg_versions :: "string list option"
  mg_schema :: 'd
  mg_faults :: "gerr fault list"

definition mg_call :: "('d migrate_db \<Rightarrow> gerr option \<times> 'd migrate_db) \<Rightarrow> 'd migrate_db \<Rightarrow> gerr option \<times> 'd migrate_db" where
  "mg_call f s =
     (case pop_fault (mg_faults s) of (ft, fs) \<Rightarrow>
        let s0 = s\<lparr>mg_faults := fs\<rparr> in
        (case ft of
           Reply \<Rightarrow> f s0
         | Lost e \<Rightarrow> (Some e, s0)
         | AckLost e \<Rightarrow> (Some e, snd (f s0))))"

definition create_versions :: "'d migrate_db \<Rightarrow> gerr option \<times> 'd migrate_db" where
  "create_versions = mg_call (\<lambda>s. (None, case mg_versions s of None \<Rightarrow> s\<lparr>mg_versions := Some []\<rparr> | Some vs \<Rightarrow> s))"

text \<open>The error of the count is not looked at; it leaves the count at zero.\<close>

definition count_version :: "string \<Rightarrow> 'd migrate_db \<Rightarrow> nat \<times> 'd migrate_db" where
  "count_version f s =
     (case mg_call (\<lambda>s. (if mg_versions s = None then Some (MySQLError 1146) else None, s)) s of
        (Some e, s') \<Rightarrow> (0, s')
      | (None, s') \<Rightarrow> (case mg_versions s' of None \<Rightarrow> 0 | Some vs \<Rightarrow> length (filter (\<lambda>v. v = f) vs), s'))"

definition insert_version :: "string \<Rightarrow> 'd migrate_db \<Rightarrow> gerr option \<times> 'd migrate_db" where
  "insert_version f = mg_call (\<lambda>s.
     (case mg_versions s of
        None \<Rightarrow> (Some (MySQLError 1146), s)
      | Some vs \<Rightarrow> if List.member vs f then (Some duplicate_key, s) else (None, s\<lparr>mg_versions := Some (vs @ [f])\<rparr>)))"

definition exec_script ::
  "(string \<Rightarrow> 'd \<Rightarrow> gerr option \<times> 'd) \<Rightarrow> string \<Rightarrow> 'd migrate_db \<Rightarrow> gerr option \<times> 'd migrate_db" where
  "exec_script sql text = mg_call (\<lambda>s. case sql text (mg_schema s) of (err, d) \<Rightarrow> (err, s\<lparr>mg_schema := d\<rparr>))"

definition sql_files :: "(string \<times> string) list \<Rightarrow> (string \<times> string) list" where
  "sql_files entries = sort_key fst (filter (\<lambda>e. HasSuffix (fst e) ''.sql'') entries)"

text \<open>The loop over the files, which are embedded and can always be read; the result is the exit status.\<close>

fun apply_files ::
  "(string \<Rightarrow> 'd \<Rightarrow> gerr option \<times> 'd) \<Rightarrow> (string \<times> string) list \<Rightarrow> 'd migrate_db \<Rightarrow> int \<times> 'd migrate_db" where
  "apply_files sql [] s = (0, s)"
| "apply_files sql (f # fs) s =
     (case count_version (fst f) s of (n, s1) \<Rightarrow>
        if 0 < n then apply_files sql fs s1
        else (case exec_script sql (snd f) s1 of
           (Some e, s2) \<Rightarrow> (1, s2)
         | (None, s2) \<Rightarrow>
             (case insert_version (fst f) s2 of
                (Some e, s3) \<Rightarrow> (1, s3)
              | (None, s3) \<Rightarrow> apply_files sql fs s3)))"

text \<open>
  \<open>main\<close>: \<open>flag\<close> is the value of \<open>-dsn\<close> when it is given, \<open>opened\<close> what opening a connection answers.
\<close>

definition migrate_main ::
  "(string \<Rightarrow> 'd \<Rightarrow> gerr option \<times> 'd) \<Rightarrow> (string \<Rightarrow> config \<Rightarrow> gerr + config) \<Rightarrow> (string \<Rightarrow> file_read) \<Rightarrow> environment
     \<Rightarrow> string option \<Rightarrow> (string \<Rightarrow> gerr option) \<Rightarrow> (string \<times> string) list \<Rightarrow> 'd migrate_db \<Rightarrow> int \<times> 'd migrate_db" where
  "migrate_main sql yaml read_file env flag opened entries s =
     (let dsn0 = (case flag of Some v \<Rightarrow> v | None \<Rightarrow> envOr env ''GOChat_MYSQL_DSN'' []) in
      case (if dsn0 = [] then map_sum id (\<lambda>c. my_dsn (cf_mysql c)) (fst (LoadConfig yaml (read_file (config_path env)) env []))
            else Inr dsn0) of
        Inl e \<Rightarrow> (1, s)
      | Inr dsn \<Rightarrow>
          if opened (multi_statements dsn) \<noteq> None then (1, s)
          else (case create_versions s of
             (Some e, s1) \<Rightarrow> (1, s1)
           | (None, s1) \<Rightarrow> apply_files sql (sql_files entries) s1))"

section \<open>The server\<close>

text \<open>The exit status; \<open>ended\<close> is how the running server came to its end.\<close>

definition server_main ::
  "('l, 's, 'g) libs \<Rightarrow> outcomes \<Rightarrow> (string \<Rightarrow> config \<Rightarrow> gerr + config) \<Rightarrow> (string \<Rightarrow> file_read) \<Rightarrow> environment
     \<Rightarrow> string option \<Rightarrow> (('l, 's, 'g) running \<Rightarrow> gerr option) \<Rightarrow> id_db \<Rightarrow> int \<times> id_db" where
  "server_main L X yaml read_file env flag ended db =
     (case LoadConfig yaml (read_file (case flag of Some p \<Rightarrow> p | None \<Rightarrow> config_path env)) env [] of
        (Inl e, brokers) \<Rightarrow> (1, db)
      | (Inr c, brokers) \<Rightarrow>
          (case Build L X brokers c db of
             (Inl e, db') \<Rightarrow> (1, db')
           | (Inr sx, db') \<Rightarrow>
               (case Run L sx of
                  Inl e \<Rightarrow> (1, db')
                | Inr r \<Rightarrow> (if ended r = None then 0 else 1, db'))))"

section \<open>Facts about migrations\<close>

lemma mg_call_ok:
  assumes "mg_faults s = []"
  shows "mg_call f s = f s"
proof -
  have eq: "s\<lparr>mg_faults := []\<rparr> = s" using assms by (cases s) simp
  have "mg_call f s = f (s\<lparr>mg_faults := []\<rparr>)" by (simp add: mg_call_def assms)
  then show ?thesis unfolding eq .
qed

lemma count_version_ok:
  "mg_faults s = [] \<Longrightarrow> count_version f s = (case mg_versions s of None \<Rightarrow> 0 | Some vs \<Rightarrow> length (filter (\<lambda>v. v = f) vs), s)"
  by (simp add: count_version_def mg_call_ok split: option.split)

text \<open>
  A run on a database that answers applies the scripts that are not recorded, in the order of their
  names and each once, records them, and another run then changes nothing.
\<close>

lemma apply_files_recorded:
  "mg_faults s = [] \<Longrightarrow> mg_versions s = Some vs \<Longrightarrow> fst ` set fs \<subseteq> set vs \<Longrightarrow> apply_files sql fs s = (0, s)"
proof (induction fs)
  case (Cons f fs)
  then have "0 < length (filter (\<lambda>v. v = fst f) vs)" by (auto simp: filter_empty_conv)
  with Cons show ?case by (simp add: count_version_ok)
qed simp

lemma apply_files_applies:
  assumes "apply_files sql fs s = (0, s')" and "mg_faults s = []" and "mg_versions s = Some vs" and "distinct (map fst fs)"
  shows "mg_faults s' = [] \<and> mg_versions s' = Some (vs @ map fst (filter (\<lambda>f. fst f \<notin> set vs) fs))
    \<and> mg_schema s' = fold (\<lambda>f d. snd (sql (snd f) d)) (filter (\<lambda>f. fst f \<notin> set vs) fs) (mg_schema s)"
  using assms
proof (induction fs arbitrary: s vs)
  case (Cons f fs)
  note c = count_version_ok [OF Cons.prems(2), of "fst f"]
  show ?case
  proof (cases "fst f \<in> set vs")
    case True
    then have "0 < length (filter (\<lambda>v. v = fst f) vs)" by (auto simp: filter_empty_conv)
    then have "apply_files sql fs s = (0, s')" using Cons.prems(1,3) by (simp add: c)
    from Cons.IH [OF this Cons.prems(2,3)] Cons.prems(4) True show ?thesis by simp
  next
    case False
    then have "filter (\<lambda>v. v = fst f) vs = []" by (auto simp: filter_empty_conv)
    then obtain d where d: "sql (snd f) (mg_schema s) = (None, d)"
      and a: "apply_files sql fs (s\<lparr>mg_schema := d, mg_versions := Some (vs @ [fst f])\<rparr>) = (0, s')"
      using Cons.prems(1-3) False
      by (auto simp: c exec_script_def insert_version_def mg_call_ok List.member_iff split: prod.splits option.splits)
    have "filter (\<lambda>g. fst g \<notin> set (vs @ [fst f])) fs = filter (\<lambda>g. fst g \<notin> set vs) fs"
      using Cons.prems(4) by (intro filter_cong refl) (force simp: image_iff)
    with Cons.IH [OF a, of "vs @ [fst f]"] Cons.prems(2,4) False d show ?thesis by simp
  qed
qed simp

lemma migrations_applied_once:
  assumes "apply_files sql (sql_files entries) s = (0, s')" and "mg_faults s = []" and "mg_versions s = Some vs"
    and "distinct (map fst entries)"
  shows "mg_schema s' = fold (\<lambda>f d. snd (sql (snd f) d)) (filter (\<lambda>f. fst f \<notin> set vs) (sql_files entries)) (mg_schema s)
    \<and> sorted (map fst (sql_files entries)) \<and> apply_files sql (sql_files entries) s' = (0, s')"
proof -
  have "distinct (map fst (sql_files entries))" using assms(4) by (auto simp: sql_files_def distinct_map intro: inj_on_subset)
  note a = apply_files_applies [OF assms(1-3) this]
  have "fst ` set (sql_files entries) \<subseteq> set (vs @ map fst (filter (\<lambda>f. fst f \<notin> set vs) (sql_files entries)))" by auto
  with a have "apply_files sql (sql_files entries) s' = (0, s')" by (intro apply_files_recorded) blast+
  moreover have "sorted (map fst (sql_files entries))" by (simp add: sql_files_def)
  ultimately show ?thesis using a by blast
qed

text \<open>
  Without an answer to the count a recorded script is run again; and a script whose version could
  not be recorded is run again by the next run.
\<close>

lemma failed_count_runs_script_again:
  assumes "mg_faults s = [Lost e]" and "mg_versions s = Some vs" and "f \<in> set vs" and "sql text (mg_schema s) = (None, d)"
  shows "mg_schema (snd (apply_files sql [(f, text)] s)) = d"
  using assms by (simp add: count_version_def exec_script_def insert_version_def mg_call_def Let_def List.member_iff)

lemma unrecorded_script_runs_again:
  assumes "mg_faults s = [Reply, Reply, Lost e]" and "mg_versions s = Some vs" and "f \<notin> set vs"
    and "sql text (mg_schema s) = (None, d)" and "sql text d = (None, d')"
  shows "mg_schema (snd (apply_files sql [(f, text)] (snd (apply_files sql [(f, text)] s)))) = d'"
proof -
  have n: "filter (\<lambda>v. v = f) vs = []" using assms(3) by (auto simp: filter_empty_conv)
  have "snd (apply_files sql [(f, text)] s) = s\<lparr>mg_faults := [], mg_schema := d\<rparr>"
    using assms(1-4) n by (simp add: count_version_def exec_script_def insert_version_def mg_call_def Let_def)
  then show ?thesis
    using assms(2,3,5) n by (simp add: count_version_def exec_script_def insert_version_def mg_call_def Let_def List.member_iff)
qed

end
