(* ===== verification/Spec2Isabelle.thy ===== *)
theory Spec2Isabelle
  imports Resilience IdgenSystem Codec Store RedisStore ConversationService Kafka MessageService History
    PersistWorker OutboxPublisher Connection Gateway Websocket Users Http Config Bootstrap Delivery ChatLog LocalLimiter Progress Commands
begin

text \<open>
  GO-CHAT, an instant messaging server in Go: its data plane and its interfaces.

  \<^bold>\<open>The program.\<close> A message goes through these parts (paths under \<open>src/internal\<close>):

  client \<open>\<rightarrow>\<close> HTTP router or WebSocket reader (\<open>transport\<close>) \<open>\<rightarrow>\<close> \<open>message.Service.Send\<close> (validation, rate
  limit, membership, fast idempotency in Redis) \<open>\<rightarrow>\<close> Kafka inbox topic \<open>\<rightarrow>\<close> persist worker (message id, sequence
  number, message and outbox row in one MySQL transaction) \<open>\<rightarrow>\<close> outbox publisher (claims the oldest
  unfinished row of each conversation under a lease, asks Redis where the members are connected)
  \<open>\<rightarrow>\<close> one partition of the push topic per gateway \<open>\<rightarrow>\<close> deliver worker \<open>\<rightarrow>\<close> queue of a connection \<open>\<rightarrow>\<close> its writer.

  What cannot be stored, published or delivered goes to a dead letter topic, which a last worker
  counts. Beside this path there are accounts, conversations, history, cursors, tickets, the
  generator of identifiers, and the assembly of one process from its configuration.

  \<^bold>\<open>Theories and sources.\<close> Each theory has the groups of its component in the order of the code -
  state, operations, facts, properties; the names are those of the source.

  \<^descr> \<open>GoPrelude\<close>, \<open>Svc\<close>: \<open>int64\<close> wrap-around, how a call to a service can end, early returns, shared lemmas.
  \<^descr> \<open>Errs\<close>: \<open>errs\<close>. \<open>Resilience\<close>: \<open>resilience\<close> (breaker, bulkhead).
  \<^descr> \<open>Codec\<close>: \<open>strconv\<close>, base64, \<open>TrimSpace\<close>, the cursors of \<open>user/cursor.go\<close> and
    \<open>conversation/service.go\<close>, CRC-32 and the shards of \<open>message/outbox_shard.go\<close>.
  \<^descr> \<open>Content\<close>: \<open>message/model.go\<close>, \<open>command.go\<close>. \<open>Json\<close>: how \<open>encoding/json\<close> fills the structures of clients.
  \<^descr> \<open>Db\<close>: rows of \<open>mysql/model\<close>, queries, statements and transactions against a list of faults to come.
  \<^descr> \<open>MessageRepo\<close>, \<open>OutboxRepo\<close>, \<open>ConversationRepo\<close>: the files of these names in \<open>mysql/repository\<close>.
  \<^descr> \<open>Store\<close>: the tables under all repository operations in any order. \<open>ChatLog\<close>: what they implement.
  \<^descr> \<open>Progress\<close>: what one dispatch of the publisher achieves on these tables.
  \<^descr> \<open>RedisStore\<close>: \<open>infrastructure/redis\<close> with its Lua scripts, and \<open>connection/presence.go\<close>.
    \<open>LocalLimiter\<close>: \<open>localRateStore\<close> of \<open>rate_limiter.go\<close>.
  \<^descr> \<open>Idgen\<close>, \<open>IdgenSystem\<close>, \<open>IdPort\<close>: \<open>infrastructure/idgen\<close> and \<open>segment_repository.go\<close>.
  \<^descr> \<open>Kafka\<close>: \<open>infrastructure/kafka\<close>. \<open>ConversationService\<close>: \<open>conversation/service.go\<close>.
  \<^descr> \<open>MessageService\<close>: \<open>message/service.go\<close>. \<open>History\<close>: clients that follow its cursors.
  \<^descr> \<open>PersistWorker\<close>, \<open>OutboxPublisher\<close>: \<open>worker/persist\<close>, \<open>worker/outbox\<close>. \<open>Gateway\<close>: \<open>worker/deliver\<close>, \<open>worker/dlq\<close>.
  \<^descr> \<open>Connection\<close>: \<open>connection/manager.go\<close>, \<open>websocket/connection.go\<close>, \<open>writer.go\<close>.
    \<open>Websocket\<close>: the rest of \<open>transport/websocket\<close>. \<open>Http\<close>: \<open>transport/http\<close>.
  \<^descr> \<open>Users\<close>: \<open>auth\<close>, \<open>user\<close>, \<open>user_repository.go\<close>.
  \<^descr> \<open>Config\<close>, \<open>Bootstrap\<close>: \<open>config\<close>, \<open>bootstrap\<close>, \<open>svc\<close>. \<open>Delivery\<close>: the assembled application.
    \<open>Commands\<close>: \<open>cmd/server\<close> and \<open>cmd/migrate\<close>.

  \<^bold>\<open>State.\<close> A component takes its world and answers a result with the new world; a world is a record of
  the parts the component reaches (tables, Redis, broker log, generator). Errors are values:
  \<open>gerr\<close> is the error chain of \<open>errs\<close>, \<open>gerr + 'a\<close> the result. Goroutines that share memory are step
  relations: the slots of the bulkhead, racing segment claims, callers beside the loader of the
  generator. A service can fail at any call: MySQL and Kafka worlds carry the list of outcomes to come
  (works, fails without effect, fails although the effect took place), so a
  theorem without a premise on this list holds for every pattern of failures. Times are
  milliseconds; each call has the clock at which it happens.

  \<^bold>\<open>What the lemmas show.\<close>

  \<^item> \<open>Store\<close> has the invariant \<open>store_inv\<close> of the tables with one preservation lemma per repository
    operation; gapless numbering, the completeness and order of the outbox, fencing and
    monotone cursors are read off it. \<open>ChatLog\<close> turns the same steps into a refinement: per
    conversation a log that grows at its end, of which a prefix is finished. \<open>Progress\<close> adds that a
    dispatch with services that work makes this prefix grow while a row is due.
  \<^item> The services and workers are shown to do only what their callers rely on: an accepted message is
    published, a rejected one leaves no trace, an inbox record is committed after its outcome,
    a row is finished after Kafka, worker queues keep their order, pages of history and of
    conversation lists are complete.
  \<^item> Interfaces of one component to another are locales: \<open>segment_source\<close> (\<open>Idgen\<close>) is what the
    generator needs of its repository, \<open>id_generator\<close> (\<open>IdPort\<close>) what the services need of the
    generator; \<open>refinement\<close> (\<open>GoPrelude\<close>) is what a specification promises about the system that
    implements it. Each is interpreted on the models of the code.
  \<^item> \<open>Websocket\<close> and \<open>Http\<close> bound what one frame or request may change, and the form of the
    answers. \<open>Delivery\<close> composes configuration, presence, routing and delivery.

  \<^bold>\<open>Bounds and fuel.\<close> Loops with a bound in the code recurse on it (retries, attempts, batches, slots
  tried). \<open>handleWithRetry\<close> has no bound; it takes fuel, and \<open>record_is_finished\<close> shows that
  one round more than there are failures to come is enough. \<open>int64\<close> sums are written with their wrap-around
  where a theorem has no bound on them; the generator theorems ask that the maximum stays in range.

  \<^bold>\<open>Parameters.\<close> Third-party code is an argument, and what is assumed of it is a named
  predicate which a witness meets with a concrete instance: \<open>google/uuid\<close>, \<open>sony/gobreaker\<close> (\<open>cb_contract\<close>, \<open>passes\<close>), Argon2, the
  JWT library, the MySQL collation and Unicode case table, \<open>x/time/rate\<close> (\<open>fills_up\<close>), \<open>yaml.Unmarshal\<close>.

  \<^bold>\<open>Where the code departs from its intent.\<close> Each departure that the model shows is a lemma beside the
  component, among them \<open>concurrent_callers_can_duplicate\<close> (\<open>IdgenSystem\<close>), \<open>accepted_but_lost\<close>
  (\<open>MessageService\<close>), \<open>shared_nonce_releases_foreign_claim\<close> (\<open>RedisStore\<close>), \<open>poll_error_drops_records\<close> (\<open>Kafka\<close>),
  \<open>push_races_with_close\<close> (\<open>Connection\<close>), \<open>second_push_is_dropped\<close> (\<open>Gateway\<close>), \<open>details_expose_cause\<close> (\<open>Http\<close>),
  \<open>failed_count_runs_script_again\<close> (\<open>Commands\<close>).

  \<^bold>\<open>Not modelled.\<close> The SQL migrations, the Prometheus
  collectors of \<open>metrics\<close>, loggers, the options of the Redis client, starting goroutines and the HTTP server,
  shutdown and its time limits, and the inside of gin, gorilla, franz-go, GORM and the drivers: these
  have no state that another component reads, or are not in the repository. Operations on the
  database are atomic as their transactions and locking reads make them; interleavings are
  explored between repository calls, not inside one.
\<close>

end
